(* ===== verification/Prelude.thy ===== *)
theory Prelude
  imports Complex_Main "HOL-Library.Word"
begin

text \<open>
  Shared vocabulary of the development: the machine types of the firmware, the ESP-IDF
  error codes the sources compare against, the C string view of a byte string, and the
  generic list and word lemmas several components use.

  \<^item> \<open>uint8_t\<close>, \<open>uint16_t\<close>, \<open>uint32_t\<close>, \<open>uint64_t\<close> are words of that width.
  \<^item> \<open>size_t\<close> counters that the code keeps below a compile-time bound are \<open>nat\<close>; the
    components prove the bound.
  \<^item> \<open>int64_t\<close> microsecond timestamps are \<open>int\<close> (292,000 years of uptime would be
    needed to leave the 64-bit range).
  \<^item> \<open>std::string\<close> and \<open>std::string_view\<close> are \<open>string\<close> (one \<open>char\<close> per byte).
\<close>

type_synonym u8 = "8 word"
type_synonym u16 = "16 word"
type_synonym u32 = "32 word"
type_synonym u64 = "64 word"
type_synonym time_us = int

unbundle bit_operations_syntax

subsection \<open>Collections of facts shared by the components\<close>

named_theorems inv_intro \<open>a component operation keeps its component's invariant\<close>
named_theorems frame_simps \<open>fields an operation leaves alone\<close>

subsection \<open>Error codes\<close>

text \<open>
  \<open>esp_err_t\<close>: the codes the sources produce themselves, and every other code an ESP-IDF
  call may return, by its number.
\<close>

datatype esp_err =
    ESP_OK
  | ESP_FAIL
  | ESP_ERR_NO_MEM
  | ESP_ERR_INVALID_ARG
  | ESP_ERR_INVALID_STATE
  | ESP_ERR_INVALID_SIZE
  | ESP_ERR_TIMEOUT
  | ESP_ERR_WIFI_CONN
  | ESP_ERR_OTHER int

text \<open>
  \<open>ESP_RETURN_ON_ERROR(e, ...)\<close>: evaluate, return early on anything but \<open>ESP_OK\<close>,
  otherwise go on with the next statement.
\<close>

definition return_on_error :: "esp_err \<times> 's \<Rightarrow> ('s \<Rightarrow> esp_err \<times> 's) \<Rightarrow> esp_err \<times> 's" where
  "return_on_error r k = (case r of (e, s) \<Rightarrow> if e = ESP_OK then k s else (e, s))"

lemma return_on_error_OK_iff:
  "return_on_error r k = (ESP_OK, t) \<longleftrightarrow> (\<exists>s. r = (ESP_OK, s) \<and> k s = (ESP_OK, t))"
  by (auto simp: return_on_error_def split: prod.splits if_splits)

lemma return_on_error_simps [simp]:
  "return_on_error (ESP_OK, s) k = k s"
  "e \<noteq> ESP_OK \<Longrightarrow> return_on_error (e, s) k = (e, s)"
  by (simp_all add: return_on_error_def)

text \<open>A sequence of calls, each checked with \<open>ESP_RETURN_ON_ERROR\<close>.\<close>

fun try_all :: "('s \<Rightarrow> esp_err \<times> 's) list \<Rightarrow> 's \<Rightarrow> esp_err \<times> 's" where
  "try_all [] s = (ESP_OK, s)"
| "try_all (f # fs) s = return_on_error (f s) (try_all fs)"

lemma try_all_append_OK:
  "try_all fs s = (ESP_OK, t) \<Longrightarrow> try_all (fs @ gs) s = try_all gs t"
  by (induction fs arbitrary: s) (auto simp: return_on_error_def split: prod.splits if_splits)

text \<open>What every call of the sequence keeps, the sequence keeps, also when it stops early.\<close>

lemma try_all_invariant:
  assumes "\<And>f s. f \<in> set fs \<Longrightarrow> P s \<Longrightarrow> P (snd (f s))" and "P s"
  shows "P (snd (try_all fs s))"
  using assms
proof (induction fs arbitrary: s)
  case (Cons f fs)
  obtain e t where f: "f s = (e, t)" by (rule prod.exhaust)
  have "P t" using Cons.prems(1) [of f s] Cons.prems(2) f by simp
  then show ?case using Cons f by (simp add: return_on_error_def)
qed simp

subsection \<open>C strings\<close>

text \<open>What \<open>c_str()\<close> denotes to a C interface: the bytes before the first NUL.\<close>

definition c_str :: "string \<Rightarrow> string" where
  "c_str s = takeWhile (\<lambda>c. c \<noteq> CHR 0x00) s"

lemma c_str_id: "CHR 0x00 \<notin> set s \<Longrightarrow> c_str s = s"
  unfolding c_str_def by (induction s) auto

lemma c_str_chars [simp]:
  "c_str [] = []" "c_str (x # xs) = (if x = CHR 0x00 then [] else x # c_str xs)"
  by (simp_all add: c_str_def)

lemma c_str_idem [simp]: "c_str (c_str s) = c_str s"
  by (rule c_str_id) (auto simp: c_str_def dest: set_takeWhileD)

lemma c_str_no_nul: "CHR 0x00 \<notin> set (c_str s)"
  by (auto simp: c_str_def dest: set_takeWhileD)

text \<open>\<open>std::string_view::substr(0, n) == prefix\<close> and \<open>rfind(prefix, 0) == 0\<close>.\<close>

definition starts_with :: "string \<Rightarrow> string \<Rightarrow> bool" where
  "starts_with v p = (length p \<le> length v \<and> take (length p) v = p)"

lemma starts_with_append [simp]: "starts_with (p @ s) p"
  by (simp add: starts_with_def)

lemma starts_with_iff: "starts_with v p \<longleftrightarrow> (\<exists>s. v = p @ s)"
  unfolding starts_with_def by (metis append_take_drop_id append_eq_conv_conj length_take min.absorb2
      le_add1 length_append)

definition crlf :: string where "crlf = [CHR 0x0D, CHR 0x0A]"

text \<open>What \<open>strlcpy\<close> leaves in a buffer of \<open>n\<close> bytes, read back as a C string.\<close>

definition strlcpy :: "string \<Rightarrow> nat \<Rightarrow> string" where
  "strlcpy src n = take (n - 1) (c_str src)"

lemma strlcpy_id: "CHR 0x00 \<notin> set src \<Longrightarrow> length src < n \<Longrightarrow> strlcpy src n = src"
  by (simp add: strlcpy_def c_str_id)

text \<open>\<open>static_cast<char>(byte)\<close> and back.\<close>

definition char8 :: "u8 \<Rightarrow> char" where
  "char8 b = char_of (unat b)"

definition byte8 :: "char \<Rightarrow> u8" where
  "byte8 c = of_nat (of_char c)"

lemma char8_byte8 [simp]: "char8 (byte8 c) = c"
proof -
  have "(of_char c :: nat) < 256" by simp
  then show ?thesis by (simp add: char8_def byte8_def unat_of_nat)
qed

subsection \<open>Lists\<close>

lemma take_list_update_Suc:
  "i < length xs \<Longrightarrow> take (Suc i) (xs[i := v]) = take i xs @ [v]"
  by (simp add: take_Suc_conv_app_nth)

lemma take_list_update_ge [simp]: "n \<le> i \<Longrightarrow> take n (xs[i := v]) = take n xs"
  by (simp add: take_update_swap list_update_beyond)

text \<open>\<open>memcpy(dst.data() + pos, src, n)\<close> for a copy that stays inside \<open>dst\<close>.\<close>

definition copy_at :: "'a list \<Rightarrow> nat \<Rightarrow> 'a list \<Rightarrow> 'a list" where
  "copy_at dst pos src = take pos dst @ src @ drop (pos + length src) dst"

lemma length_copy_at [simp]:
  "pos + length src \<le> length dst \<Longrightarrow> length (copy_at dst pos src) = length dst"
  by (simp add: copy_at_def)

lemma take_copy_at_before [simp]:
  "n \<le> pos \<Longrightarrow> pos + length src \<le> length dst \<Longrightarrow> take n (copy_at dst pos src) = take n dst"
  by (simp add: copy_at_def min_def)

lemma take_copy_at:
  "pos + length src \<le> length dst \<Longrightarrow> take (pos + length src) (copy_at dst pos src) = take pos dst @ src"
  by (simp add: copy_at_def)

lemma take_copy_at_0 [simp]:
  "length src \<le> length dst \<Longrightarrow> take (length src) (copy_at dst 0 src) = src"
  using take_copy_at [of 0 src dst] by simp

subsection \<open>Folding an effectful step over an input\<close>

text \<open>
  A loop that feeds each element of the input to a step with state and collects what the
  step emits.
\<close>

fun feed_all :: "('s \<Rightarrow> 'a \<Rightarrow> 's \<times> 'e list) \<Rightarrow> 's \<Rightarrow> 'a list \<Rightarrow> 's \<times> 'e list" where
  "feed_all f s [] = (s, [])"
| "feed_all f s (x # xs) =
     (let (s1, es) = f s x; (s2, fs) = feed_all f s1 xs in (s2, es @ fs))"

lemma feed_all_append:
  "feed_all f s (xs @ ys) =
     (let (s1, es) = feed_all f s xs; (s2, fs) = feed_all f s1 ys in (s2, es @ fs))"
  by (induction xs arbitrary: s) (auto simp: Let_def split: prod.splits)

lemma feed_all_invariant:
  assumes "\<And>s x. P s \<Longrightarrow> P (fst (f s x)) \<and> (\<forall>e \<in> set (snd (f s x)). Q e)"
    and "P s"
  shows "P (fst (feed_all f s xs)) \<and> (\<forall>e \<in> set (snd (feed_all f s xs)). Q e)"
  using assms(2)
proof (induction xs arbitrary: s)
  case Nil
  then show ?case by simp
next
  case (Cons x xs)
  have "P (fst (f s x))" and "\<forall>e \<in> set (snd (f s x)). Q e"
    using assms(1) [OF Cons.prems] by auto
  then show ?case using Cons.IH [of "fst (f s x)"]
    by (auto simp: Let_def split: prod.splits)
qed

text \<open>
  The interface between a component that assembles messages from a byte stream and its
  clients: a concrete step with an invariant, and the abstract step it simulates on what the
  component holds. The RTCM parser, the NMEA line reader and the RANGEA reader implement it.
\<close>

locale stream_machine =
  fixes step :: "'s \<Rightarrow> 'b \<Rightarrow> 's \<times> 'e list"
    and inv :: "'s \<Rightarrow> bool"
    and held :: "'s \<Rightarrow> 'a"
    and astep :: "'a \<Rightarrow> 'b \<Rightarrow> 'a \<times> 'e list"
  assumes step_inv: "inv s \<Longrightarrow> inv (fst (step s b))"
    and step_sim: "inv s \<Longrightarrow> (held (fst (step s b)), snd (step s b)) = astep (held s) b"
begin

lemma run_inv: "inv s \<Longrightarrow> inv (fst (feed_all step s bs))"
  using feed_all_invariant [of inv step "\<lambda>_. True" s bs] step_inv by blast

lemma run_sim:
  "inv s \<Longrightarrow> (held (fst (feed_all step s bs)), snd (feed_all step s bs)) = feed_all astep (held s) bs"
proof (induction bs arbitrary: s)
  case Nil
  then show ?case by simp
next
  case (Cons b bs)
  have one: "astep (held s) b = (held (fst (step s b)), snd (step s b))"
    using step_sim [OF Cons.prems] by simp
  show ?case
    using Cons.IH [OF step_inv [OF Cons.prems, of b], symmetric]
    by (simp add: one Let_def split: prod.splits)
qed

lemma run_held: "inv s \<Longrightarrow> held (fst (feed_all step s bs)) = fst (feed_all astep (held s) bs)"
  using run_sim [of s bs] by (metis fst_conv)

lemma run_events: "inv s \<Longrightarrow> snd (feed_all step s bs) = snd (feed_all astep (held s) bs)"
  using run_sim [of s bs] by (metis snd_conv)

end

subsection \<open>Transition systems\<close>

text \<open>
  The interface of a component whose operations are called by several tasks: a step relation
  that interleaves them, and an invariant that every step keeps.
\<close>

locale transition_system =
  fixes step :: "'s \<Rightarrow> 's \<Rightarrow> bool"
    and inv :: "'s \<Rightarrow> bool"
  assumes step_keeps: "inv s \<Longrightarrow> step s t \<Longrightarrow> inv t"
begin

lemma reachable_inv: "rtranclp step s t \<Longrightarrow> inv s \<Longrightarrow> inv t"
  by (induction rule: rtranclp_induct) (auto intro: step_keeps)

end

subsection \<open>Words\<close>

lemma word_less_2p_iff_bits:
  fixes w :: "'a::len word"
  assumes "n < LENGTH('a)"
  shows "w < 2 ^ n \<longleftrightarrow> (\<forall>i\<ge>n. \<not> bit w i)"
proof -
  have "w < 2 ^ n \<longleftrightarrow> uint w < 2 ^ n"
    using assms by (simp add: word_2p_lem word_size)
  also have "\<dots> \<longleftrightarrow> take_bit n (uint w) = uint w"
    by (simp add: take_bit_int_eq_self_iff)
  also have "\<dots> \<longleftrightarrow> take_bit n w = w"
    by (metis unsigned_take_bit_eq word_eq_iff_unsigned)
  also have "\<dots> \<longleftrightarrow> (\<forall>i\<ge>n. \<not> bit w i)"
    by (auto simp: bit_eq_iff bit_take_bit_iff not_le dest: bit_imp_le_length)
  finally show ?thesis .
qed

end
