(* ===== verification/Crc24.thy ===== *)
theory Crc24
  imports Prelude
begin

text \<open>
  The CRC-24Q of RTCM 3 frames, \<open>BaseStation::rtcm_crc24q\<close> in \<open>main/base_station.cpp\<close>: the
  bit loop on a \<open>uint32_t\<close>, and the algebra that makes it an error-detecting code. One
  round of the loop is a bijection of the 24-bit remainders, so two messages that differ in
  exactly one byte have different checksums.
\<close>

subsection \<open>The code\<close>

text \<open>\<open>crc <<= 1; if (crc & 0x1000000) crc ^= 0x1864CFB;\<close>\<close>

definition crc_shift :: "u32 \<Rightarrow> u32" where
  "crc_shift crc =
     (let crc = push_bit 1 crc in if crc AND 0x1000000 \<noteq> 0 then crc XOR 0x1864CFB else crc)"

text \<open>One iteration of the outer loop: fold a byte in, then eight bit rounds.\<close>

definition crc_byte :: "u32 \<Rightarrow> u8 \<Rightarrow> u32" where
  "crc_byte crc b = (crc_shift ^^ 8) (crc XOR push_bit 16 (ucast b))"

definition rtcm_crc24q :: "u8 list \<Rightarrow> u32" where
  "rtcm_crc24q data = foldl crc_byte 0 data AND 0xFFFFFF"

subsection \<open>Remainders stay below \<open>2 ^ 24\<close>\<close>

definition crc_ok :: "u32 \<Rightarrow> bool" where
  "crc_ok c \<longleftrightarrow> (\<forall>i\<ge>24. \<not> bit c i)"

lemma crc_ok_0 [simp]: "crc_ok 0"
  by (simp add: crc_ok_def)

lemma bit_twice: "bit (c * 2 :: u32) i \<longleftrightarrow> 0 < i \<and> i < 32 \<and> bit c (i - 1)"
proof -
  have "c * 2 = push_bit 1 c" by (simp add: push_bit_eq_mult)
  then have "bit (c * 2) i \<longleftrightarrow> bit (push_bit 1 c) i" by (rule arg_cong)
  also have "\<dots> \<longleftrightarrow> 0 < i \<and> i < 32 \<and> bit c (i - 1)"
    unfolding bit_push_bit_iff by (auto simp: Suc_le_eq dest: bit_imp_le_length)
  finally show ?thesis .
qed

lemma crc_shift_test: "c * 2 AND (0x1000000 :: u32) \<noteq> 0 \<longleftrightarrow> bit c 23"
proof -
  have two: "(0x1000000 :: u32) = 2 ^ 24" by simp
  have "c * 2 AND (2 ^ 24 :: u32) \<noteq> 0 \<longleftrightarrow> bit (c * 2) 24"
    by (metis and_exp_eq_0_iff_not_bit)
  also have "\<dots> \<longleftrightarrow> bit c 23"
    by (simp add: bit_twice)
  finally show ?thesis unfolding two .
qed

lemma crc_shift_eq: "crc_shift c = (if bit c 23 then c * 2 XOR 0x1864CFB else c * 2)"
proof -
  have "push_bit 1 c = c * 2" by (simp add: push_bit_eq_mult)
  then show ?thesis unfolding crc_shift_def Let_def by (simp only: crc_shift_test)
qed

lemma crc_poly_bits:
  "bit (0x1864CFB :: u32) 0" "bit (0x1864CFB :: u32) 24" "24 < i \<Longrightarrow> \<not> bit (0x1864CFB :: u32) i"
proof -
  show "bit (0x1864CFB :: u32) 0" "bit (0x1864CFB :: u32) 24" by simp_all
  have "(0x1864CFB :: u32) < 2 ^ 25" by simp
  then show "24 < i \<Longrightarrow> \<not> bit (0x1864CFB :: u32) i"
    by (subst (asm) word_less_2p_iff_bits) auto
qed

lemma crc_shift_ok:
  assumes "crc_ok c" shows "crc_ok (crc_shift c)"
proof -
  have "\<not> bit (crc_shift c) i" if i: "24 \<le> i" for i
  proof (cases "i = 24")
    case True
    then show ?thesis using crc_poly_bits(2) by (simp add: crc_shift_eq bit_xor_iff bit_twice)
  next
    case False
    then have "\<not> bit c (i - 1)" using assms i by (simp add: crc_ok_def)
    then show ?thesis using False i crc_poly_bits(3) [of i]
      by (simp add: crc_shift_eq bit_xor_iff bit_twice)
  qed
  then show ?thesis by (simp add: crc_ok_def)
qed

lemma crc_shift_pow_ok: "crc_ok c \<Longrightarrow> crc_ok ((crc_shift ^^ n) c)"
  by (induction n) (auto intro: crc_shift_ok)

lemma crc_in_ok: "crc_ok c \<Longrightarrow> crc_ok (c XOR push_bit 16 (ucast (b :: u8)))"
proof -
  assume c: "crc_ok c"
  have "\<not> bit (push_bit 16 (ucast b :: u32)) i" if "24 \<le> i" for i
    using that by (auto simp: bit_push_bit_iff bit_ucast_iff dest!: bit_imp_le_length)
  with c show ?thesis by (simp add: crc_ok_def bit_xor_iff)
qed

lemma crc_byte_ok: "crc_ok c \<Longrightarrow> crc_ok (crc_byte c b)"
  by (simp add: crc_byte_def crc_shift_pow_ok crc_in_ok)

lemma crc_fold_ok: "crc_ok c \<Longrightarrow> crc_ok (foldl crc_byte c data)"
  by (induction data arbitrary: c) (auto intro: crc_byte_ok)

lemma crc_ok_mask: "crc_ok c \<Longrightarrow> c AND 0xFFFFFF = c"
proof -
  assume c: "crc_ok c"
  have m: "(0xFFFFFF :: u32) = mask 24" by (simp add: mask_eq_exp_minus_1)
  show ?thesis
    using c unfolding m by (auto simp: bit_eq_iff bit_and_iff bit_mask_iff crc_ok_def not_le)
qed

lemma rtcm_crc24q_fold: "rtcm_crc24q data = foldl crc_byte 0 data"
  by (simp add: rtcm_crc24q_def crc_ok_mask crc_fold_ok)

lemma rtcm_crc24q_ok: "crc_ok (rtcm_crc24q data)"
  by (simp add: rtcm_crc24q_fold crc_fold_ok)

lemma rtcm_crc24q_less: "rtcm_crc24q data < 2 ^ 24"
  using rtcm_crc24q_ok [of data] by (subst word_less_2p_iff_bits) (auto simp: crc_ok_def)

subsection \<open>A round is injective\<close>

lemma twice_inj:
  assumes "crc_ok c" "crc_ok d" "c * 2 = d * 2" shows "c = d"
proof (rule bit_word_eqI)
  fix n :: nat
  assume "n < LENGTH(32)"
  have "bit (c * 2) (Suc n) = bit (d * 2) (Suc n)" using assms(3) by (rule arg_cong)
  then show "bit c n = bit d n"
    using assms(1,2) by (cases "n < 24") (simp_all add: bit_twice crc_ok_def)
qed

lemma crc_shift_bit0: "bit (crc_shift c) 0 \<longleftrightarrow> bit c 23"
  using crc_poly_bits(1) by (simp add: crc_shift_eq bit_xor_iff bit_twice)

lemma xor_cancel_right: "(a :: u32) XOR c = b XOR c \<Longrightarrow> a = b"
  by (metis xor.assoc xor_self_eq xor.right_neutral)

lemma crc_shift_inj:
  assumes "crc_ok c" "crc_ok d" "crc_shift c = crc_shift d" shows "c = d"
proof -
  have "bit c 23 = bit d 23" using assms(3) crc_shift_bit0 by metis
  with assms(3) have "c * 2 = d * 2"
    by (cases "bit c 23") (simp_all add: crc_shift_eq xor_cancel_right)
  with assms(1,2) show ?thesis by (rule twice_inj)
qed

lemma crc_shift_pow_inj:
  "crc_ok c \<Longrightarrow> crc_ok d \<Longrightarrow> (crc_shift ^^ n) c = (crc_shift ^^ n) d \<Longrightarrow> c = d"
  by (induction n) (auto dest!: crc_shift_inj [rotated 2] intro: crc_shift_pow_ok)

lemma crc_byte_inj_state:
  assumes "crc_ok c" "crc_ok d" "crc_byte c b = crc_byte d b" shows "c = d"
proof -
  have "c XOR push_bit 16 (ucast b) = d XOR push_bit 16 (ucast b)"
    using assms(3) unfolding crc_byte_def
    by (rule crc_shift_pow_inj [OF crc_in_ok [OF assms(1)] crc_in_ok [OF assms(2)]])
  then show ?thesis by (rule xor_cancel_right)
qed

lemma crc_byte_inj_byte:
  assumes "crc_ok c" "crc_byte c a = crc_byte c b" shows "a = b"
proof -
  have "c XOR push_bit 16 (ucast a) = c XOR push_bit 16 (ucast b)"
    using assms(2) unfolding crc_byte_def
    by (rule crc_shift_pow_inj [OF crc_in_ok [OF assms(1)] crc_in_ok [OF assms(1)]])
  then have "push_bit 16 (ucast a :: u32) XOR c = push_bit 16 (ucast b) XOR c"
    by (simp only: xor.commute)
  then have eq: "push_bit 16 (ucast a :: u32) = push_bit 16 (ucast b)"
    by (rule xor_cancel_right)
  show ?thesis
  proof (rule bit_word_eqI)
    fix n :: nat
    assume n: "n < LENGTH(8)"
    have "bit (push_bit 16 (ucast a :: u32)) (n + 16) = bit (push_bit 16 (ucast b :: u32)) (n + 16)"
      unfolding eq ..
    then show "bit a n = bit b n" using n by (simp add: bit_push_bit_iff bit_ucast_iff)
  qed
qed

lemma crc_fold_inj:
  "crc_ok c \<Longrightarrow> crc_ok d \<Longrightarrow> foldl crc_byte c data = foldl crc_byte d data \<Longrightarrow> c = d"
proof (induction data arbitrary: c d)
  case Nil
  then show ?case by simp
next
  case (Cons b data)
  then have "crc_byte c b = crc_byte d b" by (auto intro: crc_byte_ok)
  with Cons.prems(1,2) show ?case by (rule crc_byte_inj_state)
qed

lemma crc_one_byte:
  assumes "a \<noteq> b"
  shows "rtcm_crc24q (pre @ a # post) \<noteq> rtcm_crc24q (pre @ b # post)"
proof
  let ?c = "foldl crc_byte 0 pre"
  assume "rtcm_crc24q (pre @ a # post) = rtcm_crc24q (pre @ b # post)"
  then have "foldl crc_byte (crc_byte ?c a) post = foldl crc_byte (crc_byte ?c b) post"
    by (simp add: rtcm_crc24q_fold)
  moreover have "crc_ok ?c" by (simp add: crc_fold_ok)
  ultimately have "crc_byte ?c a = crc_byte ?c b"
    by (blast intro: crc_fold_inj crc_byte_ok)
  with \<open>crc_ok ?c\<close> have "a = b" by (rule crc_byte_inj_byte)
  with assms show False ..
qed

lemma crc_update:
  assumes "i < length data" and "v \<noteq> data ! i"
  shows "rtcm_crc24q (data[i := v]) \<noteq> rtcm_crc24q data"
proof -
  have "data = take i data @ data ! i # drop (Suc i) data"
    using assms(1) by (rule id_take_nth_drop)
  moreover have "data[i := v] = take i data @ v # drop (Suc i) data"
    using assms(1) by (rule upd_conv_take_nth_drop)
  ultimately show ?thesis using crc_one_byte [OF assms(2)] by metis
qed

text \<open>
  C27. CRC-24Q detects every single-byte error: two messages of the same length that differ
  in exactly one byte never have the same checksum.
\<close>

theorem crc24q_detects_byte_error:
  "i < length data \<Longrightarrow> v \<noteq> data ! i \<Longrightarrow> rtcm_crc24q (data[i := v]) \<noteq> rtcm_crc24q data"
  by (rule crc_update)

lemma crc24q_detects_byte_error_witness:
  "rtcm_crc24q ([0xD3, 0, 1, 7][3 := 6]) \<noteq> rtcm_crc24q [0xD3, 0, 1, 7]"
  by (rule crc24q_detects_byte_error) simp_all

end
