(* ===== verification/RtcmFrame.thy ===== *)
theory RtcmFrame
  imports Crc24
begin

text \<open>
  The RTCM 3 byte-stream parser of \<open>main/base_station.cpp\<close>: \<open>feed_rtcm_byte\<close>,
  \<open>reset_rtcm_parser\<close> and \<open>rtcm_message_number\<close>. The parser state is the array
  \<open>rtcm_frame_\<close> with \<open>rtcm_frame_length_\<close> and \<open>rtcm_frame_expected_\<close>
  (\<open>main/base_station.hpp\<close>). A frame that passes the checksum is an event; the base
  station publishes it (theory BaseStation).
\<close>

subsection \<open>State and operations\<close>

definition kMaxRtcmFrame :: nat where
  "kMaxRtcmFrame = 1200"

record rtcm_parser =
  rp_frame :: "u8 list"
  rp_length :: nat
  rp_expected :: nat

datatype rtcm_event = RtcmFrame "u8 list" | RtcmBadCrc

definition rtcm_parser_init :: rtcm_parser where
  "rtcm_parser_init = \<lparr>rp_frame = replicate kMaxRtcmFrame 0, rp_length = 0, rp_expected = 0\<rparr>"

definition reset_rtcm_parser :: "rtcm_parser \<Rightarrow> rtcm_parser" where
  "reset_rtcm_parser p = p\<lparr>rp_length := 0, rp_expected := 0\<rparr>"

text \<open>\<open>rtcm_frame_[rtcm_frame_length_++] = byte\<close>\<close>

definition rtcm_store :: "rtcm_parser \<Rightarrow> u8 \<Rightarrow> rtcm_parser" where
  "rtcm_store p b = p\<lparr>rp_frame := (rp_frame p)[rp_length p := b], rp_length := rp_length p + 1\<rparr>"

definition rtcm_payload_length :: "u8 list \<Rightarrow> nat" where
  "rtcm_payload_length f =
     unat (push_bit 8 (ucast (f ! 1 AND 0x03) :: u32) OR ucast (f ! 2))"

text \<open>The three bytes that end at \<open>n\<close>, most significant first.\<close>

definition rtcm_crc_field :: "u8 list \<Rightarrow> nat \<Rightarrow> u32" where
  "rtcm_crc_field f n =
     push_bit 16 (ucast (f ! (n - 3))) OR push_bit 8 (ucast (f ! (n - 2))) OR ucast (f ! (n - 1))"

definition feed_rtcm_byte :: "rtcm_parser \<Rightarrow> u8 \<Rightarrow> rtcm_parser \<times> rtcm_event list" where
  "feed_rtcm_byte p b =
     (if rp_length p = 0 then
        if b \<noteq> 0xD3 then (p, []) else (rtcm_store p b, [])
      else
        let p = rtcm_store p b in
        if rp_length p = 2 \<and> rp_frame p ! 1 AND 0xFC \<noteq> 0 then
          let p = reset_rtcm_parser p in
          (if b = 0xD3 then rtcm_store p b else p, [])
        else if rp_length p = 3 then
          let p = p\<lparr>rp_expected := rtcm_payload_length (rp_frame p) + 6\<rparr> in
          (if rp_expected p > length (rp_frame p) \<or> rp_expected p < 6
           then reset_rtcm_parser p else p, [])
        else if rp_expected p = 0 \<or> rp_length p < rp_expected p then (p, [])
        else
          let actual_crc = rtcm_crc_field (rp_frame p) (rp_expected p);
              expected_crc = rtcm_crc24q (take (rp_expected p - 3) (rp_frame p)) in
          (reset_rtcm_parser p,
           if actual_crc = expected_crc
           then [RtcmFrame (take (rp_expected p) (rp_frame p))] else [RtcmBadCrc]))"

definition rtcm_message_number :: "u8 list \<Rightarrow> u16" where
  "rtcm_message_number d =
     (if length d < 5 then 0
      else push_bit 4 (ucast (d ! 3)) OR ucast (drop_bit 4 (d ! 4)))"

subsection \<open>The parser as a function of the bytes it holds\<close>

text \<open>
  The bytes of the frame received so far. All the parser does depends on them alone: the
  rest of the array is stale data of earlier frames.
\<close>

definition rtcm_held :: "rtcm_parser \<Rightarrow> u8 list" where
  "rtcm_held p = take (rp_length p) (rp_frame p)"

definition rtcm_parser_inv :: "rtcm_parser \<Rightarrow> bool" where
  "rtcm_parser_inv p \<longleftrightarrow>
     length (rp_frame p) = kMaxRtcmFrame \<and>
     (rp_length p < 3 \<longrightarrow> rp_expected p = 0) \<and>
     (0 < rp_length p \<longrightarrow> rp_frame p ! 0 = 0xD3) \<and>
     (2 \<le> rp_length p \<longrightarrow> rp_frame p ! 1 AND 0xFC = 0) \<and>
     (3 \<le> rp_length p \<longrightarrow> rp_expected p = rtcm_payload_length (rp_frame p) + 6 \<and>
                           rp_length p < rp_expected p)"

lemma rtcm_parser_inv_init [simp]: "rtcm_parser_inv rtcm_parser_init"
  by (simp add: rtcm_parser_inv_def rtcm_parser_init_def)

lemma rtcm_held_init [simp]: "rtcm_held rtcm_parser_init = []"
  by (simp add: rtcm_held_def rtcm_parser_init_def)

text \<open>The length field has ten bits, so a frame never exceeds 1029 bytes.\<close>

lemma rtcm_payload_length_le: "rtcm_payload_length f \<le> 1023"
proof -
  let ?h = "ucast (f ! 1 AND 0x03) :: u32" and ?l = "ucast (f ! 2) :: u32"
  have "push_bit 8 ?h OR ?l < 2 ^ 10"
  proof (subst word_less_2p_iff_bits)
    show "(10::nat) < LENGTH(32)" by simp
    have three: "(0x03 :: u8) = mask 2" by (simp add: mask_eq_exp_minus_1)
    show "\<forall>i\<ge>10. \<not> bit (push_bit 8 ?h OR ?l) i"
      unfolding three
      by (auto simp: bit_or_iff bit_push_bit_iff bit_ucast_iff bit_and_iff bit_mask_iff
               dest: bit_imp_le_length)
  qed
  then have "unat (push_bit 8 ?h OR ?l) < 1024" by (simp add: word_less_nat_alt)
  then show ?thesis by (simp add: rtcm_payload_length_def)
qed

lemma rtcm_payload_length_cong:
  "3 \<le> n \<Longrightarrow> take n f = take n g \<Longrightarrow> rtcm_payload_length f = rtcm_payload_length g"
proof -
  assume n: "3 \<le> n" and eq: "take n f = take n g"
  have "f ! i = g ! i" if "i < 3" for i
    using n eq that by (metis nth_take order_less_le_trans)
  then show ?thesis by (simp add: rtcm_payload_length_def)
qed

lemma rtcm_inv_length:
  assumes "rtcm_parser_inv p" shows "rp_length p < 1029"
proof (cases "3 \<le> rp_length p")
  case True
  then show ?thesis using assms rtcm_payload_length_le [of "rp_frame p"]
    by (simp add: rtcm_parser_inv_def)
next
  case False
  then show ?thesis by simp
qed

subsection \<open>The specification: a step on the held bytes\<close>

definition rtcm_valid :: "u8 list \<Rightarrow> bool" where
  "rtcm_valid f \<longleftrightarrow>
     6 \<le> length f \<and> f ! 0 = 0xD3 \<and> f ! 1 AND 0xFC = 0 \<and>
     length f = rtcm_payload_length f + 6 \<and>
     rtcm_crc_field f (length f) = rtcm_crc24q (take (length f - 3) f)"

fun rtcm_spec_step :: "u8 list \<Rightarrow> u8 \<Rightarrow> u8 list \<times> rtcm_event list" where
  "rtcm_spec_step [] b = (if b = 0xD3 then [b] else [], [])"
| "rtcm_spec_step [a] b =
     (if b AND 0xFC = 0 then [a, b] else if b = 0xD3 then [b] else [], [])"
| "rtcm_spec_step held b =
     (let f = held @ [b] in
      if length f = 3 \<or> length f < rtcm_payload_length f + 6 then (f, [])
      else ([], [if rtcm_crc_field f (length f) = rtcm_crc24q (take (length f - 3) f)
                 then RtcmFrame f else RtcmBadCrc]))"

lemma rtcm_held_store:
  "rp_length p < length (rp_frame p) \<Longrightarrow> rtcm_held (rtcm_store p b) = rtcm_held p @ [b]"
  by (simp add: rtcm_held_def rtcm_store_def take_Suc_conv_app_nth)

lemma rtcm_held_reset [simp]: "rtcm_held (reset_rtcm_parser p) = []"
  by (simp add: rtcm_held_def reset_rtcm_parser_def)


lemma rtcm_field_take:
  assumes "3 \<le> n" "n \<le> length f"
  shows "rtcm_crc_field (take n f) n = rtcm_crc_field f n"
  using assms by (simp add: rtcm_crc_field_def)

lemma rtcm_held_length: "rtcm_parser_inv p \<Longrightarrow> length (rtcm_held p) = rp_length p"
  using rtcm_inv_length [of p] by (auto simp: rtcm_held_def rtcm_parser_inv_def kMaxRtcmFrame_def)

lemma rtcm_spec_step_long:
  assumes "2 \<le> length held"
  shows "rtcm_spec_step held b =
     (let f = held @ [b] in
      if length f = 3 \<or> length f < rtcm_payload_length f + 6 then (f, [])
      else ([], [if rtcm_crc_field f (length f) = rtcm_crc24q (take (length f - 3) f)
                 then RtcmFrame f else RtcmBadCrc]))"
  using assms by (cases "(held, b)" rule: rtcm_spec_step.cases) simp_all

lemma feed_short:
  assumes inv: "rtcm_parser_inv p" and short: "rp_length p < 2"
  shows "rtcm_parser_inv (fst (feed_rtcm_byte p b)) \<and>
    (rtcm_held (fst (feed_rtcm_byte p b)), snd (feed_rtcm_byte p b)) = rtcm_spec_step (rtcm_held p) b"
proof -
  obtain f0 f1 fs where f: "rp_frame p = f0 # f1 # fs" and len: "length fs = 1198"
    using inv by (cases "rp_frame p"; cases "tl (rp_frame p)")
      (auto simp: rtcm_parser_inv_def kMaxRtcmFrame_def)
  have bits: "(0xD3 :: u8) AND 0xFC \<noteq> 0" by simp
  consider "rp_length p = 0" | "rp_length p = 1" using short by linarith
  then show ?thesis
  proof cases
    case 1
    then show ?thesis using inv f len
      by (auto simp: feed_rtcm_byte_def rtcm_store_def rtcm_held_def rtcm_parser_inv_def kMaxRtcmFrame_def)
  next
    case 2
    then show ?thesis using inv f len bits
      by (auto simp: feed_rtcm_byte_def rtcm_store_def rtcm_held_def rtcm_parser_inv_def
            kMaxRtcmFrame_def reset_rtcm_parser_def Let_def)
  qed
qed

lemma feed_third:
  assumes inv: "rtcm_parser_inv p" and two: "rp_length p = 2"
  shows "rtcm_parser_inv (fst (feed_rtcm_byte p b)) \<and>
    (rtcm_held (fst (feed_rtcm_byte p b)), snd (feed_rtcm_byte p b)) = rtcm_spec_step (rtcm_held p) b"
proof -
  let ?p = "rtcm_store p b"
  have room: "rp_length p < length (rp_frame p)"
    using inv two by (simp add: rtcm_parser_inv_def kMaxRtcmFrame_def)
  have held: "length (rtcm_held p) = 2" using inv two by (simp add: rtcm_held_length)
  have le: "rtcm_payload_length (rp_frame ?p) \<le> 1023" by (rule rtcm_payload_length_le)
  have step: "feed_rtcm_byte p b = (?p\<lparr>rp_expected := rtcm_payload_length (rp_frame ?p) + 6\<rparr>, [])"
    using inv two le
    by (simp add: feed_rtcm_byte_def Let_def rtcm_store_def rtcm_parser_inv_def kMaxRtcmFrame_def)
  have "rtcm_held (?p\<lparr>rp_expected := rtcm_payload_length (rp_frame ?p) + 6\<rparr>) = rtcm_held p @ [b]"
    using rtcm_held_store [OF room, of b] by (simp add: rtcm_held_def)
  moreover have "rtcm_parser_inv (?p\<lparr>rp_expected := rtcm_payload_length (rp_frame ?p) + 6\<rparr>)"
    using inv two by (simp add: rtcm_parser_inv_def rtcm_store_def)
  ultimately show ?thesis using held by (simp add: step rtcm_spec_step_long)
qed

lemma feed_long:
  assumes inv: "rtcm_parser_inv p" and three: "3 \<le> rp_length p"
  shows "rtcm_parser_inv (fst (feed_rtcm_byte p b)) \<and>
    (rtcm_held (fst (feed_rtcm_byte p b)), snd (feed_rtcm_byte p b)) = rtcm_spec_step (rtcm_held p) b"
proof -
  let ?p = "rtcm_store p b"
  let ?f = "rtcm_held p @ [b]"
  have small: "rp_length p < 1029" by (rule rtcm_inv_length [OF inv])
  have room: "rp_length p < length (rp_frame p)"
    using inv small by (simp add: rtcm_parser_inv_def kMaxRtcmFrame_def)
  have lf: "length ?f = rp_length p + 1" using inv by (simp add: rtcm_held_length)
  have held: "rtcm_held ?p = ?f" by (rule rtcm_held_store [OF room])
  have tk: "take (rp_length p + 1) (rp_frame ?p) = ?f"
    using held by (simp add: rtcm_held_def rtcm_store_def)
  have ex: "rp_expected ?p = rtcm_payload_length (rp_frame p) + 6"
    using inv three by (simp add: rtcm_parser_inv_def rtcm_store_def)
  have pl: "rtcm_payload_length (rp_frame p) = rtcm_payload_length ?f"
  proof (rule rtcm_payload_length_cong [of 3])
    show "take 3 (rp_frame p) = take 3 ?f"
      using three room by (simp add: rtcm_held_def min_def take_append)
  qed simp
  have pl': "rtcm_payload_length (rp_frame ?p) = rtcm_payload_length ?f"
    using three tk lf by (intro rtcm_payload_length_cong [of "rp_length p + 1"]) auto
  have keep: "rp_frame ?p ! 0 = 0xD3" "rp_frame ?p ! 1 AND 0xFC = 0"
    using inv three by (simp_all add: rtcm_parser_inv_def rtcm_store_def)
  show ?thesis
  proof (cases "rp_length p + 1 < rtcm_payload_length ?f + 6")
    case True
    have step: "feed_rtcm_byte p b = (?p, [])"
      using three ex pl True by (simp add: feed_rtcm_byte_def Let_def rtcm_store_def)
    have "rtcm_parser_inv ?p"
      using inv three ex pl pl' True keep by (simp add: rtcm_parser_inv_def rtcm_store_def)
    with step held True lf three show ?thesis by (simp add: rtcm_spec_step_long Let_def)
  next
    case False
    have full: "rp_expected ?p = rp_length p + 1"
      using inv three ex pl False by (simp add: rtcm_parser_inv_def)
    have crc: "rtcm_crc_field (rp_frame ?p) (rp_expected ?p) = rtcm_crc_field ?f (length ?f)"
      using rtcm_field_take [of "length ?f" "rp_frame ?p"] three lf tk full room
      by (simp add: rtcm_store_def)
    have body: "take (rp_expected ?p - 3) (rp_frame ?p) = take (length ?f - 3) ?f"
      using tk full lf by (metis diff_le_self min.absorb1 take_take)
    have step: "feed_rtcm_byte p b =
        (reset_rtcm_parser ?p,
         [if rtcm_crc_field ?f (length ?f) = rtcm_crc24q (take (length ?f - 3) ?f)
          then RtcmFrame ?f else RtcmBadCrc])"
    proof -
      have "rp_length ?p = rp_length p + 1" by (simp add: rtcm_store_def)
      then show ?thesis
        using three full crc body tk by (simp add: feed_rtcm_byte_def Let_def)
    qed
    have "rtcm_parser_inv (reset_rtcm_parser ?p)"
      using inv by (simp add: rtcm_parser_inv_def rtcm_store_def reset_rtcm_parser_def)
    with step False lf three show ?thesis by (simp add: rtcm_spec_step_long Let_def)
  qed
qed

lemma feed_step:
  assumes "rtcm_parser_inv p"
  shows "rtcm_parser_inv (fst (feed_rtcm_byte p b)) \<and>
    (rtcm_held (fst (feed_rtcm_byte p b)), snd (feed_rtcm_byte p b)) = rtcm_spec_step (rtcm_held p) b"
proof -
  consider "rp_length p < 2" | "rp_length p = 2" | "3 \<le> rp_length p" by linarith
  then show ?thesis
    using feed_short [OF assms] feed_third [OF assms] feed_long [OF assms] by cases blast+
qed

lemma feed_inv [inv_intro]: "rtcm_parser_inv p \<Longrightarrow> rtcm_parser_inv (fst (feed_rtcm_byte p b))"
  using feed_step by blast

interpretation rtcm: stream_machine feed_rtcm_byte rtcm_parser_inv rtcm_held rtcm_spec_step
  by unfold_locales (use feed_step in blast)+

subsection \<open>What the specification does with a frame\<close>

definition rtcm_prefix :: "u8 list \<Rightarrow> bool" where
  "rtcm_prefix held \<longleftrightarrow>
     (held \<noteq> [] \<longrightarrow> held ! 0 = 0xD3) \<and>
     (2 \<le> length held \<longrightarrow> held ! 1 AND 0xFC = 0) \<and>
     (3 \<le> length held \<longrightarrow> length held < rtcm_payload_length held + 6)"

definition rtcm_sound :: "rtcm_event \<Rightarrow> bool" where
  "rtcm_sound e \<longleftrightarrow> (\<forall>f. e = RtcmFrame f \<longrightarrow> rtcm_valid f)"

lemma rtcm_spec_sound:
  assumes pre: "rtcm_prefix held"
  shows "rtcm_prefix (fst (rtcm_spec_step held b)) \<and>
         (\<forall>e \<in> set (snd (rtcm_spec_step held b)). rtcm_sound e)"
proof (cases "2 \<le> length held")
  case False
  then show ?thesis using pre
    by (cases "(held, b)" rule: rtcm_spec_step.cases) (auto simp: rtcm_prefix_def)
next
  case True
  let ?f = "held @ [b]"
  have "held \<noteq> []" using True by auto
  then have hd: "?f ! 0 = 0xD3" "?f ! 1 AND 0xFC = 0"
    using pre True by (auto simp: rtcm_prefix_def nth_append)
  have eq: "length ?f = rtcm_payload_length ?f + 6"
    if "length ?f \<noteq> 3" "\<not> length ?f < rtcm_payload_length ?f + 6"
  proof -
    have "rtcm_payload_length held = rtcm_payload_length ?f"
      using that True by (intro rtcm_payload_length_cong [of 3]) auto
    moreover have "length held < rtcm_payload_length held + 6"
      using pre that True by (auto simp: rtcm_prefix_def)
    ultimately show ?thesis using that by simp
  qed
  have three: "length ?f < rtcm_payload_length ?f + 6" if "length ?f = 3" using that by simp
  have "rtcm_valid ?f"
    if "length ?f \<noteq> 3" "\<not> length ?f < rtcm_payload_length ?f + 6"
      "rtcm_crc_field ?f (length ?f) = rtcm_crc24q (take (length ?f - 3) ?f)"
    using hd eq [OF that(1,2)] that(3) unfolding rtcm_valid_def by simp
  then show ?thesis using True hd three
    by (auto simp: rtcm_spec_step_long Let_def rtcm_prefix_def rtcm_sound_def)
qed

lemma rtcm_spec_run_sound:
  "rtcm_prefix held \<Longrightarrow> rtcm_prefix (fst (feed_all rtcm_spec_step held bs)) \<and>
    (\<forall>e \<in> set (snd (feed_all rtcm_spec_step held bs)). rtcm_sound e)"
  by (rule feed_all_invariant [of rtcm_prefix]) (auto simp: rtcm_spec_sound)

text \<open>A frame with a well-formed header and the length it announces.\<close>

definition rtcm_framed :: "u8 list \<Rightarrow> bool" where
  "rtcm_framed f \<longleftrightarrow> 6 \<le> length f \<and> f ! 0 = 0xD3 \<and> f ! 1 AND 0xFC = 0 \<and>
     length f = rtcm_payload_length f + 6"

lemma rtcm_spec_run_prefix:
  assumes f: "rtcm_framed f"
  shows "k < length f \<Longrightarrow> feed_all rtcm_spec_step [] (take k f) = (take k f, [])"
proof (induction k)
  case 0
  then show ?case by simp
next
  case (Suc k)
  have IH: "feed_all rtcm_spec_step [] (take k f) = (take k f, [])" using Suc by simp
  have split: "take (Suc k) f = take k f @ [f ! k]" using Suc.prems by (simp add: take_Suc_conv_app_nth)
  have "rtcm_spec_step (take k f) (f ! k) = (take (Suc k) f, [])"
  proof (cases "2 \<le> k")
    case True
    have lk: "length (take k f @ [f ! k]) = Suc k" using Suc.prems by simp
    have "Suc k = 3 \<or> Suc k < rtcm_payload_length (take k f @ [f ! k]) + 6"
    proof (cases "k = 2")
      case False
      then have "rtcm_payload_length (take (Suc k) f) = rtcm_payload_length f"
        using True Suc.prems by (intro rtcm_payload_length_cong [of 3]) (auto simp: min_def)
      then show ?thesis using f Suc.prems by (auto simp: rtcm_framed_def split)
    qed simp
    then show ?thesis using True Suc.prems lk
      by (subst rtcm_spec_step_long) (auto simp: Let_def split)
  next
    case False
    then consider "k = 0" | "k = 1" by linarith
    then show ?thesis using f Suc.prems
      by cases (auto simp: rtcm_framed_def take_Suc_conv_app_nth)
  qed
  then show ?case using IH split by (simp add: feed_all_append)
qed

lemma rtcm_spec_run_framed:
  assumes f: "rtcm_framed f"
  shows "feed_all rtcm_spec_step [] f =
    ([], [if rtcm_crc_field f (length f) = rtcm_crc24q (take (length f - 3) f)
          then RtcmFrame f else RtcmBadCrc])"
proof -
  have len: "6 \<le> length f" using f by (simp add: rtcm_framed_def)
  define k where "k = length f - 1"
  have k: "k < length f" "2 \<le> k" "Suc k = length f" using len by (simp_all add: k_def)
  have split: "f = take k f @ [f ! k]"
    using k take_Suc_conv_app_nth [OF k(1)] by simp
  have pre: "feed_all rtcm_spec_step [] (take k f) = (take k f, [])"
    by (rule rtcm_spec_run_prefix [OF f k(1)])
  have last: "rtcm_spec_step (take k f) (f ! k) =
    ([], [if rtcm_crc_field f (length f) = rtcm_crc24q (take (length f - 3) f)
          then RtcmFrame f else RtcmBadCrc])"
    using len k f split [symmetric] by (subst rtcm_spec_step_long) (auto simp: Let_def rtcm_framed_def)
  have "feed_all rtcm_spec_step [] f = feed_all rtcm_spec_step [] (take k f @ [f ! k])"
    using split by (rule arg_cong)
  also have "\<dots> = ([], [if rtcm_crc_field f (length f) = rtcm_crc24q (take (length f - 3) f)
          then RtcmFrame f else RtcmBadCrc])"
    by (simp only: feed_all_append feed_all.simps pre last Let_def prod.case append_Nil append_Nil2)
  finally show ?thesis .
qed

text \<open>Bytes other than the preamble are skipped between frames.\<close>

lemma rtcm_spec_run_noise: "0xD3 \<notin> set g \<Longrightarrow> feed_all rtcm_spec_step [] g = ([], [])"
  by (induction g) auto

subsection \<open>Encoding a payload\<close>

text \<open>
  The transmitter's side of the format (the receiver chip): preamble, ten-bit length,
  payload, CRC. It is the specification the parser is measured against.
\<close>

definition rtcm_encode :: "u8 list \<Rightarrow> u8 list" where
  "rtcm_encode payload =
     (let n = of_nat (length payload) :: u32;
          body = [0xD3, ucast (drop_bit 8 n), ucast n] @ payload;
          c = rtcm_crc24q body
      in body @ [ucast (drop_bit 16 c), ucast (drop_bit 8 c), ucast c])"

lemma bits_join_10:
  assumes "(w :: u32) < 2 ^ 10"
  shows "push_bit 8 (ucast (ucast (drop_bit 8 w) AND (3 :: u8)) :: u32) OR ucast (ucast w :: u8) = w"
    and "ucast (drop_bit 8 w) AND (0xFC :: u8) = 0"
proof -
  have high: "\<not> bit w i" if "10 \<le> i" for i
    using assms that by (subst (asm) word_less_2p_iff_bits) auto
  have three: "(3 :: u8) = mask 2" by (simp add: mask_eq_exp_minus_1)
  have fc: "(0xFC :: u8) = NOT (mask 2)" by (simp add: mask_eq_exp_minus_1)
  show "push_bit 8 (ucast (ucast (drop_bit 8 w) AND (3 :: u8)) :: u32) OR ucast (ucast w :: u8) = w"
  proof (rule bit_word_eqI)
    fix i :: nat
    assume "i < LENGTH(32)"
    then show "bit (push_bit 8 (ucast (ucast (drop_bit 8 w) AND (3 :: u8)) :: u32) OR ucast (ucast w :: u8)) i = bit w i"
      unfolding three using high [of i]
      by (cases "i < 8"; cases "i < 10")
        (auto simp: bit_or_iff bit_push_bit_iff bit_ucast_iff bit_and_iff bit_mask_iff bit_drop_bit_eq)
  qed
  show "ucast (drop_bit 8 w) AND (0xFC :: u8) = 0"
  proof (rule bit_word_eqI)
    fix i :: nat
    assume "i < LENGTH(8)"
    then show "bit (ucast (drop_bit 8 w) AND (0xFC :: u8)) i = bit (0 :: u8) i"
      unfolding fc using high [of "8 + i"]
      by (auto simp: not_less bit_and_iff bit_ucast_iff bit_not_iff bit_mask_iff bit_drop_bit_eq)
  qed
qed

lemma crc_bytes_join:
  assumes "crc_ok c"
  shows "(push_bit 16 (ucast (ucast (drop_bit 16 c) :: u8)) :: u32) OR push_bit 8 (ucast (ucast (drop_bit 8 c) :: u8))
           OR ucast (ucast c :: u8) = c"
proof (rule bit_word_eqI)
  fix i :: nat
  assume "i < LENGTH(32)"
  then show "bit ((push_bit 16 (ucast (ucast (drop_bit 16 c) :: u8)) :: u32) OR push_bit 8 (ucast (ucast (drop_bit 8 c) :: u8))
           OR ucast (ucast c :: u8)) i = bit c i"
    using assms unfolding crc_ok_def
    by (cases "i < 8"; cases "i < 16"; cases "i < 24")
      (auto simp: bit_or_iff bit_push_bit_iff bit_ucast_iff bit_drop_bit_eq)
qed

lemma length_rtcm_encode [simp]: "length (rtcm_encode p) = length p + 6"
  by (simp add: rtcm_encode_def Let_def)

lemma rtcm_encode_valid:
  assumes "length p \<le> 1023" shows "rtcm_valid (rtcm_encode p)"
proof -
  define n :: u32 where "n = of_nat (length p)"
  define body where "body = [0xD3, ucast (drop_bit 8 n), ucast n] @ p"
  define c where "c = rtcm_crc24q body"
  have un: "unat n = length p" using assms by (simp add: n_def unat_of_nat take_bit_nat_eq_self)
  then have small: "n < 2 ^ 10" using assms by (simp add: word_less_nat_alt)
  have enc: "rtcm_encode p = body @ [ucast (drop_bit 16 c), ucast (drop_bit 8 c), ucast c]"
    by (simp add: rtcm_encode_def Let_def n_def body_def c_def)
  have lb: "length body = length p + 3" by (simp add: body_def)
  have "rtcm_payload_length (rtcm_encode p) = length p"
    using bits_join_10(1) [OF small] un
    by (simp add: rtcm_payload_length_def enc body_def)
  moreover have "rtcm_crc_field (rtcm_encode p) (length (rtcm_encode p)) = c"
    using crc_bytes_join [OF rtcm_crc24q_ok [of body]] lb
    by (simp add: rtcm_crc_field_def enc nth_append c_def)
  moreover have "take (length (rtcm_encode p) - 3) (rtcm_encode p) = body"
    by (simp add: enc)
  ultimately show ?thesis
    using bits_join_10(2) [OF small]
    by (simp add: rtcm_valid_def c_def) (simp add: enc body_def)
qed

lemma rtcm_valid_framed: "rtcm_valid f \<Longrightarrow> rtcm_framed f"
  by (simp add: rtcm_valid_def rtcm_framed_def)

lemma rtcm_valid_crc:
  "rtcm_valid f \<Longrightarrow> rtcm_crc_field f (length f) = rtcm_crc24q (take (length f - 3) f)"
  unfolding rtcm_valid_def by blast

lemma rtcm_valid_length: "rtcm_valid f \<Longrightarrow> length f \<le> 1029"
  using rtcm_payload_length_le [of f] by (simp add: rtcm_valid_def)

lemma rtcm_spec_run_valid: "rtcm_valid f \<Longrightarrow> feed_all rtcm_spec_step [] f = ([], [RtcmFrame f])"
  by (simp only: rtcm_spec_run_framed [OF rtcm_valid_framed] rtcm_valid_crc refl if_True simp_thms)

lemma rtcm_spec_run_stream:
  "list_all (\<lambda>(g, f). 0xD3 \<notin> set g \<and> rtcm_valid f) gs \<Longrightarrow>
   feed_all rtcm_spec_step [] (concat (map (\<lambda>(g, f). g @ f) gs)) = ([], map (\<lambda>(g, f). RtcmFrame f) gs)"
  by (induction gs) (auto simp: feed_all_append rtcm_spec_run_noise rtcm_spec_run_valid Let_def)

subsection \<open>A corrupted byte\<close>

lemma crc_field_bytes:
  assumes "rtcm_crc_field f n = rtcm_crc_field g n"
  shows "f ! (n - 3) = g ! (n - 3) \<and> f ! (n - 2) = g ! (n - 2) \<and> f ! (n - 1) = g ! (n - 1)"
proof -
  have field: "bit (rtcm_crc_field h n) j \<longleftrightarrow>
      (if j < 8 then bit (h ! (n - 1)) j else if j < 16 then bit (h ! (n - 2)) (j - 8)
       else bit (h ! (n - 3)) (j - 16))" if "j < 24" for h :: "u8 list" and j
    using that unfolding rtcm_crc_field_def
    by (auto simp: bit_or_iff bit_push_bit_iff bit_ucast_iff dest: bit_imp_le_length)
  have eq: "bit (rtcm_crc_field f n) j = bit (rtcm_crc_field g n) j" for j using assms by simp
  have "bit (f ! (n - 3)) i = bit (g ! (n - 3)) i" "bit (f ! (n - 2)) i = bit (g ! (n - 2)) i"
    "bit (f ! (n - 1)) i = bit (g ! (n - 1)) i" if "i < 8" for i
    using that eq [of "i + 16"] eq [of "i + 8"] eq [of i] by (simp_all add: field)
  then show ?thesis by (auto intro!: bit_word_eqI)
qed

lemma rtcm_corrupt_crc:
  assumes valid: "rtcm_valid f" and i: "3 \<le> i" "i < length f" and v: "v \<noteq> f ! i"
  shows "rtcm_framed (f[i := v])" and
    "rtcm_crc_field (f[i := v]) (length f) \<noteq> rtcm_crc24q (take (length f - 3) (f[i := v]))"
proof -
  have len: "6 \<le> length f" using valid by (simp add: rtcm_valid_def)
  have "rtcm_payload_length (f[i := v]) = rtcm_payload_length f"
    using i by (intro rtcm_payload_length_cong [of 3]) auto
  then show "rtcm_framed (f[i := v])" using valid i by (auto simp: rtcm_valid_def rtcm_framed_def)
  have good: "rtcm_crc_field f (length f) = rtcm_crc24q (take (length f - 3) f)"
    by (rule rtcm_valid_crc [OF valid])
  show "rtcm_crc_field (f[i := v]) (length f) \<noteq> rtcm_crc24q (take (length f - 3) (f[i := v]))"
  proof (cases "i < length f - 3")
    case True
    then have "take (length f - 3) (f[i := v]) = (take (length f - 3) f)[i := v]"
      by (simp add: take_update_swap)
    moreover have "rtcm_crc_field (f[i := v]) (length f) = rtcm_crc_field f (length f)"
      using True by (simp add: rtcm_crc_field_def)
    moreover have "rtcm_crc24q ((take (length f - 3) f)[i := v]) \<noteq> rtcm_crc24q (take (length f - 3) f)"
      using True v by (intro crc_update) simp_all
    ultimately show ?thesis using good by simp
  next
    case False
    then have same: "take (length f - 3) (f[i := v]) = take (length f - 3) f" by simp
    from False i have "i = length f - 3 \<or> i = length f - 2 \<or> i = length f - 1" by linarith
    then have "rtcm_crc_field (f[i := v]) (length f) \<noteq> rtcm_crc_field f (length f)"
      using crc_field_bytes [of "f[i := v]" "length f" f] v i by (metis nth_list_update_eq)
    then show ?thesis using good same by simp
  qed
qed

subsection \<open>Properties\<close>

text \<open>The parser fed from the start of the stream (or after a reset).\<close>

definition rtcm_run :: "rtcm_parser \<Rightarrow> u8 list \<Rightarrow> rtcm_parser \<times> rtcm_event list" where
  "rtcm_run p bs = feed_all feed_rtcm_byte p bs"

lemma rtcm_run_init_sim:
  "rtcm_held (fst (rtcm_run rtcm_parser_init bs)) = fst (feed_all rtcm_spec_step [] bs)"
  "snd (rtcm_run rtcm_parser_init bs) = snd (feed_all rtcm_spec_step [] bs)"
  using rtcm.run_held [of rtcm_parser_init bs] rtcm.run_events [of rtcm_parser_init bs]
  by (simp_all add: rtcm_run_def)

lemma rtcm_run_inv: "rtcm_parser_inv p \<Longrightarrow> rtcm_parser_inv (fst (rtcm_run p bs))"
  unfolding rtcm_run_def by (rule rtcm.run_inv)

lemma rtcm_run_sound:
  assumes "rtcm_parser_inv p" "e \<in> set (snd (rtcm_run p bs))" shows "rtcm_sound e"
proof -
  have len: "length (rtcm_held p) = rp_length p" by (rule rtcm_held_length [OF assms(1)])
  have ne: "rtcm_held p \<noteq> [] \<longleftrightarrow> 0 < rp_length p" using len by (metis length_greater_0_conv)
  have nth: "rtcm_held p ! i = rp_frame p ! i" if "i < rp_length p" for i
    using that by (simp add: rtcm_held_def)
  have "rtcm_payload_length (rtcm_held p) = rtcm_payload_length (rp_frame p)" if "3 \<le> rp_length p"
    using that by (intro rtcm_payload_length_cong [of "rp_length p"]) (auto simp: rtcm_held_def)
  then have "rtcm_prefix (rtcm_held p)"
    using assms(1) len ne nth [of 0] nth [of 1]
    by (auto simp: rtcm_prefix_def rtcm_parser_inv_def Suc_le_eq)
  then show ?thesis
    using rtcm_spec_run_sound [of "rtcm_held p" bs] assms rtcm.run_events [of p bs]
    by (auto simp: rtcm_run_def)
qed

text \<open>
  C1. Whatever bytes arrive on the receiver's data port, every frame the parser hands on
  starts with the preamble, has the length its header announces (at most 1029 bytes) and
  carries the CRC-24Q of its own bytes.
\<close>

theorem rtcm_published_valid:
  "RtcmFrame f \<in> set (snd (rtcm_run rtcm_parser_init bytes)) \<Longrightarrow> rtcm_valid f \<and> length f \<le> 1029"
  using rtcm_run_sound [of rtcm_parser_init "RtcmFrame f" bytes] rtcm_valid_length [of f]
  by (simp add: rtcm_sound_def)

lemma rtcm_published_valid_witness:
  "rtcm_valid (rtcm_encode [0x3E, 0xD0]) \<and> length (rtcm_encode [0x3E, 0xD0]) \<le> 1029"
proof (rule rtcm_published_valid)
  show "RtcmFrame (rtcm_encode [0x3E, 0xD0])
      \<in> set (snd (rtcm_run rtcm_parser_init (rtcm_encode [0x3E, 0xD0])))"
    by (simp add: rtcm_run_init_sim rtcm_spec_run_valid rtcm_encode_valid)
qed

text \<open>
  No byte stream makes the parser write outside its 1200-byte frame buffer: before every
  byte the write index is at most 1028 and the buffer still has its 1200 cells, so the
  \<open>rtcm_frame_expected_ > rtcm_frame_.size()\<close> branch is never needed.
\<close>

theorem rtcm_parser_in_bounds:
  "rp_length (fst (rtcm_run rtcm_parser_init bytes)) < 1029 \<and>
   length (rp_frame (fst (rtcm_run rtcm_parser_init bytes))) = kMaxRtcmFrame \<and>
   rp_expected (fst (rtcm_run rtcm_parser_init bytes)) \<le> 1029"
proof -
  let ?p = "fst (rtcm_run rtcm_parser_init bytes)"
  have inv: "rtcm_parser_inv ?p" by (rule rtcm_run_inv) simp
  then have "rp_expected ?p = 0 \<or> rp_expected ?p = rtcm_payload_length (rp_frame ?p) + 6"
    by (auto simp: rtcm_parser_inv_def not_less)
  then show ?thesis
    using inv rtcm_inv_length [OF inv] rtcm_payload_length_le [of "rp_frame ?p"]
    by (auto simp: rtcm_parser_inv_def)
qed

text \<open>
  C25. Round trip: a stream of encoded messages (payloads of at most 1023 bytes), with any
  line noise between them that contains no preamble byte, is published frame for frame, in
  order and with nothing else, and the parser is idle again at the end.
\<close>

theorem rtcm_stream_recovered:
  assumes "list_all (\<lambda>(noise, payload). 0xD3 \<notin> set noise \<and> length payload \<le> 1023) msgs"
  shows "snd (rtcm_run rtcm_parser_init (concat (map (\<lambda>(noise, payload). noise @ rtcm_encode payload) msgs)))
           = map (\<lambda>(noise, payload). RtcmFrame (rtcm_encode payload)) msgs \<and>
         rtcm_held (fst (rtcm_run rtcm_parser_init
           (concat (map (\<lambda>(noise, payload). noise @ rtcm_encode payload) msgs)))) = []"
proof -
  let ?gs = "map (\<lambda>(noise, payload). (noise, rtcm_encode payload)) msgs"
  have "list_all (\<lambda>(g, f). 0xD3 \<notin> set g \<and> rtcm_valid f) ?gs"
    using assms by (auto simp: list_all_iff rtcm_encode_valid)
  from rtcm_spec_run_stream [OF this]
  show ?thesis by (simp add: rtcm_run_init_sim o_def case_prod_unfold)
qed

lemma rtcm_stream_recovered_witness:
  "snd (rtcm_run rtcm_parser_init ([0, 1] @ rtcm_encode [0x3E, 0xD0] @ [0xFF] @ rtcm_encode [])) =
     [RtcmFrame (rtcm_encode [0x3E, 0xD0]), RtcmFrame (rtcm_encode [])]"
  using rtcm_stream_recovered [of "[([0, 1], [0x3E, 0xD0]), ([0xFF], [])]"] by simp

text \<open>
  C26. A valid frame whose payload or checksum is damaged in one byte is dropped, and only that
  frame: in a stream of encoded messages with line noise between them, a damaged frame anywhere
  is answered by one report of a bad CRC in its place, nothing of it is published, and every
  message before and after it is published as if it had not been there.
\<close>

theorem rtcm_corrupted_frame_dropped:
  assumes "rtcm_valid f" and "3 \<le> i" and "i < length f" and "v \<noteq> f ! i"
    and "list_all (\<lambda>(noise, payload). 0xD3 \<notin> set noise \<and> length payload \<le> 1023) (before @ after)"
    and "0xD3 \<notin> set junk"
  shows "let stream = (\<lambda>msgs. concat (map (\<lambda>(noise, payload). noise @ rtcm_encode payload) msgs));
             frames = map (\<lambda>(noise, payload). RtcmFrame (rtcm_encode payload));
             r = rtcm_run rtcm_parser_init (stream before @ junk @ f[i := v] @ stream after)
         in snd r = frames before @ [RtcmBadCrc] @ frames after \<and> rtcm_held (fst r) = []"
proof -
  let ?gs = "\<lambda>msgs. map (\<lambda>(noise, payload). (noise, rtcm_encode payload)) msgs"
  have ok: "list_all (\<lambda>(g, f). 0xD3 \<notin> set g \<and> rtcm_valid f) (?gs before)"
    "list_all (\<lambda>(g, f). 0xD3 \<notin> set g \<and> rtcm_valid f) (?gs after)"
    using assms(5) by (force simp: list_all_iff rtcm_encode_valid)+
  have bad: "feed_all rtcm_spec_step [] (f[i := v]) = ([], [RtcmBadCrc])"
    using rtcm_spec_run_framed [OF rtcm_corrupt_crc(1) [OF assms(1-4)]] rtcm_corrupt_crc(2) [OF assms(1-4)] by simp
  show ?thesis
    using rtcm_spec_run_stream [OF ok(1)] rtcm_spec_run_stream [OF ok(2)] bad rtcm_spec_run_noise [OF assms(6)]
    by (simp add: rtcm_run_init_sim feed_all_append Let_def o_def case_prod_unfold)
qed

lemma rtcm_corrupted_frame_dropped_witness:
  "snd (rtcm_run rtcm_parser_init ((rtcm_encode [7, 7])[4 := 8] @ rtcm_encode [1])) = [RtcmBadCrc, RtcmFrame (rtcm_encode [1])]"
proof -
  have "(8 :: u8) \<noteq> rtcm_encode [7, 7] ! 4" by (simp add: rtcm_encode_def Let_def)
  then show ?thesis
    using rtcm_corrupted_frame_dropped [of "rtcm_encode [7, 7]" 4 8 "[]" "[([], [1])]" "[]"] rtcm_encode_valid [of "[7, 7]"]
    by (simp add: Let_def)
qed

text \<open>The message number is the payload's first twelve bits.\<close>

lemma rtcm_message_number_less: "rtcm_message_number d < 4096"
proof -
  have "rtcm_message_number d < 2 ^ 12"
  proof (subst word_less_2p_iff_bits)
    show "\<forall>i\<ge>12. \<not> bit (rtcm_message_number d) i"
      by (auto simp: rtcm_message_number_def bit_or_iff bit_push_bit_iff bit_ucast_iff bit_drop_bit_eq
          dest: bit_imp_le_length)
  qed simp
  then show ?thesis by simp
qed

end
