(* ===== verification/RtcmBatch.thy ===== *)
theory RtcmBatch
  imports RtcmFrame
begin

text \<open>
  The batch buffer of the local caster (\<open>RtcmBatch\<close> in \<open>main/base_station.hpp\<close>;
  \<open>flush_batch_frames\<close>, \<open>publish_to_batch\<close>, \<open>flush_due_batch\<close> in
  \<open>main/base_station.cpp\<close>): frames are concatenated in one array with their end offsets
  and written out one frame per call, at a 200 ms cadence or when the array is full.

  The callback \<open>flush\<close> is a parameter: it takes the state of whatever it writes to and the
  bytes of one write. The abstract view of a batch is the list of frames it holds.
\<close>

subsection \<open>State and operations\<close>

definition kRtcmBatchUs :: time_us where "kRtcmBatchUs = 200000"
definition kRtcmStaggerUs :: time_us where "kRtcmStaggerUs = kRtcmBatchUs div 4"
definition kMaxFramesPerBatch :: nat where "kMaxFramesPerBatch = 12"

record rtcm_batch =
  rb_data :: "u8 list"
  rb_length :: nat
  rb_next_flush_us :: time_us
  rb_frame_ends :: "nat list"
  rb_frame_count :: nat

definition rtcm_batch_init :: rtcm_batch where
  "rtcm_batch_init = \<lparr>rb_data = replicate kMaxRtcmFrame 0, rb_length = 0, rb_next_flush_us = 0,
     rb_frame_ends = replicate kMaxFramesPerBatch 0, rb_frame_count = 0\<rparr>"

text \<open>The loop of \<open>flush_batch_frames\<close>, from frame \<open>i\<close> at offset \<open>start\<close>.\<close>

function flush_loop :: "('w \<Rightarrow> u8 list \<Rightarrow> 'w) \<Rightarrow> rtcm_batch \<Rightarrow> nat \<Rightarrow> nat \<Rightarrow> 'w \<Rightarrow> 'w" where
  "flush_loop flush b i start w =
     (if i < rb_frame_count b then
        let e = rb_frame_ends b ! i in
        flush_loop flush b (Suc i) e (flush w (take (e - start) (drop start (rb_data b))))
      else w)"
  by pat_completeness auto
termination
  by (relation "measure (\<lambda>(flush, b, i, start, w). rb_frame_count b - i)") auto

declare flush_loop.simps [simp del]

definition flush_batch_frames ::
    "('w \<Rightarrow> u8 list \<Rightarrow> 'w) \<Rightarrow> rtcm_batch \<Rightarrow> 'w \<Rightarrow> rtcm_batch \<times> 'w" where
  "flush_batch_frames flush b w =
     (b\<lparr>rb_length := 0, rb_frame_count := 0\<rparr>, flush_loop flush b 0 0 w)"

definition publish_to_batch ::
    "('w \<Rightarrow> u8 list \<Rightarrow> 'w) \<Rightarrow> rtcm_batch \<Rightarrow> u8 list \<Rightarrow> time_us \<Rightarrow> time_us \<Rightarrow> 'w \<Rightarrow> rtcm_batch \<times> 'w" where
  "publish_to_batch flush b d now phase_offset_us w =
     (let bytes_full = 0 < rb_length b \<and> length (rb_data b) < rb_length b + length d;
          frames_full = length (rb_frame_ends b) \<le> rb_frame_count b;
          (b, w) = (if bytes_full \<or> frames_full
                    then let (b, w) = flush_batch_frames flush b w
                         in (b\<lparr>rb_next_flush_us := now + kRtcmBatchUs\<rparr>, w)
                    else (b, w));
          b = b\<lparr>rb_data := copy_at (rb_data b) (rb_length b) d,
                rb_length := rb_length b + length d\<rparr>;
          b = b\<lparr>rb_frame_ends := (rb_frame_ends b)[rb_frame_count b := rb_length b],
                rb_frame_count := rb_frame_count b + 1\<rparr>;
          b = (if rb_next_flush_us b = 0
               then b\<lparr>rb_next_flush_us := now + phase_offset_us + kRtcmBatchUs\<rparr> else b)
      in if rb_next_flush_us b \<le> now
         then let (b, w) = flush_batch_frames flush b w
              in (b\<lparr>rb_next_flush_us := now + kRtcmBatchUs\<rparr>, w)
         else (b, w))"

definition flush_due_batch ::
    "('w \<Rightarrow> u8 list \<Rightarrow> 'w) \<Rightarrow> rtcm_batch \<Rightarrow> time_us \<Rightarrow> 'w \<Rightarrow> rtcm_batch \<times> 'w" where
  "flush_due_batch flush b now w =
     (if 0 < rb_length b \<and> rb_next_flush_us b \<noteq> 0 \<and> rb_next_flush_us b \<le> now
      then let (b, w) = flush_batch_frames flush b w
           in (b\<lparr>rb_next_flush_us := now + kRtcmBatchUs\<rparr>, w)
      else (b, w))"

text \<open>The local batch's part of \<open>reset_rtcm_state\<close>.\<close>

definition reset_batch :: "rtcm_batch \<Rightarrow> rtcm_batch" where
  "reset_batch b = b\<lparr>rb_length := 0, rb_frame_count := 0, rb_next_flush_us := 0\<rparr>"

subsection \<open>Invariant and abstraction\<close>

fun frames_from :: "u8 list \<Rightarrow> nat \<Rightarrow> nat list \<Rightarrow> u8 list list" where
  "frames_from d s [] = []"
| "frames_from d s (e # es) = take (e - s) (drop s d) # frames_from d e es"

definition batch_ends :: "rtcm_batch \<Rightarrow> nat list" where
  "batch_ends b = take (rb_frame_count b) (rb_frame_ends b)"

definition batch_frames :: "rtcm_batch \<Rightarrow> u8 list list" where
  "batch_frames b = frames_from (rb_data b) 0 (batch_ends b)"

definition batch_inv :: "rtcm_batch \<Rightarrow> bool" where
  "batch_inv b \<longleftrightarrow>
     length (rb_data b) = kMaxRtcmFrame \<and> length (rb_frame_ends b) = kMaxFramesPerBatch \<and>
     rb_frame_count b \<le> kMaxFramesPerBatch \<and> rb_length b \<le> kMaxRtcmFrame \<and>
     sorted_wrt (<) (0 # batch_ends b) \<and> last (0 # batch_ends b) = rb_length b"

lemma length_batch_ends: "batch_inv b \<Longrightarrow> length (batch_ends b) = rb_frame_count b"
  by (simp add: batch_inv_def batch_ends_def)

lemma length_frames_from [simp]: "length (frames_from d s es) = length es"
  by (induction es arbitrary: s) auto

lemma length_batch_frames: "batch_inv b \<Longrightarrow> length (batch_frames b) = rb_frame_count b"
  by (simp add: batch_frames_def length_batch_ends)

lemma frames_from_cong:
  "sorted_wrt (<) (s # es) \<Longrightarrow> take (last (s # es)) d = take (last (s # es)) d' \<Longrightarrow>
   frames_from d s es = frames_from d' s es"
proof (induction es arbitrary: s)
  case Nil
  then show ?case by simp
next
  case (Cons e es)
  have le: "e \<le> last (e # es)"
    using Cons.prems(1) by (cases es rule: rev_cases) (auto simp: sorted_wrt_append)
  have "take e d = take e d'"
    using Cons.prems(2) le by (metis last_ConsR list.distinct(1) min.absorb1 take_take)
  then have "take (e - s) (drop s d) = take (e - s) (drop s d')"
    by (metis drop_take)
  with Cons show ?case by auto
qed

lemma frames_from_append:
  "frames_from d s (es @ [e]) = frames_from d s es @ [take (e - last (s # es)) (drop (last (s # es)) d)]"
  by (induction es arbitrary: s) auto

lemma sum_frames_from:
  "sorted_wrt (<) (s # es) \<Longrightarrow> last (s # es) \<le> length d \<Longrightarrow>
   sum_list (map length (frames_from d s es)) = last (s # es) - s"
proof (induction es arbitrary: s)
  case Nil
  then show ?case by simp
next
  case (Cons e es)
  have le: "e \<le> last (e # es)"
    using Cons.prems(1) by (cases es rule: rev_cases) (auto simp: sorted_wrt_append)
  have "s < e" using Cons.prems(1) by simp
  have IH: "sum_list (map length (frames_from d e es)) = last (e # es) - e"
    using Cons by auto
  show ?case using le \<open>s < e\<close> Cons.prems(2) IH by simp
qed

lemma batch_length_sum: "batch_inv b \<Longrightarrow> sum_list (map length (batch_frames b)) = rb_length b"
  using sum_frames_from [of 0 "batch_ends b" "rb_data b"]
  by (simp add: batch_inv_def batch_frames_def)

lemma batch_empty_iff: "batch_inv b \<Longrightarrow> rb_length b = 0 \<longleftrightarrow> batch_frames b = []"
proof -
  assume inv: "batch_inv b"
  show ?thesis
  proof (cases "batch_ends b" rule: rev_cases)
    case Nil
    then show ?thesis using inv by (simp add: batch_frames_def batch_inv_def)
  next
    case (snoc es e)
    then have "0 < e" using inv by (auto simp: batch_inv_def sorted_wrt_append)
    then show ?thesis using inv snoc by (auto simp: batch_frames_def batch_inv_def frames_from_append)
  qed
qed

lemma batch_inv_init [simp]: "batch_inv rtcm_batch_init"
  by (simp add: batch_inv_def rtcm_batch_init_def batch_ends_def kMaxFramesPerBatch_def)

lemma batch_frames_init [simp]: "batch_frames rtcm_batch_init = []"
  by (simp add: batch_frames_def rtcm_batch_init_def batch_ends_def)

lemma batch_reset: "batch_inv b \<Longrightarrow> batch_inv (reset_batch b) \<and> batch_frames (reset_batch b) = []"
  by (simp add: batch_inv_def reset_batch_def batch_ends_def batch_frames_def)

text \<open>The loop writes the batch's frames, one call each.\<close>

lemma flush_loop_from:
  assumes "rb_frame_count b \<le> length (rb_frame_ends b)"
  shows "flush_loop flush b i s w = foldl flush w (frames_from (rb_data b) s (drop i (batch_ends b)))"
  using assms
proof (induction "rb_frame_count b - i" arbitrary: i s w)
  case 0
  then show ?case by (subst flush_loop.simps) (simp add: batch_ends_def)
next
  case (Suc n)
  then have i: "i < rb_frame_count b" by simp
  have "drop i (batch_ends b) = rb_frame_ends b ! i # drop (Suc i) (batch_ends b)"
    using i Suc.prems by (simp add: batch_ends_def Cons_nth_drop_Suc [symmetric])
  then show ?case using i Suc by (subst flush_loop.simps) (simp add: Let_def)
qed

lemma flush_batch_frames_eq:
  "batch_inv b \<Longrightarrow> flush_batch_frames flush b w =
     (b\<lparr>rb_length := 0, rb_frame_count := 0\<rparr>, foldl flush w (batch_frames b))"
  by (simp add: flush_batch_frames_def batch_inv_def batch_frames_def flush_loop_from)

lemma frames_from_nonempty:
  "sorted_wrt (<) (s # es) \<Longrightarrow> \<forall>e \<in> set es. e \<le> length d \<Longrightarrow> f \<in> set (frames_from d s es) \<Longrightarrow> f \<noteq> []"
  by (induction es arbitrary: s) auto

lemma sorted_last: "sorted_wrt (<) (xs :: nat list) \<Longrightarrow> e \<in> set xs \<Longrightarrow> e \<le> last xs"
  by (induction xs rule: rev_induct) (auto simp: sorted_wrt_append less_imp_le)

lemma batch_frames_nonempty:
  assumes "batch_inv b" "f \<in> set (batch_frames b)" shows "f \<noteq> []"
proof -
  have "e \<le> rb_length b" if "e \<in> set (batch_ends b)" for e
    using sorted_last [of "0 # batch_ends b" e] that assms(1) by (simp add: batch_inv_def)
  then have "\<forall>e \<in> set (batch_ends b). e \<le> length (rb_data b)"
    using assms(1) by (fastforce simp: batch_inv_def)
  then show ?thesis
    using frames_from_nonempty [of 0 "batch_ends b" "rb_data b" f] assms
    by (simp add: batch_inv_def batch_frames_def)
qed

lemma batch_inv_emptied:
  "batch_inv b \<Longrightarrow> batch_inv (b\<lparr>rb_length := 0, rb_frame_count := 0, rb_next_flush_us := t\<rparr>) \<and>
     batch_frames (b\<lparr>rb_length := 0, rb_frame_count := 0, rb_next_flush_us := t\<rparr>) = []"
  by (simp add: batch_inv_def batch_ends_def batch_frames_def)

subsection \<open>The specification: a queue of whole frames\<close>

type_synonym batch_view = "u8 list list \<times> time_us"

definition batch_view :: "rtcm_batch \<Rightarrow> batch_view" where
  "batch_view b = (batch_frames b, rb_next_flush_us b)"

definition spec_publish ::
    "batch_view \<Rightarrow> u8 list \<Rightarrow> time_us \<Rightarrow> time_us \<Rightarrow> batch_view \<times> u8 list list" where
  "spec_publish v d now phase =
     (let (fs, next) = v;
          full = (fs \<noteq> [] \<and> kMaxRtcmFrame < sum_list (map length fs) + length d) \<or>
                 kMaxFramesPerBatch \<le> length fs;
          out1 = (if full then fs else []);
          fs = (if full then [] else fs) @ [d];
          next = (if full then now + kRtcmBatchUs else next);
          next = (if next = 0 then now + phase + kRtcmBatchUs else next)
      in if next \<le> now then (([], now + kRtcmBatchUs), out1 @ fs) else ((fs, next), out1))"

definition spec_poll :: "batch_view \<Rightarrow> time_us \<Rightarrow> batch_view \<times> u8 list list" where
  "spec_poll v now =
     (if fst v \<noteq> [] \<and> snd v \<noteq> 0 \<and> snd v \<le> now then (([], now + kRtcmBatchUs), fst v) else (v, []))"

text \<open>Appending a frame that fits.\<close>

definition batch_append :: "rtcm_batch \<Rightarrow> u8 list \<Rightarrow> rtcm_batch" where
  "batch_append b d =
     (let b = b\<lparr>rb_data := copy_at (rb_data b) (rb_length b) d, rb_length := rb_length b + length d\<rparr>
      in b\<lparr>rb_frame_ends := (rb_frame_ends b)[rb_frame_count b := rb_length b],
           rb_frame_count := rb_frame_count b + 1\<rparr>)"

lemma batch_append:
  assumes inv: "batch_inv b" and d: "d \<noteq> []"
    and fits: "rb_length b + length d \<le> kMaxRtcmFrame" "rb_frame_count b < kMaxFramesPerBatch"
  shows "batch_inv (batch_append b d)" "batch_frames (batch_append b d) = batch_frames b @ [d]"
    "rb_next_flush_us (batch_append b d) = rb_next_flush_us b"
proof -
  let ?b = "batch_append b d"
  have len: "length (rb_data b) = kMaxRtcmFrame" "length (rb_frame_ends b) = kMaxFramesPerBatch"
    and srt: "sorted_wrt (<) (0 # batch_ends b)" and lst: "last (0 # batch_ends b) = rb_length b"
    using inv by (simp_all add: batch_inv_def)
  have ends: "batch_ends ?b = batch_ends b @ [rb_length b + length d]"
    using fits(2) len
    by (simp add: batch_append_def batch_ends_def Let_def take_list_update_Suc)
  have below: "x \<le> rb_length b" if "x \<in> set (0 # batch_ends b)" for x
    using that srt lst
    by (cases "0 # batch_ends b" rule: rev_cases) (auto simp: sorted_wrt_append)
  have less: "x < rb_length b + length d" if "x \<in> set (0 # batch_ends b)" for x
    using below [OF that] d by (cases d) auto
  then have "sorted_wrt (<) (0 # batch_ends ?b)"
    using srt less [of 0] by (auto simp: ends sorted_wrt_append)
  moreover have "last (0 # batch_ends ?b) = rb_length ?b"
    by (simp add: ends) (simp add: batch_append_def Let_def)
  ultimately show "batch_inv ?b"
    using len fits by (simp add: batch_inv_def) (simp add: batch_append_def Let_def kMaxRtcmFrame_def kMaxFramesPerBatch_def)
  have data: "rb_data ?b = copy_at (rb_data b) (rb_length b) d"
    by (simp add: batch_append_def Let_def)
  have old: "frames_from (rb_data ?b) 0 (batch_ends b) = batch_frames b"
    unfolding batch_frames_def using srt lst fits len
    by (intro frames_from_cong) (simp_all add: data)
  have new: "take (length d) (drop (rb_length b) (rb_data ?b)) = d"
    using fits len by (simp add: data copy_at_def)
  show "batch_frames ?b = batch_frames b @ [d]"
    using old new lst by (simp add: batch_frames_def ends frames_from_append)
  show "rb_next_flush_us ?b = rb_next_flush_us b"
    by (simp add: batch_append_def Let_def)
qed

lemma batch_next_irrelevant [simp]:
  "batch_inv (b\<lparr>rb_next_flush_us := t\<rparr>) = batch_inv b"
  "batch_frames (b\<lparr>rb_next_flush_us := t\<rparr>) = batch_frames b"
  by (simp_all add: batch_inv_def batch_frames_def batch_ends_def)

lemma publish_to_batch_unfold:
  assumes inv: "batch_inv b"
    and full_eq: "full \<longleftrightarrow> (0 < rb_length b \<and> kMaxRtcmFrame < rb_length b + length d) \<or>
                   kMaxFramesPerBatch \<le> rb_frame_count b"
  shows "publish_to_batch flush b d now phase w =
    (let b1 = (if full then b\<lparr>rb_length := 0, rb_frame_count := 0, rb_next_flush_us := now + kRtcmBatchUs\<rparr> else b);
         w1 = (if full then foldl flush w (batch_frames b) else w);
         b2 = batch_append b1 d;
         b3 = (if rb_next_flush_us b2 = 0 then b2\<lparr>rb_next_flush_us := now + phase + kRtcmBatchUs\<rparr> else b2)
     in if rb_next_flush_us b3 \<le> now
        then let (b, w) = flush_batch_frames flush b3 w1 in (b\<lparr>rb_next_flush_us := now + kRtcmBatchUs\<rparr>, w)
        else (b3, w1))"
proof -
  have len: "length (rb_data b) = kMaxRtcmFrame" "length (rb_frame_ends b) = kMaxFramesPerBatch"
    using inv by (simp_all add: batch_inv_def)
  show ?thesis
    unfolding publish_to_batch_def Let_def flush_batch_frames_eq [OF inv] len batch_append_def full_eq [symmetric]
    by (cases full) simp_all
qed

lemma publish_refines:
  assumes inv: "batch_inv b" and d: "d \<noteq> []" "length d \<le> kMaxRtcmFrame"
  shows "batch_inv (fst (publish_to_batch flush b d now phase w)) \<and>
    (let (v, out) = spec_publish (batch_view b) d now phase in
     batch_view (fst (publish_to_batch flush b d now phase w)) = v \<and>
     snd (publish_to_batch flush b d now phase w) = foldl flush w out)"
proof -
  define full where "full \<longleftrightarrow> (0 < rb_length b \<and> kMaxRtcmFrame < rb_length b + length d) \<or>
                   kMaxFramesPerBatch \<le> rb_frame_count b"
  define b1 where "b1 = (if full then b\<lparr>rb_length := 0, rb_frame_count := 0, rb_next_flush_us := now + kRtcmBatchUs\<rparr> else b)"
  define w1 where "w1 = (if full then foldl flush w (batch_frames b) else w)"
  define b2 where "b2 = batch_append b1 d"
  define b3 where "b3 = (if rb_next_flush_us b2 = 0 then b2\<lparr>rb_next_flush_us := now + phase + kRtcmBatchUs\<rparr> else b2)"
  have full_view: "full \<longleftrightarrow> (batch_frames b \<noteq> [] \<and> kMaxRtcmFrame < sum_list (map length (batch_frames b)) + length d) \<or>
      kMaxFramesPerBatch \<le> length (batch_frames b)"
    using batch_empty_iff [OF inv] batch_length_sum [OF inv] length_batch_frames [OF inv]
    by (auto simp: full_def)
  have b1: "batch_inv b1" "batch_frames b1 = (if full then [] else batch_frames b)"
    "rb_next_flush_us b1 = (if full then now + kRtcmBatchUs else rb_next_flush_us b)"
    "rb_length b1 + length d \<le> kMaxRtcmFrame" "rb_frame_count b1 < kMaxFramesPerBatch"
    using inv batch_inv_emptied [OF inv, of "now + kRtcmBatchUs"] d
    by (auto simp: b1_def full_def not_less kMaxFramesPerBatch_def)
  note b2 = batch_append [OF b1(1) d(1) b1(4,5), folded b2_def]
  have b3: "batch_inv b3" "batch_frames b3 = batch_frames b1 @ [d]"
    "rb_next_flush_us b3 = (if rb_next_flush_us b1 = 0 then now + phase + kRtcmBatchUs else rb_next_flush_us b1)"
    using b2 by (simp_all add: b3_def)
  have unf: "publish_to_batch flush b d now phase w =
      (if rb_next_flush_us b3 \<le> now
       then let (b, w) = flush_batch_frames flush b3 w1 in (b\<lparr>rb_next_flush_us := now + kRtcmBatchUs\<rparr>, w)
       else (b3, w1))"
    unfolding publish_to_batch_unfold [OF inv full_def] Let_def
      b1_def [symmetric] w1_def [symmetric] b2_def [symmetric] b3_def [symmetric] ..
  show ?thesis
  proof (cases "rb_next_flush_us b3 \<le> now")
    case True
    then show ?thesis
      using b1(2,3) b3 batch_inv_emptied [OF b3(1), of "now + kRtcmBatchUs"] full_view
      unfolding unf flush_batch_frames_eq [OF b3(1)]
      by (auto simp: spec_publish_def batch_view_def Let_def w1_def)
  next
    case False
    then show ?thesis using b1(2,3) b3 full_view
      unfolding unf by (auto simp: spec_publish_def batch_view_def Let_def w1_def)
  qed
qed

lemma poll_refines:
  assumes inv: "batch_inv b"
  shows "batch_inv (fst (flush_due_batch flush b now w)) \<and>
    (let (v, out) = spec_poll (batch_view b) now in
     batch_view (fst (flush_due_batch flush b now w)) = v \<and>
     snd (flush_due_batch flush b now w) = foldl flush w out)"
  using batch_empty_iff [OF inv] batch_inv_emptied [OF inv, of "now + kRtcmBatchUs"] inv
  by (auto simp: flush_due_batch_def flush_batch_frames_eq [OF inv] spec_poll_def batch_view_def Let_def)

subsection \<open>Runs\<close>

datatype batch_op = Publish "u8 list" time_us | Poll time_us

text \<open>The local caster's batch is published with phase offset 0.\<close>

fun batch_step :: "('w \<Rightarrow> u8 list \<Rightarrow> 'w) \<Rightarrow> rtcm_batch \<Rightarrow> batch_op \<Rightarrow> 'w \<Rightarrow> rtcm_batch \<times> 'w" where
  "batch_step flush b (Publish d now) w = publish_to_batch flush b d now 0 w"
| "batch_step flush b (Poll now) w = flush_due_batch flush b now w"

fun batch_run :: "('w \<Rightarrow> u8 list \<Rightarrow> 'w) \<Rightarrow> rtcm_batch \<Rightarrow> batch_op list \<Rightarrow> 'w \<Rightarrow> rtcm_batch \<times> 'w" where
  "batch_run flush b [] w = (b, w)"
| "batch_run flush b (op # ops) w =
     (let (b, w) = batch_step flush b op w in batch_run flush b ops w)"

fun spec_op :: "batch_view \<Rightarrow> batch_op \<Rightarrow> batch_view \<times> u8 list list" where
  "spec_op v (Publish d now) = spec_publish v d now 0"
| "spec_op v (Poll now) = spec_poll v now"

fun published :: "batch_op list \<Rightarrow> u8 list list" where
  "published [] = []"
| "published (Publish d now # ops) = d # published ops"
| "published (Poll now # ops) = published ops"

fun op_time :: "batch_op \<Rightarrow> time_us" where
  "op_time (Publish d now) = now"
| "op_time (Poll now) = now"

definition publishable :: "batch_op list \<Rightarrow> bool" where
  "publishable ops \<longleftrightarrow> (\<forall>d \<in> set (published ops). d \<noteq> [] \<and> length d \<le> kMaxRtcmFrame)"

lemma publishable_simps [simp]:
  "publishable []"
  "publishable (Publish d now # ops) \<longleftrightarrow> d \<noteq> [] \<and> length d \<le> kMaxRtcmFrame \<and> publishable ops"
  "publishable (Poll now # ops) = publishable ops"
  by (auto simp: publishable_def)

lemma spec_publish_conserves:
  "spec_publish v d now phase = (v', out) \<Longrightarrow> out @ fst v' = fst v @ [d]"
  by (auto simp: spec_publish_def Let_def split: prod.splits if_splits)

lemma spec_poll_conserves: "spec_poll v now = (v', out) \<Longrightarrow> out @ fst v' = fst v"
  by (auto simp: spec_poll_def split: if_splits)

lemma batch_step_refines:
  assumes "batch_inv b" "publishable [op]"
  obtains b' w' v out where "batch_step flush b op w = (b', w')" "spec_op (batch_view b) op = (v, out)"
    "batch_inv b'" "batch_view b' = v" "w' = foldl flush w out"
proof -
  have "batch_inv (fst (batch_step flush b op w)) \<and>
    batch_view (fst (batch_step flush b op w)) = fst (spec_op (batch_view b) op) \<and>
    snd (batch_step flush b op w) = foldl flush w (snd (spec_op (batch_view b) op))"
    using assms publish_refines [of b _ flush _ 0 w] poll_refines [of b flush _ w]
    by (cases op) (simp_all add: case_prod_beta)
  then show ?thesis using that by (metis prod.collapse)
qed

lemma spec_op_conserves: "spec_op v op = (v', out) \<Longrightarrow> out @ fst v' = fst v @ published [op]"
  by (cases op) (auto dest: spec_publish_conserves spec_poll_conserves)

lemma published_Cons: "published (op # ops) = published [op] @ published ops"
  by (cases op) auto

lemma publishable_Cons: "publishable (op # ops) \<longleftrightarrow> publishable [op] \<and> publishable ops"
  by (cases op) auto

lemma batch_run_conserves:
  "batch_inv b \<Longrightarrow> publishable ops \<Longrightarrow>
   \<exists>out. snd (batch_run flush b ops w) = foldl flush w out \<and>
     out @ batch_frames (fst (batch_run flush b ops w)) = batch_frames b @ published ops \<and>
     batch_inv (fst (batch_run flush b ops w))"
proof (induction ops arbitrary: b w)
  case Nil
  then show ?case by (intro exI [of _ "[]"]) simp
next
  case (Cons op ops)
  have ok: "publishable [op]" "publishable ops"
    using Cons.prems(2) publishable_Cons by blast+
  obtain b' w' v out1 where st: "batch_step flush b op w = (b', w')" "spec_op (batch_view b) op = (v, out1)"
    "batch_inv b'" "batch_view b' = v" "w' = foldl flush w out1"
    by (rule batch_step_refines [OF Cons.prems(1) ok(1)])
  have cons: "out1 @ batch_frames b' = batch_frames b @ published [op]"
    using spec_op_conserves [OF st(2)] st(4) by (auto simp: batch_view_def)
  obtain out2 where "snd (batch_run flush b' ops w') = foldl flush w' out2"
    "out2 @ batch_frames (fst (batch_run flush b' ops w')) = batch_frames b' @ published ops"
    "batch_inv (fst (batch_run flush b' ops w'))"
    using Cons.IH [OF st(3) ok(2), of w'] by blast
  note run = this
  have "(out1 @ out2) @ batch_frames (fst (batch_run flush b' ops w')) = (batch_frames b @ published [op]) @ published ops"
    unfolding append.assoc run(2) cons [symmetric, unfolded append.assoc] by simp
  then show ?case using run st
    by (intro exI [of _ "out1 @ out2"]) (simp add: published_Cons [of op ops] del: published.simps)
qed

text \<open>The deadline of a pending batch is at most one period ahead.\<close>

definition armed_by :: "time_us \<Rightarrow> time_us \<Rightarrow> bool" where
  "armed_by T next \<longleftrightarrow> 0 \<le> next \<and> next \<le> T + kRtcmBatchUs"

definition armed_view :: "time_us \<Rightarrow> batch_view \<Rightarrow> bool" where
  "armed_view T v \<longleftrightarrow> armed_by T (snd v) \<and> (fst v \<noteq> [] \<longrightarrow> snd v \<noteq> 0)"

lemma spec_op_armed:
  assumes "armed_view T v" "T \<le> op_time op" "0 \<le> T" "spec_op v op = (v', out)"
  shows "armed_view (op_time op) v'"
  using assms
  by (cases op)
    (auto simp: spec_publish_def spec_poll_def Let_def armed_view_def armed_by_def kRtcmBatchUs_def
      split: prod.splits if_splits)

lemma batch_run_armed:
  "batch_inv b \<Longrightarrow> publishable ops \<Longrightarrow> armed_view T (batch_view b) \<Longrightarrow> 0 \<le> T \<Longrightarrow>
   sorted (T # map op_time ops @ [T']) \<Longrightarrow> armed_view T' (batch_view (fst (batch_run flush b ops w)))"
proof (induction ops arbitrary: b w T)
  case Nil
  then show ?case by (auto simp: armed_view_def armed_by_def)
next
  case (Cons op ops)
  have ok: "publishable [op]" "publishable ops"
    using Cons.prems(2) publishable_Cons by blast+
  obtain b' w' v out1 where st: "batch_step flush b op w = (b', w')" "spec_op (batch_view b) op = (v, out1)"
    "batch_inv b'" "batch_view b' = v" "w' = foldl flush w out1"
    by (rule batch_step_refines [OF Cons.prems(1) ok(1)])
  have "armed_view (op_time op) (batch_view b')"
    using spec_op_armed [OF Cons.prems(3) _ Cons.prems(4) st(2)] Cons.prems(5) st(4) by simp
  then have "armed_view T' (batch_view (fst (batch_run flush b' ops w')))"
    using Cons.prems(4,5) by (intro Cons.IH [OF st(3) ok(2), where T = "op_time op"]) auto
  then show ?case using st(1) by simp
qed

lemma batch_run_append:
  "batch_run flush b (xs @ ys) w = (let (b, w) = batch_run flush b xs w in batch_run flush b ys w)"
  by (induction xs arbitrary: b w) (auto simp: Let_def split: prod.splits)

subsection \<open>Properties\<close>

text \<open>
  C5. The batch never loses, duplicates, reorders or tears a frame: after any interleaving of
  publications (non-empty frames of at most 1200 bytes) and cadence polls, the writes made
  so far, each one whole frame, followed by the frames still held, are exactly the published
  frames in order.
\<close>

theorem batch_writes_whole_frames_in_order:
  assumes "publishable ops"
  shows "\<exists>writes. snd (batch_run flush rtcm_batch_init ops w) = foldl flush w writes \<and>
    writes @ batch_frames (fst (batch_run flush rtcm_batch_init ops w)) = published ops"
  using batch_run_conserves [OF batch_inv_init assms, of flush w] by auto

lemma batch_writes_whole_frames_in_order_witness:
  "\<exists>writes. snd (batch_run (\<lambda>w d. w @ [d]) rtcm_batch_init
        [Publish [1, 2] 10, Publish [3] 20, Poll 300000] []) = foldl (\<lambda>w d. w @ [d]) [] writes \<and>
    writes @ batch_frames (fst (batch_run (\<lambda>w d. w @ [d]) rtcm_batch_init
        [Publish [1, 2] 10, Publish [3] 20, Poll 300000] [])) = [[1, 2], [3]]"
  using batch_writes_whole_frames_in_order [of "[Publish [1, 2] 10, Publish [3] 20, Poll 300000]"]
  by (simp add: kMaxRtcmFrame_def)

text \<open>
  No publication writes outside the batch arrays: after any run the cursor is at most
  1200, at most 12 frames are held, the recorded ends are strictly increasing and end at the
  cursor, and the arrays keep their sizes.
\<close>

theorem batch_in_bounds:
  assumes "publishable ops"
  shows "batch_inv (fst (batch_run flush rtcm_batch_init ops w))"
  using batch_run_conserves [OF batch_inv_init assms, of flush w] by auto

lemma batch_in_bounds_witness:
  "batch_inv (fst (batch_run (\<lambda>w d. w @ [d]) rtcm_batch_init [Publish [1, 2] 10, Poll 300000] []))"
  by (rule batch_in_bounds) (simp add: kMaxRtcmFrame_def)

text \<open>
  C28. Cadence: with a clock that does not go back, the first poll 200 ms or more after the
  last publication leaves the batch empty, so no frame waits longer than one period.
\<close>

theorem batch_flushed_within_period:
  assumes "publishable ops" and "sorted (0 # map op_time ops @ [now])"
    and "\<forall>t \<in> set (map op_time ops). t + kRtcmBatchUs \<le> now"
  shows "batch_frames (fst (batch_run flush rtcm_batch_init (ops @ [Poll now]) w)) = []"
proof (cases "ops = []")
  case True
  then show ?thesis by (simp add: flush_due_batch_def rtcm_batch_init_def batch_frames_def batch_ends_def)
next
  case False
  let ?r = "batch_run flush rtcm_batch_init ops w"
  define T where "T = last (map op_time ops)"
  have T: "T + kRtcmBatchUs \<le> now" using assms(3) False by (simp add: T_def last_map)
  have srt: "sorted (0 # map op_time ops @ [T])"
    using assms(2) False by (cases ops rule: rev_cases) (auto simp: T_def sorted_append)
  have inv: "batch_inv (fst ?r)"
    using batch_run_conserves [OF batch_inv_init assms(1), of flush w] by blast
  have start: "armed_view 0 (batch_view rtcm_batch_init)"
    by (simp add: armed_view_def armed_by_def batch_view_def kRtcmBatchUs_def)
       (simp add: rtcm_batch_init_def)
  have armed: "armed_view T (batch_view (fst ?r))"
    by (rule batch_run_armed [OF batch_inv_init assms(1) start _ srt]) simp
  have "fst (fst (spec_poll (batch_view (fst ?r)) now)) = []"
    using armed T by (auto simp: spec_poll_def batch_view_def armed_view_def armed_by_def)
  moreover have "batch_view (fst (flush_due_batch flush (fst ?r) now (snd ?r)))
      = fst (spec_poll (batch_view (fst ?r)) now)"
    using poll_refines [OF inv, of flush now "snd ?r"] by (simp add: case_prod_beta)
  moreover have "fst (batch_run flush rtcm_batch_init (ops @ [Poll now]) w)
      = fst (flush_due_batch flush (fst ?r) now (snd ?r))"
    by (simp add: batch_run_append Let_def case_prod_beta)
  ultimately show ?thesis by (metis batch_view_def fst_conv)
qed

lemma batch_flushed_within_period_witness:
  "batch_frames (fst (batch_run (\<lambda>w d. w @ [d]) rtcm_batch_init
     ([Publish [1, 2] 10, Publish [3] 20] @ [Poll 200020]) [])) = []"
  by (rule batch_flushed_within_period) (simp_all add: kMaxRtcmFrame_def kRtcmBatchUs_def)

end
