(* ===== verification/Corrections.thy ===== *)
theory Corrections
  imports RtcmBatch
begin

text \<open>
  The mailbox of the outbound NTRIP destinations (\<open>CorrectionSlot\<close>, \<open>PushDestination\<close> in
  \<open>main/base_station.hpp\<close>; \<open>publish_to_corrections\<close>, \<open>flush_destination_if_due\<close>,
  \<open>flush_due_corrections\<close> and the slot part of \<open>reset_rtcm_state\<close> in
  \<open>main/base_station.cpp\<close>): sixteen slots, one per RTCM message number, each with the most
  recent frame of that number and one sent bit per destination.

  The abstract view is a map from message numbers to the latest frame and the set of
  destinations that took it.
\<close>

subsection \<open>State and operations\<close>

datatype push_destination = PushRtk2go | PushOnocoy | PushRtkdata

fun dest_index :: "push_destination \<Rightarrow> nat" where
  "dest_index PushRtk2go = 0"
| "dest_index PushOnocoy = 1"
| "dest_index PushRtkdata = 2"

lemma dest_index_inj [simp]: "dest_index a = dest_index b \<longleftrightarrow> a = b"
  by (cases a; cases b) simp_all

lemma dest_index_less: "dest_index d < 3"
  by (cases d) simp_all

instantiation push_destination :: linorder
begin

definition less_eq_push_destination :: "push_destination \<Rightarrow> push_destination \<Rightarrow> bool" where
  "a \<le> b \<longleftrightarrow> dest_index a \<le> dest_index b"

definition less_push_destination :: "push_destination \<Rightarrow> push_destination \<Rightarrow> bool" where
  "a < b \<longleftrightarrow> dest_index a < dest_index b"

instance
  by standard (auto simp: less_eq_push_destination_def less_push_destination_def)

end

record correction_slot =
  cs_used :: bool
  cs_message_number :: u16
  cs_data :: "u8 list"
  cs_length :: nat
  cs_sent_mask :: u8
  cs_updated_us :: time_us

definition kMaxCorrectionSlots :: nat where "kMaxCorrectionSlots = 16"

definition correction_slot_init :: correction_slot where
  "correction_slot_init = \<lparr>cs_used = False, cs_message_number = 0,
     cs_data = replicate kMaxRtcmFrame 0, cs_length = 0, cs_sent_mask = 0, cs_updated_us = 0\<rparr>"

record corrections =
  co_slots :: "correction_slot list"
  co_next_flush_us :: "time_us list"

definition corrections_init :: corrections where
  "corrections_init = \<lparr>co_slots = replicate kMaxCorrectionSlots correction_slot_init,
     co_next_flush_us = [0, 0, 0]\<rparr>"

definition reset_corrections :: "corrections \<Rightarrow> time_us \<Rightarrow> corrections" where
  "reset_corrections co now =
     co\<lparr>co_slots := map (\<lambda>_. correction_slot_init) (co_slots co),
        co_next_flush_us := (((co_next_flush_us co)
            [dest_index PushRtk2go := now + kRtcmStaggerUs + kRtcmBatchUs])
            [dest_index PushOnocoy := now + kRtcmStaggerUs * 2 + kRtcmBatchUs])
            [dest_index PushRtkdata := now + kRtcmStaggerUs * 3 + kRtcmBatchUs]\<rparr>"

text \<open>The index of the first slot that satisfies a test (the two search loops).\<close>

fun slot_index :: "(correction_slot \<Rightarrow> bool) \<Rightarrow> correction_slot list \<Rightarrow> nat option" where
  "slot_index P [] = None"
| "slot_index P (s # ss) = (if P s then Some 0 else map_option Suc (slot_index P ss))"

definition publish_to_corrections ::
    "corrections \<Rightarrow> u8 list \<Rightarrow> u16 \<Rightarrow> time_us \<Rightarrow> corrections" where
  "publish_to_corrections co d mn now =
     (let slots = co_slots co;
          slot = slot_index (\<lambda>s. cs_used s \<and> cs_message_number s = mn) slots;
          slot = (if slot = None then slot_index (\<lambda>s. \<not> cs_used s) slots else slot)
      in case slot of
           None \<Rightarrow> co
         | Some i \<Rightarrow> co\<lparr>co_slots := slots[i := (slots ! i)\<lparr>
               cs_used := True, cs_message_number := mn,
               cs_data := copy_at (cs_data (slots ! i)) 0 d, cs_length := length d,
               cs_sent_mask := 0, cs_updated_us := now\<rparr>]\<rparr>)"

definition dest_bit :: "push_destination \<Rightarrow> u8" where
  "dest_bit dest = push_bit (dest_index dest) 1"

text \<open>The loop over the slots: a slot is marked only when \<open>flush\<close> took its frame.\<close>

fun flush_slots ::
    "('w \<Rightarrow> u8 list \<Rightarrow> bool \<times> 'w) \<Rightarrow> u8 \<Rightarrow> correction_slot list \<Rightarrow> 'w \<Rightarrow> correction_slot list \<times> 'w" where
  "flush_slots flush m [] w = ([], w)"
| "flush_slots flush m (s # ss) w =
     (if \<not> cs_used s \<or> cs_length s = 0 \<or> cs_sent_mask s AND m \<noteq> 0
      then let (ss, w) = flush_slots flush m ss w in (s # ss, w)
      else let (ok, w) = flush w (take (cs_length s) (cs_data s));
               s = (if ok then s\<lparr>cs_sent_mask := cs_sent_mask s OR m\<rparr> else s);
               (ss, w) = flush_slots flush m ss w
           in (s # ss, w))"

definition flush_destination_if_due ::
    "corrections \<Rightarrow> push_destination \<Rightarrow> time_us \<Rightarrow> ('w \<Rightarrow> u8 list \<Rightarrow> bool \<times> 'w) \<Rightarrow> 'w \<Rightarrow> corrections \<times> 'w" where
  "flush_destination_if_due co dest now flush w =
     (if now < co_next_flush_us co ! dest_index dest then (co, w)
      else let (slots, w) = flush_slots flush (dest_bit dest) (co_slots co) w
           in (co\<lparr>co_slots := slots,
                  co_next_flush_us := (co_next_flush_us co)[dest_index dest := now + kRtcmBatchUs]\<rparr>, w))"

text \<open>The three destinations in turn, each with the client it writes to.\<close>

definition flush_due_corrections ::
    "corrections \<Rightarrow> time_us \<Rightarrow> (push_destination \<Rightarrow> 'w \<Rightarrow> u8 list \<Rightarrow> bool \<times> 'w) \<Rightarrow> 'w \<Rightarrow> corrections \<times> 'w" where
  "flush_due_corrections co now push w =
     (let (co, w) = flush_destination_if_due co PushRtk2go now (push PushRtk2go) w;
          (co, w) = flush_destination_if_due co PushOnocoy now (push PushOnocoy) w
      in flush_destination_if_due co PushRtkdata now (push PushRtkdata) w)"

subsection \<open>Invariant and abstraction\<close>

definition slot_ok :: "correction_slot \<Rightarrow> bool" where
  "slot_ok s \<longleftrightarrow> length (cs_data s) = kMaxRtcmFrame \<and> cs_length s \<le> kMaxRtcmFrame \<and>
     (cs_used s \<longrightarrow> 0 < cs_length s)"

definition used_numbers :: "correction_slot list \<Rightarrow> u16 list" where
  "used_numbers ss = map cs_message_number (filter cs_used ss)"

definition corrections_inv :: "corrections \<Rightarrow> bool" where
  "corrections_inv co \<longleftrightarrow>
     length (co_slots co) = kMaxCorrectionSlots \<and> length (co_next_flush_us co) = 3 \<and>
     (\<forall>s \<in> set (co_slots co). slot_ok s) \<and> distinct (used_numbers (co_slots co))"

definition sent_to :: "correction_slot \<Rightarrow> push_destination set" where
  "sent_to s = {d. cs_sent_mask s AND dest_bit d \<noteq> 0}"

definition slot_frame :: "correction_slot \<Rightarrow> u8 list" where
  "slot_frame s = take (cs_length s) (cs_data s)"

type_synonym mailbox = "u16 \<Rightarrow> (u8 list \<times> push_destination set) option"

definition mailbox_of :: "correction_slot list \<Rightarrow> mailbox" where
  "mailbox_of ss = map_of (map (\<lambda>s. (cs_message_number s, (slot_frame s, sent_to s))) (filter cs_used ss))"

definition mailbox :: "corrections \<Rightarrow> mailbox" where
  "mailbox co = mailbox_of (co_slots co)"

lemma slot_ok_init [simp]: "slot_ok correction_slot_init"
  by (simp add: slot_ok_def correction_slot_init_def)

lemma corrections_inv_init [simp]: "corrections_inv corrections_init"
  by (simp add: corrections_inv_def corrections_init_def used_numbers_def correction_slot_init_def
      slot_ok_def)

lemma mailbox_init [simp]: "mailbox corrections_init = Map.empty"
  by (simp add: mailbox_def mailbox_of_def corrections_init_def correction_slot_init_def)

lemma reset_corrections_inv:
  "corrections_inv co \<Longrightarrow> corrections_inv (reset_corrections co now) \<and> mailbox (reset_corrections co now) = Map.empty"
proof -
  have "filter cs_used (map (\<lambda>_. correction_slot_init) xs) = []" for xs :: "correction_slot list"
    by (induction xs) (simp_all add: correction_slot_init_def)
  then show "corrections_inv co \<Longrightarrow> ?thesis"
    by (auto simp: corrections_inv_def reset_corrections_def used_numbers_def mailbox_def mailbox_of_def)
qed

lemma mailbox_of_simps [simp]:
  "mailbox_of [] = Map.empty"
  "mailbox_of (s # ss) = (if cs_used s then (mailbox_of ss)(cs_message_number s \<mapsto> (slot_frame s, sent_to s))
                          else mailbox_of ss)"
  by (simp_all add: mailbox_of_def)

lemma used_numbers_simps [simp]:
  "used_numbers [] = []"
  "used_numbers (s # ss) = (if cs_used s then cs_message_number s # used_numbers ss else used_numbers ss)"
  by (simp_all add: used_numbers_def)

lemma dom_mailbox_of: "dom (mailbox_of ss) = set (used_numbers ss)"
  by (induction ss) (simp_all only: mailbox_of_simps used_numbers_simps dom_empty list.set dom_fun_upd
      option.distinct if_False split: if_split, simp_all)

lemma used_number_in: "s \<in> set ss \<Longrightarrow> cs_used s \<Longrightarrow> cs_message_number s \<in> set (used_numbers ss)"
  by (induction ss) auto

lemma sent_to_cleared [simp]: "sent_to (s\<lparr>cs_sent_mask := 0\<rparr>) = {}"
  by (simp add: sent_to_def)

lemma slot_index_Some:
  "slot_index P ss = Some i \<Longrightarrow> i < length ss \<and> P (ss ! i) \<and> (\<forall>j<i. \<not> P (ss ! j))"
proof (induction ss arbitrary: i)
  case Nil
  then show ?case by simp
next
  case (Cons s ss)
  then show ?case
    by (cases i) (auto split: if_splits simp: less_Suc_eq_0_disj)
qed

lemma slot_index_None: "slot_index P ss = None \<longleftrightarrow> (\<forall>s \<in> set ss. \<not> P s)"
  by (induction ss) auto

subsection \<open>Publishing\<close>

text \<open>Writing a slot that holds the number, or a free one while no slot holds it.\<close>

lemma mailbox_update:
  assumes "i < length ss" "cs_used s'" "distinct (used_numbers ss)"
    and "(cs_used (ss ! i) \<and> cs_message_number (ss ! i) = cs_message_number s') \<or>
         (\<not> cs_used (ss ! i) \<and> cs_message_number s' \<notin> set (used_numbers ss))"
  shows "mailbox_of (ss[i := s']) = (mailbox_of ss)(cs_message_number s' \<mapsto> (slot_frame s', sent_to s')) \<and>
         distinct (used_numbers (ss[i := s'])) \<and>
         set (used_numbers (ss[i := s'])) = insert (cs_message_number s') (set (used_numbers ss))"
  using assms
proof (induction ss arbitrary: i)
  case Nil
  then show ?case by simp
next
  case (Cons s ss)
  show ?case
  proof (cases i)
    case 0
    then show ?thesis using Cons.prems by (auto split: if_splits)
  next
    case (Suc j)
    have "cs_used s \<Longrightarrow> cs_message_number s \<noteq> cs_message_number s'"
      using Cons.prems Suc used_number_in [of "ss ! j" ss] by (auto split: if_splits)
    moreover have "mailbox_of (ss[j := s']) = (mailbox_of ss)(cs_message_number s' \<mapsto> (slot_frame s', sent_to s')) \<and>
         distinct (used_numbers (ss[j := s'])) \<and>
         set (used_numbers (ss[j := s'])) = insert (cs_message_number s') (set (used_numbers ss))"
      using Cons.prems Suc by (intro Cons.IH) (auto split: if_splits)
    ultimately show ?thesis using Cons.prems Suc by (auto simp: fun_upd_twist)
  qed
qed

lemma publish_slot:
  assumes inv: "corrections_inv co" and d: "d \<noteq> []" "length d \<le> kMaxRtcmFrame"
  shows "corrections_inv (publish_to_corrections co d mn now) \<and>
    mailbox (publish_to_corrections co d mn now) =
      (if mn \<in> dom (mailbox co) \<or> card (dom (mailbox co)) < kMaxCorrectionSlots
       then (mailbox co)(mn \<mapsto> (d, {})) else mailbox co)"
proof -
  define ss where "ss = co_slots co"
  have ok: "\<forall>s \<in> set ss. slot_ok s" and len: "length ss = kMaxCorrectionSlots"
    and dist: "distinct (used_numbers ss)"
    using inv by (simp_all add: corrections_inv_def ss_def)
  have dom: "dom (mailbox co) = set (used_numbers ss)"
    by (simp add: mailbox_def dom_mailbox_of ss_def)
  have card: "card (dom (mailbox co)) = length (filter cs_used ss)"
    unfolding dom using dist by (simp add: distinct_card) (simp add: used_numbers_def)
  have in_dom: "mn \<in> dom (mailbox co) \<longleftrightarrow> (\<exists>s \<in> set ss. cs_used s \<and> cs_message_number s = mn)"
    unfolding dom by (auto simp: used_numbers_def)
  have room: "card (dom (mailbox co)) < kMaxCorrectionSlots \<longleftrightarrow> (\<exists>s \<in> set ss. \<not> cs_used s)"
    unfolding card len [symmetric]
    by (metis filter_id_conv length_filter_less less_irrefl)
  define idx where "idx = (let slot = slot_index (\<lambda>s. cs_used s \<and> cs_message_number s = mn) ss
      in if slot = None then slot_index (\<lambda>s. \<not> cs_used s) ss else slot)"
  have unf: "publish_to_corrections co d mn now =
    (case idx of None \<Rightarrow> co
     | Some i \<Rightarrow> co\<lparr>co_slots := ss[i := (ss ! i)\<lparr>cs_used := True, cs_message_number := mn,
        cs_data := copy_at (cs_data (ss ! i)) 0 d, cs_length := length d, cs_sent_mask := 0,
        cs_updated_us := now\<rparr>]\<rparr>)"
    unfolding publish_to_corrections_def idx_def ss_def Let_def ..
  show ?thesis
  proof (cases idx)
    case None
    then have no: "\<not> mn \<in> dom (mailbox co)" "\<not> card (dom (mailbox co)) < kMaxCorrectionSlots"
      unfolding in_dom room by (auto simp: idx_def Let_def slot_index_None split: if_splits)
    have "publish_to_corrections co d mn now = co"
      using None by (simp add: unf)
    then show ?thesis using no inv by simp
  next
    case (Some i)
    define s' where "s' = (ss ! i)\<lparr>cs_used := True, cs_message_number := mn,
        cs_data := copy_at (cs_data (ss ! i)) 0 d, cs_length := length d, cs_sent_mask := 0, cs_updated_us := now\<rparr>"
    have pub: "publish_to_corrections co d mn now = co\<lparr>co_slots := ss[i := s']\<rparr>"
      using Some by (simp add: unf s'_def)
    have found: "i < length ss \<and> ((cs_used (ss ! i) \<and> cs_message_number (ss ! i) = mn) \<or>
        (\<not> cs_used (ss ! i) \<and> mn \<notin> set (used_numbers ss)))"
      using Some unfolding idx_def Let_def dom [symmetric] in_dom
      by (auto split: if_splits dest!: slot_index_Some simp: slot_index_None)
    have "slot_ok (ss ! i)" using ok found by simp
    then have s': "slot_frame s' = d" "sent_to s' = {}" "slot_ok s'" "cs_used s'" "cs_message_number s' = mn"
      using d by (auto simp: s'_def slot_frame_def sent_to_def slot_ok_def)
    have yes: "mn \<in> dom (mailbox co) \<or> card (dom (mailbox co)) < kMaxCorrectionSlots"
      using found unfolding in_dom room by auto
    have upd: "mailbox_of (ss[i := s']) = (mailbox_of ss)(mn \<mapsto> (d, {})) \<and> distinct (used_numbers (ss[i := s']))"
      using mailbox_update [of i ss s'] found dist s' by simp
    have "\<forall>s \<in> set (ss[i := s']). slot_ok s"
      using ok s'(3) set_update_subset_insert [of ss i s'] by blast
    then show ?thesis using upd yes len inv
      by (simp add: pub corrections_inv_def mailbox_def ss_def)
  qed
qed

subsection \<open>Flushing\<close>

text \<open>The frames a destination has not taken yet, in slot order.\<close>

definition pending :: "corrections \<Rightarrow> push_destination \<Rightarrow> u8 list list" where
  "pending co dest = map slot_frame (filter (\<lambda>s. cs_used s \<and> dest \<notin> sent_to s) (co_slots co))"

lemma dest_bit_and: "dest_bit a AND dest_bit b \<noteq> 0 \<longleftrightarrow> a = b"
  by (cases a; cases b) (simp_all add: dest_bit_def)

lemma sent_to_mark: "sent_to (s\<lparr>cs_sent_mask := cs_sent_mask s OR dest_bit d\<rparr>) = insert d (sent_to s)"
proof -
  have "(cs_sent_mask s OR dest_bit d) AND dest_bit e \<noteq> 0
      \<longleftrightarrow> cs_sent_mask s AND dest_bit e \<noteq> 0 \<or> d = e" for e
    using dest_bit_and [of d e] by (simp add: bit.conj_disj_distrib2 or_eq_0_iff)
  then show ?thesis by (auto simp: sent_to_def)
qed

text \<open>
  What one pass does with the slots when the client's answers do not depend on what the pass
  itself queues: \<open>acc\<close> says which frames are taken.
\<close>

definition mark_taken :: "push_destination \<Rightarrow> (u8 list \<Rightarrow> bool) \<Rightarrow> correction_slot \<Rightarrow> correction_slot" where
  "mark_taken dest acc s =
     (if cs_used s \<and> dest \<notin> sent_to s \<and> acc (slot_frame s)
      then s\<lparr>cs_sent_mask := cs_sent_mask s OR dest_bit dest\<rparr> else s)"

lemma flush_slots_eq:
  assumes "\<forall>s \<in> set ss. slot_ok s"
  shows "flush_slots (\<lambda>w d. (acc d, f w d)) (dest_bit dest) ss w =
    (map (mark_taken dest acc) ss,
     foldl f w (map slot_frame (filter (\<lambda>s. cs_used s \<and> dest \<notin> sent_to s) ss)))"
  using assms
  by (induction ss arbitrary: w)
    (auto simp: mark_taken_def sent_to_def slot_ok_def slot_frame_def Let_def)

lemma mark_taken_fields [simp]:
  "cs_used (mark_taken dest acc s) = cs_used s"
  "cs_message_number (mark_taken dest acc s) = cs_message_number s"
  "slot_frame (mark_taken dest acc s) = slot_frame s"
  "slot_ok (mark_taken dest acc s) = slot_ok s"
  by (simp_all add: mark_taken_def slot_frame_def slot_ok_def)

lemma sent_to_mark_taken:
  "sent_to (mark_taken dest acc s) =
     (if cs_used s \<and> acc (slot_frame s) then insert dest (sent_to s) else sent_to s)"
  by (auto simp: mark_taken_def sent_to_mark)

lemma used_numbers_mark [simp]: "used_numbers (map (mark_taken dest acc) ss) = used_numbers ss"
  by (induction ss) auto

lemma mailbox_mark:
  "mailbox_of (map (mark_taken dest acc) ss) mn =
     map_option (\<lambda>(d, S). (d, if acc d then insert dest S else S)) (mailbox_of ss mn)"
  by (induction ss) (auto simp: sent_to_mark_taken)

lemma flush_due_eq:
  assumes inv: "corrections_inv co" and due: "co_next_flush_us co ! dest_index dest \<le> now"
    and r: "flush_destination_if_due co dest now (\<lambda>w d. (acc d, f w d)) w = (co', w')"
  shows "corrections_inv co'" "w' = foldl f w (pending co dest)"
    "mailbox co' = (\<lambda>mn. map_option (\<lambda>(d, S). (d, if acc d then insert dest S else S)) (mailbox co mn))"
    "co_slots co' = map (mark_taken dest acc) (co_slots co)"
    "co_next_flush_us co' = (co_next_flush_us co)[dest_index dest := now + kRtcmBatchUs]"
proof -
  have ok: "\<forall>s \<in> set (co_slots co). slot_ok s" using inv by (simp add: corrections_inv_def)
  have co': "co' = co\<lparr>co_slots := map (mark_taken dest acc) (co_slots co),
      co_next_flush_us := (co_next_flush_us co)[dest_index dest := now + kRtcmBatchUs]\<rparr>"
    and w': "w' = foldl f w (pending co dest)"
    using due r by (auto simp: flush_destination_if_due_def flush_slots_eq [OF ok] pending_def)
  show "corrections_inv co'" using inv by (auto simp: co' corrections_inv_def)
  show "w' = foldl f w (pending co dest)" by (rule w')
  show "mailbox co' = (\<lambda>mn. map_option (\<lambda>(d, S). (d, if acc d then insert dest S else S)) (mailbox co mn))"
    by (rule ext) (simp add: co' mailbox_def mailbox_mark)
  show "co_slots co' = map (mark_taken dest acc) (co_slots co)"
    "co_next_flush_us co' = (co_next_flush_us co)[dest_index dest := now + kRtcmBatchUs]"
    by (simp_all add: co')
qed

lemma map_slot_frame_mark:
  "map slot_frame (filter (\<lambda>s. cs_used s \<and> dest \<notin> sent_to s) (map (mark_taken dest acc) ss)) =
   filter (\<lambda>d. \<not> acc d) (map slot_frame (filter (\<lambda>s. cs_used s \<and> dest \<notin> sent_to s) ss))"
  by (induction ss) (auto simp: sent_to_mark_taken)

subsection \<open>Properties\<close>

text \<open>
  C6. Latest value wins: publishing a frame replaces whatever the mailbox held under its
  message number and marks it unsent for every destination; the other numbers are untouched.
  Only a seventeenth message number, while sixteen others are held, is dropped, and then the
  mailbox does not change.
\<close>

theorem corrections_latest_value_wins:
  assumes "corrections_inv co" and "d \<noteq> []" and "length d \<le> kMaxRtcmFrame"
  shows "mailbox (publish_to_corrections co d mn now) =
    (if mn \<in> dom (mailbox co) \<or> card (dom (mailbox co)) < kMaxCorrectionSlots
     then (mailbox co)(mn \<mapsto> (d, {})) else mailbox co) \<and>
    corrections_inv (publish_to_corrections co d mn now)"
  using publish_slot [OF assms] by blast

lemma corrections_latest_value_wins_witness:
  "mailbox (publish_to_corrections (publish_to_corrections corrections_init [1] 1005 10) [2] 1005 20)
     = [1005 \<mapsto> ([2], {})]"
proof -
  let ?c = "publish_to_corrections corrections_init [1] 1005 10"
  have c: "mailbox ?c = [1005 \<mapsto> ([1], {})]" "corrections_inv ?c"
    using publish_slot [of corrections_init "[1]" 1005 10] by (simp_all add: kMaxRtcmFrame_def kMaxCorrectionSlots_def)
  show ?thesis
    using corrections_latest_value_wins [OF c(2), of "[2]" 1005 20] by (simp add: c kMaxRtcmFrame_def)
qed

text \<open>
  A due destination is offered exactly its pending frames, in slot order, and a frame is
  recorded as sent to it only when the client took it: a refused frame stays pending, a
  taken one is never offered to that destination again, and the other destinations' records
  do not change.
\<close>

theorem corrections_flush_offers_pending:
  assumes "corrections_inv co" and "co_next_flush_us co ! dest_index dest \<le> now"
  shows "let (co', w') = flush_destination_if_due co dest now (\<lambda>w d. (acc d, w @ [d])) w in
    w' = w @ pending co dest \<and>
    pending co' dest = filter (\<lambda>d. \<not> acc d) (pending co dest) \<and>
    (\<forall>other mn d S. other \<noteq> dest \<longrightarrow> mailbox co mn = Some (d, S) \<longrightarrow>
       (\<exists>S'. mailbox co' mn = Some (d, S') \<and> (other \<in> S' \<longleftrightarrow> other \<in> S)))"
proof -
  obtain co' w' where r: "flush_destination_if_due co dest now (\<lambda>w d. (acc d, w @ [d])) w = (co', w')"
    by (rule prod.exhaust)
  note eq = flush_due_eq [OF assms r]
  have fold: "foldl (\<lambda>w d. w @ [d]) w ds = w @ ds" for ds :: "u8 list list"
    by (induction ds arbitrary: w) auto
  have "pending co' dest = filter (\<lambda>d. \<not> acc d) (pending co dest)"
    unfolding pending_def eq(4) by (rule map_slot_frame_mark)
  moreover have "mailbox co' mn = map_option (\<lambda>(d, S). (d, if acc d then insert dest S else S)) (mailbox co mn)" for mn
    using eq(3) by (rule fun_cong)
  ultimately show ?thesis by (simp add: r eq(2) fold)
qed

lemma corrections_flush_offers_pending_witness:
  "pending (fst (flush_destination_if_due (publish_to_corrections corrections_init [1] 1005 10) PushOnocoy 20
      (\<lambda>w d. (True, w @ [d])) [])) PushOnocoy = []"
proof -
  let ?c = "publish_to_corrections corrections_init [1] 1005 10"
  have c: "corrections_inv ?c" using publish_slot [of corrections_init "[1]" 1005 10] by (simp add: kMaxRtcmFrame_def)
  have "co_next_flush_us ?c ! dest_index PushOnocoy \<le> 20"
    by (simp add: publish_to_corrections_def corrections_init_def Let_def split: option.split)
  from corrections_flush_offers_pending [OF c this, of "\<lambda>_. True" "[]"]
  show ?thesis by (simp add: case_prod_beta)
qed

end
