(* ===== verification/LogBuffer.thy ===== *)
theory LogBuffer
  imports Prelude
begin

text \<open>
  The console log ring of \<open>main/log_buffer.cpp\<close>: \<open>append\<close>, the logging \<open>hook\<close>,
  \<open>snapshot\<close> and the incremental reader \<open>snapshot_since\<close> behind the web console. The ring
  refines the history of all bytes ever logged: a reader sees a suffix of it.

  \<open>g_total\<close> is a \<open>uint64_t\<close> byte count that cannot wrap in practice; it is a \<open>nat\<close>.
\<close>

subsection \<open>State and operations\<close>

definition kCapacity :: nat where "kCapacity = 16384"

record log_ring =
  lr_ring :: string
  lr_head :: nat
  lr_count :: nat
  lr_total :: nat

definition log_ring_init :: log_ring where
  "log_ring_init = \<lparr>lr_ring = replicate kCapacity (CHR 0x00), lr_head = 0, lr_count = 0, lr_total = 0\<rparr>"

definition append_byte :: "log_ring \<Rightarrow> char \<Rightarrow> log_ring" where
  "append_byte r c =
     r\<lparr>lr_ring := (lr_ring r)[lr_head r := c],
       lr_head := (lr_head r + 1) mod kCapacity,
       lr_count := (if lr_count r < kCapacity then lr_count r + 1 else lr_count r),
       lr_total := lr_total r + 1\<rparr>"

definition log_append :: "log_ring \<Rightarrow> string \<Rightarrow> log_ring" where
  "log_append r s = foldl append_byte r s"

text \<open>
  \<open>hook\<close>: \<open>vsnprintf\<close> into 256 bytes returns the length of the whole formatted line and
  stores its first 255 bytes.
\<close>

definition log_hook :: "log_ring \<Rightarrow> string \<Rightarrow> log_ring" where
  "log_hook r formatted =
     (let written = length formatted
      in if 0 < written then log_append r (take (min written 255) formatted) else r)"

record snapshot =
  sn_text :: string
  sn_next :: nat
  sn_truncated :: bool

definition snapshot_since :: "log_ring \<Rightarrow> nat \<Rightarrow> snapshot" where
  "snapshot_since r since =
     (let snap = \<lparr>sn_text = [], sn_next = lr_total r, sn_truncated = False\<rparr> in
      if lr_count r = 0 \<or> since = lr_total r then snap
      else
        let oldest = lr_total r - lr_count r;
            (start, snap) =
              (if since = 0 \<or> since < oldest then (oldest, snap\<lparr>sn_truncated := (since \<noteq> 0)\<rparr>)
               else if lr_total r < since then (lr_total r, snap) else (since, snap));
            bytes = lr_total r - start
        in if bytes = 0 then snap
           else
             let ring_start = (if lr_count r = kCapacity then lr_head r else 0);
                 offset = start - oldest
             in snap\<lparr>sn_text :=
                  map (\<lambda>i. lr_ring r ! ((ring_start + offset + i) mod kCapacity)) [0..<bytes]\<rparr>)"

definition log_snapshot :: "log_ring \<Rightarrow> string" where
  "log_snapshot r = sn_text (snapshot_since r 0)"

subsection \<open>The ring refines the history\<close>

definition ring_holds :: "log_ring \<Rightarrow> string \<Rightarrow> bool" where
  "ring_holds r h \<longleftrightarrow>
     length (lr_ring r) = kCapacity \<and> lr_total r = length h \<and>
     lr_count r = min kCapacity (length h) \<and> lr_head r = length h mod kCapacity \<and>
     (\<forall>j. length h - lr_count r \<le> j \<and> j < length h \<longrightarrow> lr_ring r ! (j mod kCapacity) = h ! j)"

lemma kCapacity_pos [simp]: "0 < kCapacity"
  by (simp add: kCapacity_def)

lemma ring_holds_init: "ring_holds log_ring_init []"
  by (simp add: ring_holds_def log_ring_init_def)

text \<open>Two positions less than a capacity apart use different cells.\<close>

lemma mod_distinct:
  assumes "j < n" "n < j + kCapacity" shows "j mod kCapacity \<noteq> n mod kCapacity"
proof
  assume "j mod kCapacity = n mod kCapacity"
  then have "kCapacity dvd n - j" using assms(1) by (metis less_imp_le mod_eq_dvd_iff_nat)
  with assms show False by (auto dest!: dvd_imp_le)
qed

lemma append_byte_holds:
  assumes "ring_holds r h" shows "ring_holds (append_byte r c) (h @ [c])"
proof -
  let ?n = "length h"
  have eq: "length (lr_ring r) = kCapacity" "lr_total r = ?n" "lr_count r = min kCapacity ?n"
    "lr_head r = ?n mod kCapacity"
    and cells: "\<And>j. ?n - lr_count r \<le> j \<Longrightarrow> j < ?n \<Longrightarrow> lr_ring r ! (j mod kCapacity) = h ! j"
    using assms by (auto simp: ring_holds_def)
  have "(lr_ring r)[?n mod kCapacity := c] ! (j mod kCapacity) = (h @ [c]) ! j"
    if "Suc ?n - min kCapacity (Suc ?n) \<le> j" "j < Suc ?n" for j
  proof (cases "j = ?n")
    case True
    then show ?thesis using eq by simp
  next
    case False
    then have j: "j < ?n" "?n < j + kCapacity" using that by auto
    then have "lr_ring r ! (j mod kCapacity) = h ! j" using cells eq(3) by auto
    then show ?thesis using mod_distinct [OF j] j by (simp add: nth_append)
  qed
  then show ?thesis
    using eq by (auto simp: ring_holds_def append_byte_def mod_Suc_eq)
qed

lemma log_append_holds: "ring_holds r h \<Longrightarrow> ring_holds (log_append r s) (h @ s)"
  unfolding log_append_def
proof (induction s arbitrary: r h)
  case Nil
  then show ?case by simp
next
  case (Cons c s)
  from Cons.IH [OF append_byte_holds [OF Cons.prems, of c]] show ?case by simp
qed

text \<open>Where a reader at cursor \<open>since\<close> starts in a history of length \<open>n\<close>.\<close>

definition read_start :: "nat \<Rightarrow> nat \<Rightarrow> nat" where
  "read_start n since = (if since = 0 \<or> since < n - kCapacity then n - kCapacity else min since n)"

lemma snapshot_since_holds:
  assumes holds: "ring_holds r h"
  shows "snapshot_since r since =
    \<lparr>sn_text = drop (read_start (length h) since) h, sn_next = length h,
     sn_truncated = (since \<noteq> 0 \<and> since < length h - kCapacity)\<rparr>"
proof -
  let ?n = "length h"
  have eq: "lr_total r = ?n" "lr_count r = min kCapacity ?n" "lr_head r = ?n mod kCapacity"
    and cells: "\<And>j. ?n - lr_count r \<le> j \<Longrightarrow> j < ?n \<Longrightarrow> lr_ring r ! (j mod kCapacity) = h ! j"
    using holds by (auto simp: ring_holds_def)
  define oldest where "oldest = ?n - lr_count r"
  have oldest: "oldest = ?n - kCapacity" using eq by (auto simp: oldest_def min_def)
  define rs where "rs = (if lr_count r = kCapacity then lr_head r else 0)"
  have rs: "rs mod kCapacity = oldest mod kCapacity"
  proof (cases "lr_count r = kCapacity")
    case True
    then have "kCapacity \<le> ?n" using eq by (simp add: min_def split: if_splits)
    then have "?n mod kCapacity = (oldest + kCapacity) mod kCapacity" using oldest by simp
    then show ?thesis using True eq by (simp add: rs_def)
  next
    case False
    then show ?thesis using eq oldest by (auto simp: rs_def min_def split: if_splits)
  qed
  have window: "map (\<lambda>i. lr_ring r ! ((rs + (start - oldest) + i) mod kCapacity)) [0..<?n - start] = drop start h"
    if start: "oldest \<le> start" for start
  proof (rule nth_equalityI)
    fix i assume "i < length (map (\<lambda>i. lr_ring r ! ((rs + (start - oldest) + i) mod kCapacity)) [0..<?n - start])"
    then have i: "i < ?n - start" by simp
    have "(rs + (start - oldest) + i) mod kCapacity = (oldest + (start - oldest) + i) mod kCapacity"
      using rs by (metis mod_add_left_eq add.assoc)
    then have "(rs + (start - oldest) + i) mod kCapacity = (start + i) mod kCapacity" using start by simp
    then show "map (\<lambda>i. lr_ring r ! ((rs + (start - oldest) + i) mod kCapacity)) [0..<?n - start] ! i = drop start h ! i"
      using i start cells [of "start + i"] by (simp add: oldest_def)
  qed simp
  show ?thesis
  proof (cases "lr_count r = 0 \<or> since = lr_total r")
    case True
    then show ?thesis using eq
      by (auto simp: snapshot_since_def read_start_def kCapacity_def min_def split: if_splits)
  next
    case False
    define start where "start = read_start ?n since"
    have ge: "oldest \<le> start" by (auto simp: start_def read_start_def oldest)
    have start: "(if since = 0 \<or> since < oldest then oldest else if ?n < since then ?n else since) = start"
      by (auto simp: start_def read_start_def oldest)
    have tr: "(since = 0 \<or> since < oldest) \<and> since \<noteq> 0 \<longleftrightarrow> since \<noteq> 0 \<and> since < ?n - kCapacity"
      using oldest by auto
    show ?thesis
      using False window [OF ge] start tr
      unfolding snapshot_since_def Let_def eq(1) oldest_def [symmetric] rs_def [symmetric] start_def [symmetric]
      by (auto simp: split: if_splits)
  qed
qed

subsection \<open>Properties\<close>

text \<open>The ring after logging the given pieces, from boot.\<close>

definition log_run :: "string list \<Rightarrow> log_ring" where
  "log_run pieces = foldl log_append log_ring_init pieces"

lemma log_run_holds: "ring_holds (log_run pieces) (concat pieces)"
proof -
  have "ring_holds r h \<Longrightarrow> ring_holds (foldl log_append r ps) (h @ concat ps)" for r h ps
    by (induction ps arbitrary: r h) (auto dest: log_append_holds simp flip: append_assoc)
  from this [OF ring_holds_init] show ?thesis by (simp add: log_run_def)
qed

text \<open>
  C29. The ring is a faithful window on the log: whatever was logged, in whatever pieces, a
  snapshot is exactly the last 16384 bytes of it (all of it, when it is shorter).
\<close>

theorem log_snapshot_is_suffix:
  "log_snapshot (log_run pieces) = drop (length (concat pieces) - kCapacity) (concat pieces)"
  using snapshot_since_holds [OF log_run_holds [of pieces], of 0]
  by (simp add: log_snapshot_def read_start_def)

text \<open>
  Incremental reading loses and repeats nothing: a reader that asks again from the
  \<open>next\<close> cursor of its last answer gets exactly the bytes logged in between, unless the
  answer is flagged as truncated, and it is flagged only when more than 16384 bytes came in
  between (then it gets the last 16384).
\<close>

theorem log_incremental_read:
  assumes "sn_next (snapshot_since (log_run old) c) = since" and "since \<noteq> 0"
  shows "let s = snapshot_since (log_run (old @ new)) since in
    (sn_truncated s \<longleftrightarrow> kCapacity < length (concat new)) \<and>
    sn_text s = drop (length (concat new) - kCapacity) (concat new) \<and>
    sn_next s = length (concat (old @ new))"
proof -
  have since: "since = length (concat old)"
    using assms(1) snapshot_since_holds [OF log_run_holds [of old], of c] by simp
  have n: "length (concat (old @ new)) = since + length (concat new)" using since by simp
  note snap = snapshot_since_holds [OF log_run_holds [of "old @ new"], of since, unfolded n]
  have "read_start (since + length (concat new)) since = since + (length (concat new) - kCapacity)"
    using assms(2) by (auto simp: read_start_def)
  moreover have "drop (since + k) (concat (old @ new)) = drop k (concat new)" for k
    using since by simp
  moreover have "since < since + length (concat new) - kCapacity \<longleftrightarrow> kCapacity < length (concat new)"
    by auto
  ultimately show ?thesis
    unfolding Let_def snap n using assms(2) by simp
qed

lemma log_incremental_read_witness:
  "sn_text (snapshot_since (log_run ([''boot''] @ ['' ok''])) 4) = '' ok''"
proof -
  have "sn_next (snapshot_since (log_run [''boot'']) 0) = 4"
    using snapshot_since_holds [OF log_run_holds [of "[''boot'']"], of 0] by simp
  from log_incremental_read [OF this, of "['' ok'']"] show ?thesis
    by (simp add: Let_def kCapacity_def)
qed

end
