(* ===== verification/Float64.thy ===== *)
theory Float64
  imports Prelude
begin

text \<open>
  The floating-point values of the firmware. \<open>float\<close> and \<open>double\<close> arithmetic is real
  arithmetic followed by the IEEE 754 rounding to nearest, ties to even: every operation
  \<open>x op y\<close> of the sources is written \<open>fl64 (x op y)\<close> (or \<open>fl32\<close>). Overflow to infinity is
  left out of the rounding function: the components bound their values. The object
  representation of a \<open>double\<close>, which the sources copy to and from flash, is a \<open>u64\<close>.
\<close>

subsection \<open>Rounding to an integer, ties to even\<close>

definition rhe :: "real \<Rightarrow> int" where
  "rhe x = (let f = \<lfloor>x\<rfloor>; d = x - of_int f in
     if d < 1 / 2 then f else if 1 / 2 < d then f + 1 else if even f then f else f + 1)"

lemma rhe_of_int [simp]: "rhe (of_int k) = k"
  by (simp add: rhe_def)

lemma rhe_floor: "\<lfloor>x\<rfloor> \<le> rhe x" "rhe x \<le> \<lfloor>x\<rfloor> + 1"
  by (auto simp: rhe_def Let_def)

lemma rhe_mono: assumes "x \<le> y" shows "rhe x \<le> rhe y"
proof (cases "\<lfloor>x\<rfloor> = \<lfloor>y\<rfloor>")
  case True
  then show ?thesis using assms by (auto simp: rhe_def Let_def)
next
  case False
  then have "\<lfloor>x\<rfloor> + 1 \<le> \<lfloor>y\<rfloor>" using floor_mono [OF assms] by linarith
  then show ?thesis using rhe_floor [of x] rhe_floor [of y] by linarith
qed

lemma rhe_minus: "rhe (- x) = - rhe x"
proof (cases "x \<in> \<int>")
  case True
  then obtain k where "x = of_int k" by (auto elim: Ints_cases)
  then have "- x = of_int (- k)" by simp
  then show ?thesis using \<open>x = of_int k\<close> by (metis rhe_of_int)
next
  case False
  then have f: "\<lfloor>- x\<rfloor> = - \<lfloor>x\<rfloor> - 1"
    by (metis ceiling_altdef ceiling_def diff_minus_eq_add minus_add_distrib uminus_add_conv_diff
        Ints_of_int add.inverse_inverse)
  have "of_int \<lfloor>x\<rfloor> < x" using False by (metis Ints_of_int of_int_floor_le order_le_less)
  then show ?thesis by (auto simp: rhe_def Let_def f)
qed

lemma rhe_error: "\<bar>x - of_int (rhe x)\<bar> \<le> 1 / 2"
  using floor_correct [of x] by (auto simp: rhe_def Let_def abs_le_iff)

subsection \<open>The rounding of a binary format\<close>

text \<open>
  A format has \<open>p\<close> significand bits and least exponent \<open>emin\<close>. \<open>binade\<close> is the exponent of
  the leading bit, held at \<open>emin\<close> for subnormal numbers.
\<close>

definition binade :: "int \<Rightarrow> real \<Rightarrow> int" where
  "binade emin x = (if \<bar>x\<bar> < 2 powi emin then emin else \<lfloor>log 2 \<bar>x\<bar>\<rfloor>)"

definition ulp :: "nat \<Rightarrow> int \<Rightarrow> real \<Rightarrow> real" where
  "ulp p emin x = 2 powi (binade emin x - int p + 1)"

definition fl :: "nat \<Rightarrow> int \<Rightarrow> real \<Rightarrow> real" where
  "fl p emin x = of_int (rhe (x / ulp p emin x)) * ulp p emin x"

abbreviation fl64 :: "real \<Rightarrow> real" where "fl64 \<equiv> fl 53 (-1022)"
abbreviation fl32 :: "real \<Rightarrow> real" where "fl32 \<equiv> fl 24 (-126)"

text \<open>The values a format can hold (apart from its upper bound).\<close>

definition in_format :: "nat \<Rightarrow> int \<Rightarrow> real \<Rightarrow> bool" where
  "in_format p emin x \<longleftrightarrow> (\<exists>m e. x = of_int m * 2 powi e \<and> \<bar>m\<bar> \<le> 2 ^ p \<and> emin - int p + 1 \<le> e)"

lemma powi2_pos [simp]: "(0::real) < 2 powi e"
  by simp

lemma powi2_le_iff [simp]: "(2::real) powi a \<le> 2 powi b \<longleftrightarrow> a \<le> b"
  by (metis power_int_increasing power_int_strict_increasing not_le one_less_numeral_iff semiring_norm(76)
      one_le_numeral)

lemma powi2_less_iff [simp]: "(2::real) powi a < 2 powi b \<longleftrightarrow> a < b"
  by (metis not_le powi2_le_iff)

lemma powi2_add: "(2::real) powi (a + b) = 2 powi a * 2 powi b"
  by (simp add: power_int_add)

lemma binade_ge: "emin \<le> binade emin x"
proof (cases "\<bar>x\<bar> < 2 powi emin")
  case False
  then have "2 powr of_int emin \<le> \<bar>x\<bar>" by (simp add: powr_real_of_int')
  moreover have "0 < \<bar>x\<bar>" using False powi2_pos [of emin] by linarith
  ultimately have "of_int emin \<le> log 2 \<bar>x\<bar>" by (simp add: le_log_iff)
  then show ?thesis using False by (simp add: binade_def le_floor_iff)
qed (simp add: binade_def)

lemma binade_normal:
  assumes "2 powi emin \<le> \<bar>x\<bar>"
  shows "2 powi binade emin x \<le> \<bar>x\<bar>" "\<bar>x\<bar> < 2 powi (binade emin x + 1)"
proof -
  have pos: "0 < \<bar>x\<bar>" using assms powi2_pos [of emin] by linarith
  have "\<lfloor>log 2 \<bar>x\<bar>\<rfloor> = binade emin x" using assms by (simp add: binade_def)
  then have "2 powr of_int (binade emin x) \<le> \<bar>x\<bar> \<and> \<bar>x\<bar> < 2 powr (of_int (binade emin x) + 1)"
    using floor_log_eq_powr_iff [OF pos, of 2 "binade emin x"] by simp
  moreover have "2 powr (of_int (binade emin x) + 1) = (2::real) powi (binade emin x + 1)"
    using powr_real_of_int' [of 2 "binade emin x + 1"] by simp
  ultimately show "2 powi binade emin x \<le> \<bar>x\<bar>" "\<bar>x\<bar> < 2 powi (binade emin x + 1)"
    by (simp_all add: powr_real_of_int')
qed

lemma binade_less: "\<bar>x\<bar> < 2 powi (binade emin x + 1)"
proof (cases "\<bar>x\<bar> < 2 powi emin")
  case True
  then have "\<bar>x\<bar> < 2 powi (emin + 1)" using powi2_le_iff [of emin "emin + 1"] by linarith
  then show ?thesis using True by (simp add: binade_def)
qed (use binade_normal in simp)

lemma binade_eqI:
  assumes "2 powi e \<le> \<bar>x\<bar>" "\<bar>x\<bar> < 2 powi (e + 1)" "emin \<le> e"
  shows "binade emin x = e"
proof -
  have "(2::real) powi emin \<le> 2 powi e" using assms by simp
  then have n: "2 powi emin \<le> \<bar>x\<bar>" using assms by linarith
  note b = binade_normal [OF n]
  have "(2::real) powi e < 2 powi (binade emin x + 1)" using assms(1) b(2) by linarith
  moreover have "(2::real) powi binade emin x < 2 powi (e + 1)" using assms(2) b(1) by linarith
  ultimately show ?thesis by simp
qed

lemma ulp_pos [simp]: "0 < ulp p emin x"
  by (simp add: ulp_def)

lemma ulp_nz [simp]: "ulp p emin x \<noteq> 0"
  using ulp_pos [of p emin x] by linarith

lemma powi_ulp: "2 powi (binade emin x + 1) = 2 ^ p * ulp p emin x"
proof -
  have "binade emin x + 1 = int p + (binade emin x - int p + 1)" by simp
  then show ?thesis unfolding ulp_def by (metis powi2_add power_int_of_nat)
qed

lemma fl_0 [simp]: "fl p emin 0 = 0"
  using rhe_of_int [of 0] by (simp add: fl_def)

lemma binade_minus [simp]: "binade emin (- x) = binade emin x"
  by (simp add: binade_def)

lemma fl_minus [simp]: "fl p emin (- x) = - fl p emin x"
  by (simp add: fl_def ulp_def rhe_minus)

lemma fl_nonneg: "0 \<le> x \<Longrightarrow> 0 \<le> fl p emin x"
  using rhe_mono [of 0 "x / ulp p emin x"] rhe_of_int [of 0]
  by (simp add: fl_def ulp_pos order_less_imp_le)

lemma scaled_less: "\<bar>x / ulp p emin x\<bar> < 2 ^ p"
  using binade_less [of x emin] 
  by (simp add: powi_ulp [of _ _ p] abs_div divide_less_eq abs_of_pos)

lemma rhe_scaled: "\<bar>rhe (x / ulp p emin x)\<bar> \<le> 2 ^ p"
proof -
  have "- (2 ^ p) \<le> x / ulp p emin x" "x / ulp p emin x \<le> 2 ^ p"
    using scaled_less [of x p emin] by linarith+
  from rhe_mono [OF this(1)] rhe_mono [OF this(2)]
  show ?thesis using rhe_of_int [of "2 ^ p"] rhe_of_int [of "- (2 ^ p)"] by simp
qed

lemma fl_in_format: "in_format p emin (fl p emin x)"
  unfolding in_format_def fl_def
  by (rule exI [of _ "rhe (x / ulp p emin x)"], rule exI [of _ "binade emin x - int p + 1"])
    (use rhe_scaled binade_ge [of emin x] in \<open>simp add: ulp_def\<close>)

lemma in_format_small:
  assumes "in_format p emin x" and "0 < p"
  obtains m e where "x = of_int m * 2 powi e" "\<bar>m\<bar> < 2 ^ p" "emin - int p + 1 \<le> e"
proof -
  obtain m e where me: "x = of_int m * 2 powi e" "\<bar>m\<bar> \<le> 2 ^ p" "emin - int p + 1 \<le> e"
    using assms(1) by (auto simp: in_format_def)
  show thesis
  proof (cases "\<bar>m\<bar> = 2 ^ p")
    case True
    define k where "k = sgn m * 2 ^ (p - 1)"
    have "(2::int) ^ p = 2 * 2 ^ (p - 1)" using assms(2) by (cases p) auto
    moreover have "m = sgn m * \<bar>m\<bar>" by (simp add: mult_sgn_abs)
    ultimately have m: "m = k * 2" using True by (simp add: k_def)
    have "x = of_int k * 2 powi (e + 1)" using me(1) m by (simp add: powi2_add)
    moreover have "\<bar>k\<bar> < 2 ^ p" using True m \<open>2 ^ p = 2 * 2 ^ (p - 1)\<close>
      by (simp add: abs_mult)
    ultimately show thesis using that me(3) by auto
  qed (use that me in auto)
qed

lemma fl_id:
  assumes "in_format p emin x" and "0 < p" shows "fl p emin x = x"
proof -
  obtain m e where me: "x = of_int m * 2 powi e" "\<bar>m\<bar> < 2 ^ p" "emin - int p + 1 \<le> e"
    using in_format_small [OF assms] .
  define b where "b = binade emin x"
  have "b - int p + 1 \<le> e"
  proof (cases "\<bar>x\<bar> < 2 powi emin")
    case True
    then show ?thesis using me(3) by (simp add: b_def binade_def)
  next
    case False
    have "real_of_int \<bar>m\<bar> < 2 ^ p" using me(2) by (metis of_int_less_iff of_int_numeral of_int_power)
    then have "\<bar>x\<bar> < 2 powi (int p + e)" using me(1) by (simp add: abs_mult powi2_add)
    then have "(2::real) powi b < 2 powi (int p + e)"
      using binade_normal(1) [of emin x] False unfolding b_def by linarith
    then show ?thesis by simp
  qed
  then obtain k where k: "e = b - int p + 1 + int k" by (metis zle_iff_zadd)
  have "2 powi e = 2 ^ k * ulp p emin x"
    unfolding ulp_def b_def [symmetric] by (metis k add.commute powi2_add power_int_of_nat)
  then have x: "x = of_int (m * 2 ^ k) * ulp p emin x" using me(1) by simp
  then have "x / ulp p emin x = of_int (m * 2 ^ k)" by (metis nonzero_mult_div_cancel_right ulp_nz)
  then show ?thesis using rhe_of_int [of "m * 2 ^ k"] x by (simp add: fl_def)
qed

lemma fl_le_pow: "fl p emin x \<le> 2 powi (binade emin x + 1)"
proof -
  have "real_of_int (rhe (x / ulp p emin x)) \<le> of_int (2 ^ p)"
    using rhe_scaled [of x p emin] unfolding of_int_le_iff by linarith
  then have "fl p emin x \<le> of_int (2 ^ p) * ulp p emin x"
    unfolding fl_def by (rule mult_right_mono) (simp add: order_less_imp_le)
  then show ?thesis by (simp add: powi_ulp [of _ _ p])
qed

lemma fl_ge_pow:
  assumes "2 powi binade emin x \<le> x" and "0 < p" shows "2 powi binade emin x \<le> fl p emin x"
proof -
  have b: "2 powi binade emin x = 2 ^ (p - 1) * ulp p emin x"
  proof -
    have "binade emin x = int (p - 1) + (binade emin x - int p + 1)" using assms(2) by simp
    then show ?thesis unfolding ulp_def by (metis powi2_add power_int_of_nat)
  qed
  then have "2 ^ (p - 1) \<le> x / ulp p emin x" using assms(1) by (simp add: pos_le_divide_eq)
  from rhe_mono [OF this] have "2 ^ (p - 1) \<le> rhe (x / ulp p emin x)"
    using rhe_of_int [of "2 ^ (p - 1)"] by simp
  then have "real_of_int (2 ^ (p - 1)) \<le> of_int (rhe (x / ulp p emin x))" unfolding of_int_le_iff .
  then have "of_int (2 ^ (p - 1)) * ulp p emin x \<le> fl p emin x"
    unfolding fl_def by (rule mult_right_mono) (simp add: order_less_imp_le)
  then show ?thesis by (simp add: b)
qed

lemma binade_mono: assumes "0 \<le> x" "x \<le> y" shows "binade emin x \<le> binade emin y"
proof (cases "\<bar>x\<bar> < 2 powi emin")
  case True
  then show ?thesis using binade_ge [of emin y] by (simp add: binade_def)
next
  case False
  then have "(2::real) powi binade emin x < 2 powi (binade emin y + 1)"
    using binade_normal(1) [of emin x] binade_less [of y emin] assms by linarith
  then show ?thesis by simp
qed

lemma fl_mono_nonneg:
  assumes "0 \<le> x" "x \<le> y" "0 < p" shows "fl p emin x \<le> fl p emin y"
proof (cases "binade emin x = binade emin y")
  case True
  then have "ulp p emin x = ulp p emin y" by (simp add: ulp_def)
  moreover have "x / ulp p emin y \<le> y / ulp p emin y"
    using assms(2) by (simp add: divide_right_mono order_less_imp_le)
  ultimately show ?thesis using rhe_mono
    by (simp add: fl_def mult_right_mono order_less_imp_le)
next
  case False
  then have less: "binade emin x + 1 \<le> binade emin y" using binade_mono [OF assms(1,2), of emin] by simp
  then have "emin < binade emin y" using binade_ge [of emin x] by linarith
  then have "2 powi emin \<le> \<bar>y\<bar>" by (auto simp: binade_def split: if_splits)
  then have "2 powi binade emin y \<le> y" using binade_normal(1) [of emin y] assms by simp
  then have "2 powi binade emin y \<le> fl p emin y" by (rule fl_ge_pow) (rule assms(3))
  moreover have "(2::real) powi (binade emin x + 1) \<le> 2 powi binade emin y" using less by simp
  ultimately show ?thesis using fl_le_pow [of p emin x] by linarith
qed

lemma fl_mono: assumes "x \<le> y" "0 < p" shows "fl p emin x \<le> fl p emin y"
proof (cases "0 \<le> x")
  case True
  then show ?thesis using assms by (rule fl_mono_nonneg)
next
  case False
  show ?thesis
  proof (cases "0 \<le> y")
    case True
    have "0 \<le> fl p emin (- x)" using False by (simp add: fl_nonneg del: fl_minus)
    then show ?thesis using fl_nonneg [OF True, of p emin] by simp
  next
    case False
    then have "fl p emin (- y) \<le> fl p emin (- x)" using assms by (intro fl_mono_nonneg) auto
    then show ?thesis by simp
  qed
qed

text \<open>A representable bound is a bound of the rounded value.\<close>

lemma fl_le_bound: "x \<le> c \<Longrightarrow> in_format p emin c \<Longrightarrow> 0 < p \<Longrightarrow> fl p emin x \<le> c"
  using fl_mono [of x c p emin] fl_id [of p emin c] by simp

lemma fl_ge_bound: "c \<le> x \<Longrightarrow> in_format p emin c \<Longrightarrow> 0 < p \<Longrightarrow> c \<le> fl p emin x"
  using fl_mono [of c x p emin] fl_id [of p emin c] by simp

lemma in_format_of_int:
  "\<bar>k\<bar> \<le> 2 ^ p \<Longrightarrow> emin - int p + 1 \<le> 0 \<Longrightarrow> in_format p emin (of_int k)"
  unfolding in_format_def by (rule exI [of _ k], rule exI [of _ 0]) simp

lemma in_format_minus [simp]: "in_format p emin (- x) \<longleftrightarrow> in_format p emin x"
proof -
  have "in_format p emin x \<Longrightarrow> in_format p emin (- x)" for x
    unfolding in_format_def by (metis abs_minus_cancel minus_mult_left of_int_minus)
  from this [of x] this [of "- x"] show ?thesis by auto
qed

lemma in_format_powi: "emin - int p + 1 \<le> e \<Longrightarrow> in_format p emin (2 powi e)"
  unfolding in_format_def by (rule exI [of _ 1], rule exI [of _ e]) simp

text \<open>
  Halving a rounded number and rounding again never exceeds the exact one: the step that
  keeps a running mean between its neighbours.
\<close>

lemma fl_half_le:
  assumes "0 \<le> x" "0 < p" "in_format p emin x \<or> 2 powi emin \<le> x"
  shows "fl p emin (fl p emin x / 2) \<le> x"
proof (cases "2 powi emin \<le> x")
  case True
  define b where "b = binade emin x"
  have "2 powi b \<le> x" using binade_normal(1) [of emin x] True assms(1) by (simp add: b_def)
  moreover have "fl p emin x / 2 \<le> 2 powi b"
    using fl_le_pow [of p emin x] by (simp add: b_def powi2_add)
  then have "fl p emin (fl p emin x / 2) \<le> 2 powi b"
    by (rule fl_le_bound [OF _ in_format_powi assms(2)])
      (use binade_ge [of emin x] assms(2) in \<open>simp add: b_def\<close>)
  ultimately show ?thesis by linarith
next
  case False
  then have i: "in_format p emin x" using assms(3) by simp
  then show ?thesis using fl_le_bound [of "fl p emin x / 2" x p emin] fl_id [OF i assms(2)] assms by simp
qed

text \<open>The difference of two representable numbers is a multiple of the least positive one.\<close>

lemma in_format_diff:
  assumes "in_format p emin x" "in_format p emin y" "\<bar>x - y\<bar> < 2 powi emin"
  shows "in_format p emin (x - y)"
proof -
  define u where "u = (2::real) powi (emin - int p + 1)"
  have mult: "\<exists>k. z = of_int k * u" if z: "in_format p emin z" for z
  proof -
    obtain m e where me: "z = of_int m * 2 powi e" "emin - int p + 1 \<le> e"
      using z by (auto simp: in_format_def)
    then obtain d where "e = int d + (emin - int p + 1)" by (metis add.commute zle_iff_zadd)
    then have "z = of_int (m * 2 ^ d) * u" using me(1) by (simp add: u_def power_int_add)
    then show ?thesis by blast
  qed
  obtain j k where "x = of_int j * u" "y = of_int k * u" using mult assms(1,2) by blast
  then have d: "x - y = of_int (j - k) * u" by (simp add: left_diff_distrib)
  have "2 powi emin \<le> 2 ^ p * u"
    unfolding u_def using powi2_add [of "int p" "emin - int p + 1"] powi2_le_iff [of emin "emin + 1"]
    by (simp del: powi2_le_iff)
  moreover have "0 < u" by (simp add: u_def)
  moreover from this have "of_int \<bar>j - k\<bar> * u = \<bar>x - y\<bar>" by (simp add: d abs_mult)
  ultimately have "of_int \<bar>j - k\<bar> * u < of_int (2 ^ p) * u" using assms(3) by simp
  then have "real_of_int \<bar>j - k\<bar> < of_int (2 ^ p)" by (rule mult_right_less_imp_less) (simp add: u_def)
  then have "\<bar>j - k\<bar> < 2 ^ p" unfolding of_int_less_iff .
  then show ?thesis unfolding in_format_def using d u_def by (intro exI [of _ "j - k"] exI [of _ "emin - int p + 1"]) simp
qed

subsection \<open>The object representation of a double\<close>

text \<open>Sign bit, eleven exponent bits, 52 fraction bits.\<close>

definition f64_exponent :: "u64 \<Rightarrow> nat" where
  "f64_exponent w = unat w div 2 ^ 52 mod 2 ^ 11"

definition f64_fraction :: "u64 \<Rightarrow> nat" where
  "f64_fraction w = unat w mod 2 ^ 52"

definition f64_negative :: "u64 \<Rightarrow> bool" where
  "f64_negative w = (2 ^ 63 \<le> unat w)"

definition f64_finite :: "u64 \<Rightarrow> bool" where
  "f64_finite w = (f64_exponent w \<noteq> 2047)"

definition f64_value :: "u64 \<Rightarrow> real" where
  "f64_value w =
     (let m = (if f64_exponent w = 0 then f64_fraction w else 2 ^ 52 + f64_fraction w);
          e = (if f64_exponent w = 0 then -1074 else int (f64_exponent w) - 1075);
          a = real m * 2 powi e
      in if f64_negative w then - a else a)"

text \<open>The representation of a value (positive zero for zero).\<close>

definition f64_bits :: "real \<Rightarrow> u64" where
  "f64_bits x =
     (let b = binade (-1022) x;
          m = nat \<bar>rhe (x / ulp 53 (-1022) x)\<bar>;
          magnitude = (if m < 2 ^ 52 then m else nat (b + 1022) * 2 ^ 52 + m)
      in of_nat (magnitude + (if x < 0 then 2 ^ 63 else 0)))"

text \<open>The first power of two that is too large.\<close>

definition double_overflow :: real where
  "double_overflow = 2 powi 1024"

definition double_range :: "real \<Rightarrow> bool" where
  "double_range x \<longleftrightarrow> in_format 53 (-1022) x \<and> \<bar>x\<bar> < double_overflow"

lemma f64_value_bits:
  assumes "double_range x" shows "f64_value (f64_bits x) = x" "f64_finite (f64_bits x)"
proof -
  define b where "b = binade (-1022) x"
  define m where "m = nat \<bar>rhe (x / ulp 53 (-1022) x)\<bar>"
  define s where "s = (if x < 0 then (2::nat) ^ 63 else 0)"
  define magnitude where "magnitude = (if m < 2 ^ 52 then m else nat (b + 1022) * 2 ^ 52 + m)"
  have fmt: "in_format 53 (-1022) x" and bound: "\<bar>x\<bar> < 2 powi 1024"
    using assms unfolding double_range_def double_overflow_def by (rule conjunct1, rule conjunct2)
  have u: "ulp 53 (-1022) x = 2 powi (b - 52)" by (simp add: ulp_def b_def)
  have "x = of_int (rhe (x / ulp 53 (-1022) x)) * 2 powi (b - 52)"
    using fl_id [OF fmt] by (simp add: fl_def u)
  then have ax: "\<bar>x\<bar> = real m * 2 powi (b - 52)"
    unfolding m_def by (metis abs_mult abs_of_pos of_int_abs of_nat_nat abs_ge_zero powi2_pos of_int_of_nat_eq)
  have bge: "-1022 \<le> b" using binade_ge by (simp add: b_def)
  have ble: "b \<le> 1023"
  proof (cases "\<bar>x\<bar> < 2 powi (-1022)")
    case True
    then show ?thesis by (simp add: b_def binade_def)
  next
    case False
    then have "(2::real) powi b < 2 powi 1024"
      using binade_normal(1) [of "-1022" x] bound unfolding b_def by linarith
    then have "b < 1024" unfolding powi2_less_iff .
    then show ?thesis by simp
  qed
  have "\<bar>x\<bar> < 2 powi (b + 1)" using binade_less by (simp add: b_def)
  also have "(2::real) powi (b + 1) = 2 ^ 53 * 2 powi (b - 52)"
    using powi2_add [of 53 "b - 52"] by (simp add: add.commute)
  finally have "real m < 2 ^ 53" using ax by simp
  then have m: "m < 2 ^ 53" by (metis of_nat_less_iff of_nat_numeral of_nat_power)
  have small: "b = -1022" if "m < 2 ^ 52"
  proof (rule ccontr)
    assume "b \<noteq> -1022"
    then have "2 powi b \<le> \<bar>x\<bar>"
      using binade_normal(1) [of "-1022" x] by (auto simp: b_def binade_def split: if_splits)
    then have "2 ^ 52 * 2 powi (b - 52) \<le> real m * 2 powi (b - 52)"
      using ax powi2_add [of 52 "b - 52"] by simp
    then have "2 ^ 52 \<le> real m" by simp
    then show False using that by (metis not_le of_nat_le_iff of_nat_numeral of_nat_power)
  qed
  define E where "E = (if m < 2 ^ 52 then 0 else nat (b + 1023))"
  define F where "F = (if m < 2 ^ 52 then m else m - 2 ^ 52)"
  have F: "F < 2 ^ 52" using m by (auto simp: F_def)
  have E: "E < 2047" using bge ble by (auto simp: E_def)
  have mag: "magnitude = E * 2 ^ 52 + F"
  proof (cases "m < 2 ^ 52")
    case False
    then have "nat (b + 1023) = nat (b + 1022) + 1" using bge by simp
    then show ?thesis using False by (simp add: magnitude_def E_def F_def)
  qed (simp add: magnitude_def E_def F_def)
  have mag_less: "magnitude < 2 ^ 63" using E F mag by simp
  have w: "unat (f64_bits x) = magnitude + s"
  proof -
    have "f64_bits x = of_nat (magnitude + s)"
      by (simp add: f64_bits_def Let_def magnitude_def s_def m_def b_def)
    moreover have "magnitude + s < 2 ^ 64" using mag_less by (simp add: s_def)
    ultimately show ?thesis by (simp add: unat_of_nat del: of_nat_add)
  qed
  have s: "s = (if x < 0 then 2048 else 0) * 2 ^ 52" by (simp add: s_def)
  have frac: "f64_fraction (f64_bits x) = F"
    using F by (simp add: f64_fraction_def w mag s)
  have "(magnitude + s) div 2 ^ 52 = E + (if x < 0 then 2048 else 0)"
    using F by (simp add: mag s)
  then have expo: "f64_exponent (f64_bits x) = E"
    using E by (simp add: f64_exponent_def w mod_Suc)
  have neg: "f64_negative (f64_bits x) \<longleftrightarrow> x < 0"
    using mag_less by (simp add: f64_negative_def w s_def)
  show "f64_finite (f64_bits x)" using E by (simp add: f64_finite_def expo)
  have "real m * 2 powi (b - 52) = f64_value (f64_bits x) * (if x < 0 then -1 else 1)"
    unfolding f64_value_def Let_def frac expo neg
    using small bge by (auto simp: E_def F_def of_nat_diff)
  then show "f64_value (f64_bits x) = x"
    using ax by (cases "x < 0") auto
qed

end
