(* ===== verification/CText.thy ===== *)
theory CText
  imports Float64
begin

text \<open>
  The C library conversions between numbers and text that the sources call: \<open>atoi\<close> and
  \<open>strtod\<close> (decimal, hexadecimal, infinity and NaN forms, the end pointer and \<open>ERANGE\<close>), and
  the \<open>%d\<close>, \<open>%u\<close>, \<open>%02d\<close> and \<open>%.nf\<close> conversions of \<open>printf\<close>. The target's \<open>long\<close> is 32 bits
  wide.
\<close>

subsection \<open>Digits\<close>

definition digit_value :: "char \<Rightarrow> nat option" where
  "digit_value c =
     (let n = (of_char c :: nat) in
      if 48 \<le> n \<and> n \<le> 57 then Some (n - 48)
      else if 97 \<le> n \<and> n \<le> 122 then Some (n - 87)
      else if 65 \<le> n \<and> n \<le> 90 then Some (n - 55)
      else None)"

definition is_digit_of :: "nat \<Rightarrow> char \<Rightarrow> bool" where
  "is_digit_of base c = (case digit_value c of Some d \<Rightarrow> d < base | None \<Rightarrow> False)"

abbreviation is_digit :: "char \<Rightarrow> bool" where "is_digit \<equiv> is_digit_of 10"

definition digits_value :: "nat \<Rightarrow> string \<Rightarrow> nat" where
  "digits_value base ds = foldl (\<lambda>a c. a * base + the (digit_value c)) 0 ds"

definition is_space :: "char \<Rightarrow> bool" where
  "is_space c = (c = CHR '' '' \<or> (9 \<le> (of_char c :: nat) \<and> (of_char c :: nat) \<le> 13))"

definition skip_space :: "string \<Rightarrow> string" where
  "skip_space s = dropWhile is_space s"

definition scan_sign :: "string \<Rightarrow> bool \<times> string" where
  "scan_sign s = (case s of
       [] \<Rightarrow> (False, s)
     | c # t \<Rightarrow> if c = CHR ''-'' then (True, t) else if c = CHR ''+'' then (False, t) else (False, s))"

subsection \<open>atoi and strtoul\<close>

definition strtol10 :: "string \<Rightarrow> int" where
  "strtol10 s =
     (let (neg, t) = scan_sign (skip_space s);
          n = int (digits_value 10 (takeWhile is_digit t));
          v = (if neg then - n else n)
      in max (- (2 ^ 31)) (min (2 ^ 31 - 1) v))"

definition atoi :: "string \<Rightarrow> int" where
  "atoi s = strtol10 (c_str s)"

text \<open>\<open>strtoul(s, nullptr, base)\<close>; the \<open>0x\<close> prefix is accepted in base 16.\<close>

definition strtoul :: "nat \<Rightarrow> string \<Rightarrow> u32" where
  "strtoul base s =
     (let (neg, t) = scan_sign (skip_space (c_str s));
          t = (if base = 16 \<and> (starts_with t ''0x'' \<or> starts_with t ''0X'')
                 \<and> drop 2 t \<noteq> [] \<and> is_digit_of 16 (t ! 2) then drop 2 t else t);
          n = digits_value base (takeWhile (is_digit_of base) t)
      in if 2 ^ 32 \<le> n then - 1 else if neg then - of_nat n else of_nat n)"

subsection \<open>strtod\<close>

datatype c_double = Finite real | Infinite bool | NotANumber

record strtod_result =
  sd_value :: c_double
  sd_rest :: string
  sd_erange :: bool

lemmas sd_simps = strtod_result.simps c_double.simps

definition scan_exponent :: "char \<Rightarrow> char \<Rightarrow> string \<Rightarrow> int \<times> string" where
  "scan_exponent e1 e2 s = (case s of
       [] \<Rightarrow> (0, s)
     | c # t \<Rightarrow>
         if c = e1 \<or> c = e2 then
           (let (neg, u) = scan_sign t; ds = takeWhile is_digit u; n = int (digits_value 10 ds) in
            if ds = [] then (0, s) else (if neg then - n else n, dropWhile is_digit u))
         else (0, s))"

text \<open>
  Digits with an optional point, and an optional exponent; \<open>bits\<close> is the weight of a
  fraction digit in powers of \<open>ebase\<close>.
\<close>

definition scan_magnitude ::
  "nat \<Rightarrow> real \<Rightarrow> int \<Rightarrow> char \<Rightarrow> char \<Rightarrow> string \<Rightarrow> (real \<times> string) option" where
  "scan_magnitude base ebase bits e1 e2 s =
     (let ip = takeWhile (is_digit_of base) s;
          t = dropWhile (is_digit_of base) s;
          (fp, u) = (case t of
              [] \<Rightarrow> ([], t)
            | c # t' \<Rightarrow> if c = CHR ''.''
                       then (takeWhile (is_digit_of base) t', dropWhile (is_digit_of base) t')
                       else ([], t))
      in if ip = [] \<and> fp = [] then None
         else let (e, rest) = scan_exponent e1 e2 u
              in Some (real (digits_value base (ip @ fp)) * ebase powi (e - bits * int (length fp)), rest))"

definition rounded_result :: "bool \<Rightarrow> real \<Rightarrow> string \<Rightarrow> strtod_result" where
  "rounded_result neg a rest =
     (let r = fl64 a in
      if double_overflow \<le> r then \<lparr>sd_value = Infinite neg, sd_rest = rest, sd_erange = True\<rparr>
      else \<lparr>sd_value = Finite (if neg then - r else r), sd_rest = rest,
            sd_erange = (a \<noteq> 0 \<and> r = 0)\<rparr>)"

definition lower :: "char \<Rightarrow> char" where
  "lower c = (let n = (of_char c :: nat) in if 65 \<le> n \<and> n \<le> 90 then char_of (n + 32) else c)"

definition strtod :: "string \<Rightarrow> strtod_result option" where
  "strtod s =
     (let (neg, t) = scan_sign (skip_space (c_str s)); l = map lower t in
      if starts_with l ''infinity'' then
        Some \<lparr>sd_value = Infinite neg, sd_rest = drop 8 t, sd_erange = False\<rparr>
      else if starts_with l ''inf'' then
        Some \<lparr>sd_value = Infinite neg, sd_rest = drop 3 t, sd_erange = False\<rparr>
      else if starts_with l ''nan'' then
        Some \<lparr>sd_value = NotANumber, sd_rest = drop 3 t, sd_erange = False\<rparr>
      else case (if starts_with l ''0x'' then scan_magnitude 16 2 4 (CHR ''p'') (CHR ''P'') (drop 2 t) else None) of
        Some (a, rest) \<Rightarrow> Some (rounded_result neg a rest)
      | None \<Rightarrow>
          (case scan_magnitude 10 10 1 (CHR ''e'') (CHR ''E'') t of
             Some (a, rest) \<Rightarrow> Some (rounded_result neg a rest)
           | None \<Rightarrow> None))"

text \<open>\<open>atof\<close> is \<open>strtod\<close> without its end pointer; no conversion gives zero.\<close>

definition atof :: "string \<Rightarrow> c_double" where
  "atof s = (case strtod s of Some r \<Rightarrow> sd_value r | None \<Rightarrow> Finite 0)"

text \<open>A finite result of \<open>strtod\<close> is representable.\<close>

lemma rounded_result_range:
  assumes "0 \<le> a" "sd_value (rounded_result neg a rest) = Finite x" shows "double_range x"
  using assms fl_nonneg [of a 53 "-1022"] fl_in_format [of 53 "-1022" a]
  by (auto simp: rounded_result_def Let_def double_range_def split: if_splits)

lemma scan_magnitude_nonneg:
  "scan_magnitude base ebase bits e1 e2 s = Some (a, rest) \<Longrightarrow> 0 < ebase \<Longrightarrow> 0 \<le> a"
  by (auto simp: scan_magnitude_def Let_def split: prod.splits if_splits)

lemma strtod_range:
  assumes "strtod s = Some r" "sd_value r = Finite x" shows "double_range x"
  using assms unfolding strtod_def Let_def
  by (auto split: prod.splits if_splits option.splits
      dest!: scan_magnitude_nonneg intro: rounded_result_range)

subsection \<open>Printing\<close>

definition digit_char :: "nat \<Rightarrow> char" where
  "digit_char d = char_of (48 + d)"

fun dec_nat :: "nat \<Rightarrow> string" where
  "dec_nat n = (if n < 10 then [digit_char n] else dec_nat (n div 10) @ [digit_char (n mod 10)])"

declare dec_nat.simps [simp del]

definition dec_int :: "int \<Rightarrow> string" where
  "dec_int i = (if i < 0 then CHR ''-'' # dec_nat (nat (- i)) else dec_nat (nat i))"

definition pad_left :: "char \<Rightarrow> nat \<Rightarrow> string \<Rightarrow> string" where
  "pad_left c width s = replicate (width - length s) c @ s"

text \<open>\<open>%.nf\<close>: the exact value rounded to \<open>n\<close> decimals, ties to even.\<close>

definition fixed_magnitude :: "nat \<Rightarrow> real \<Rightarrow> string" where
  "fixed_magnitude n a =
     (let k = nat (rhe (a * 10 ^ n)) in
      dec_nat (k div 10 ^ n) @
      (if n = 0 then [] else CHR ''.'' # pad_left (CHR ''0'') n (dec_nat (k mod 10 ^ n))))"

definition fixed :: "nat \<Rightarrow> real \<Rightarrow> string" where
  "fixed n x = (if x < 0 then CHR ''-'' # fixed_magnitude n (- x) else fixed_magnitude n x)"

definition fixed_f64 :: "nat \<Rightarrow> u64 \<Rightarrow> string" where
  "fixed_f64 n w =
     (let body = (if f64_finite w then fixed_magnitude n \<bar>f64_value w\<bar>
                  else if f64_fraction w = 0 then ''inf'' else ''nan'')
      in if f64_negative w then CHR ''-'' # body else body)"

lemma digit_value_char [simp]: "d < 10 \<Longrightarrow> digit_value (digit_char d) = Some d"
  by (simp add: digit_value_def digit_char_def Let_def)

lemma is_digit_char [simp]: "d < 10 \<Longrightarrow> is_digit (digit_char d)"
  by (simp add: is_digit_of_def)

lemma digits_value_append:
  "digits_value b (xs @ ys) = digits_value b xs * b ^ length ys + digits_value b ys"
proof -
  have "foldl (\<lambda>a c. a * b + the (digit_value c)) k ys =
      k * b ^ length ys + foldl (\<lambda>a c. a * b + the (digit_value c)) 0 ys" for k
  proof (induction ys arbitrary: k)
    case (Cons y ys)
    show ?case using Cons.IH [of "k * b + the (digit_value y)"] Cons.IH [of "the (digit_value y)"]
      by (simp add: algebra_simps)
  qed simp
  from this [of "digits_value b xs"] show ?thesis by (simp only: digits_value_def foldl_append)
qed

lemma digits_value_single [simp]: "digits_value b [c] = the (digit_value c)"
  by (simp add: digits_value_def)

lemma digits_value_Nil [simp]: "digits_value b [] = 0"
  by (simp add: digits_value_def)

lemma digits_value_zeros [simp]: "digits_value b (replicate n (CHR ''0'')) = 0"
  by (induction n) (simp_all add: digits_value_append digits_value_def digit_value_def foldl_append)

lemma digits_value_dec_nat [simp]: "digits_value 10 (dec_nat n) = n"
proof (induction n rule: dec_nat.induct)
  case (1 n)
  then show ?case by (subst dec_nat.simps) (simp add: digits_value_append)
qed

lemma dec_nat_digits: "c \<in> set (dec_nat n) \<Longrightarrow> is_digit c"
proof (induction n rule: dec_nat.induct)
  case (1 n)
  from 1(2) show ?case using 1(1) by (subst (asm) dec_nat.simps) (auto split: if_splits)
qed

lemma dec_nat_not_Nil [simp]: "dec_nat n \<noteq> []"
  by (subst dec_nat.simps) simp

lemma length_dec_nat: "0 < d \<Longrightarrow> n < 10 ^ d \<Longrightarrow> length (dec_nat n) \<le> d"
proof (induction n arbitrary: d rule: dec_nat.induct)
  case (1 n)
  show ?case
  proof (cases "n < 10")
    case True
    then show ?thesis using 1(2) by (subst dec_nat.simps) simp
  next
    case False
    then obtain d' where d: "d = Suc d'" "0 < d'" using 1(2,3) by (cases d) (auto, cases "d - 1", auto)
    then have "n div 10 < 10 ^ d'" using 1(3) by (simp add: less_mult_imp_div_less)
    from 1(1) [OF False d(2) this] show ?thesis using False d by (subst dec_nat.simps) simp
  qed
qed

end
