(* ===== verification/Survey.thy ===== *)
theory Survey
  imports CText
begin

text \<open>
  The self-survey of \<open>main/survey.cpp\<close>: the NMEA line reader, the position, GSA and GSV
  parsers, the running means in floating point, and the completion rule. A byte is fed
  together with the reading of \<open>esp_timer_get_time\<close> that handling it would take.

  Counters that the code keeps in \<open>int\<close> are \<open>nat\<close>; the range theorem states the bound
  below which they do not overflow. \<open>cos\<close> and \<open>sqrt\<close> are correctly rounded here, and the
  single-precision products are not contracted into fused operations.
\<close>

subsection \<open>Constants, data and state\<close>

definition kSurveyMinTimeSec :: u32 where "kSurveyMinTimeSec = 300"
definition kSurveyBlockTimeSec :: u32 where "kSurveyBlockTimeSec = 60"
definition kSurveyMinBlocks :: nat where "kSurveyMinBlocks = 5"
definition kSurveyMaxStabilityM :: real where "kSurveyMaxStabilityM = 1 / 2"
definition kMetresPerDegree :: real where "kMetresPerDegree = 222639 / 2"
definition kMaxLine :: nat where "kMaxLine = 512"
definition kMaxSatellites :: nat where "kMaxSatellites = 64"
definition kMaxGsvSatellites :: nat where "kMaxGsvSatellites = 20"

lemmas survey_limits = kMaxLine_def kMaxSatellites_def kMaxGsvSatellites_def

datatype survey_state = SurveyIdle | SurveyCollecting | SurveyDone | SurveyError

record survey_result =
  sr_lat :: real
  sr_lon :: real
  sr_height :: real
  sr_lat_sigma :: real
  sr_lon_sigma :: real
  sr_height_sigma :: real
  sr_elapsed_sec :: u32

definition survey_result_init :: survey_result where
  "survey_result_init = \<lparr>sr_lat = 0, sr_lon = 0, sr_height = 0, sr_lat_sigma = 0,
     sr_lon_sigma = 0, sr_height_sigma = 0, sr_elapsed_sec = 0\<rparr>"

record satellite_info =
  si_prn :: u16
  si_elevation :: u8
  si_azimuth :: u16
  si_snr :: u8
  si_system :: u8

record survey_snapshot =
  ss_state :: survey_state
  ss_lat :: real
  ss_lon :: real
  ss_height :: real
  ss_stability :: real
  ss_instantaneous_sigma :: real
  ss_satellites_used :: int
  ss_satellites_tracked :: int
  ss_gps :: nat
  ss_glonass :: nat
  ss_galileo :: nat
  ss_beidou :: nat
  ss_samples :: nat
  ss_blocks :: nat
  ss_elapsed_sec :: u32
  ss_valid :: bool

definition survey_snapshot_init :: survey_snapshot where
  "survey_snapshot_init = \<lparr>ss_state = SurveyIdle, ss_lat = 0, ss_lon = 0, ss_height = 0,
     ss_stability = 0, ss_instantaneous_sigma = 0, ss_satellites_used = 0,
     ss_satellites_tracked = 0, ss_gps = 0, ss_glonass = 0, ss_galileo = 0, ss_beidou = 0,
     ss_samples = 0, ss_blocks = 0, ss_elapsed_sec = 0, ss_valid = False\<rparr>"

text \<open>A running mean with its sum of squared deviations.\<close>

record welford =
  wf_mean :: real
  wf_m2 :: real

definition welford_init :: welford where "welford_init = \<lparr>wf_mean = 0, wf_m2 = 0\<rparr>"

record line_reader =
  ln_line :: string
  ln_len :: nat

record survey =
  sv_state :: survey_state
  sv_result :: survey_result
  sv_live :: survey_snapshot
  sv_reader :: line_reader
  sv_started_us :: time_us
  sv_completion_pending :: bool
  sv_samples :: nat
  sv_lat :: welford
  sv_lon :: welford
  sv_height :: welford
  sv_block_index :: u32
  sv_block_samples :: nat
  sv_block_sum_lat :: real
  sv_block_sum_lon :: real
  sv_block_sum_height :: real
  sv_block_count :: nat
  sv_block_lat :: welford
  sv_block_lon :: welford
  sv_block_height :: welford
  sv_satellite_list :: "satellite_info list"
  sv_gsv_buffer :: "satellite_info list"
  sv_gsv_system :: u8

text \<open>
  \<open>satellite_list_\<close> and \<open>gsv_buffer_\<close> stand for the first \<open>satellite_count_\<close> and
  \<open>gsv_count_\<close> entries of their arrays.
\<close>

definition survey_init :: survey where
  "survey_init =
    \<lparr>sv_state = SurveyIdle, sv_result = survey_result_init, sv_live = survey_snapshot_init,
     sv_reader = \<lparr>ln_line = replicate (kMaxLine + 1) (CHR 0x00), ln_len = 0\<rparr>, sv_started_us = 0,
     sv_completion_pending = False, sv_samples = 0, sv_lat = welford_init, sv_lon = welford_init,
     sv_height = welford_init, sv_block_index = -1, sv_block_samples = 0, sv_block_sum_lat = 0,
     sv_block_sum_lon = 0, sv_block_sum_height = 0, sv_block_count = 0,
     sv_block_lat = welford_init, sv_block_lon = welford_init, sv_block_height = welford_init,
     sv_satellite_list = [], sv_gsv_buffer = [], sv_gsv_system = 0\<rparr>"

subsection \<open>Text helpers\<close>

definition without_checksum :: "string \<Rightarrow> string" where
  "without_checksum v = takeWhile (\<lambda>c. c \<noteq> CHR ''*'') v"

fun csv_field :: "string \<Rightarrow> nat \<Rightarrow> string option" where
  "csv_field v index =
     (if index = 0 then Some (takeWhile (\<lambda>c. c \<noteq> CHR '','') v)
      else case dropWhile (\<lambda>c. c \<noteq> CHR '','') v of
             [] \<Rightarrow> None
           | _ # rest \<Rightarrow> csv_field rest (index - 1))"

declare csv_field.simps [simp del]

definition parse_double :: "string \<Rightarrow> real option" where
  "parse_double t =
     (if t = [] \<or> 40 \<le> length t then None
      else case strtod t of
             None \<Rightarrow> None
           | Some r \<Rightarrow>
               if \<not> sd_erange r \<and> sd_rest r = [] then
                 (case sd_value r of Finite x \<Rightarrow> Some x | _ \<Rightarrow> None)
               else None)"

definition parse_int :: "string \<Rightarrow> int" where
  "parse_int t =
     (let t = without_checksum t in
      if t = [] \<or> 16 \<le> length t then 0 else atoi t)"

definition clamp :: "int \<Rightarrow> int \<Rightarrow> int \<Rightarrow> int" where
  "clamp v lo hi = (if v < lo then lo else if hi < v then hi else v)"

subsection \<open>Running statistics\<close>

definition update_welford :: "real \<Rightarrow> nat \<Rightarrow> welford \<Rightarrow> welford" where
  "update_welford v count w =
     (let delta = fl64 (v - wf_mean w);
          mean = fl64 (wf_mean w + fl64 (delta / real count));
          m2 = fl64 (wf_m2 w + fl64 (delta * fl64 (v - mean)))
      in \<lparr>wf_mean = mean, wf_m2 = m2\<rparr>)"

definition standard_error :: "real \<Rightarrow> nat \<Rightarrow> real" where
  "standard_error m2 count =
     (if count < 2 then 9999
      else fl32 (fl64 (fl64 (sqrt (fl64 (m2 / real (count - 1)))) / fl64 (sqrt (real count)))))"

definition commit_block :: "survey \<Rightarrow> survey" where
  "commit_block s =
     (if sv_block_samples s = 0 then s
      else
        let lat = fl64 (sv_block_sum_lat s / real (sv_block_samples s));
            lon = fl64 (sv_block_sum_lon s / real (sv_block_samples s));
            height = fl64 (sv_block_sum_height s / real (sv_block_samples s));
            n = sv_block_count s + 1
        in s\<lparr>sv_block_count := n,
             sv_block_lat := update_welford lat n (sv_block_lat s),
             sv_block_lon := update_welford lon n (sv_block_lon s),
             sv_block_height := update_welford height n (sv_block_height s),
             sv_block_samples := 0,
             sv_block_sum_lat := 0, sv_block_sum_lon := 0, sv_block_sum_height := 0\<rparr>)"

subsection \<open>Position sentences\<close>

definition kPi :: real where "kPi = fl64 pi"

text \<open>The standard errors in metres and their root sum of squares.\<close>

definition block_errors :: "survey \<Rightarrow> real \<Rightarrow> real \<times> real \<times> real \<times> real" where
  "block_errors s lat =
     (if 2 \<le> sv_block_count s then
        let n = sv_block_count s;
            lat_m = fl32 (fl64 (standard_error (wf_m2 (sv_block_lat s)) n * kMetresPerDegree));
            lon_m = fl32 (fl64 (fl64 (standard_error (wf_m2 (sv_block_lon s)) n * kMetresPerDegree)
                      * fl64 (cos (fl64 (fl64 (lat * kPi) / 180)))));
            height_m = standard_error (wf_m2 (sv_block_height s)) n;
            stability = fl32 (sqrt (fl32 (fl32 (fl32 (lat_m * lat_m) + fl32 (lon_m * lon_m))
                          + fl32 (height_m * height_m))))
        in (lat_m, lon_m, height_m, stability)
      else (9999, 9999, 9999, 9999))"

definition elapsed_sec :: "survey \<Rightarrow> time_us \<Rightarrow> u32" where
  "elapsed_sec s now = of_int ((now - sv_started_us s) div 1000000)"

definition position_in_range :: "real \<Rightarrow> real \<Rightarrow> real \<Rightarrow> real \<Rightarrow> real \<Rightarrow> real \<Rightarrow> bool" where
  "position_in_range lat lon height lat_sigma lon_sigma height_sigma \<longleftrightarrow>
     \<not> (lat < -90 \<or> 90 < lat \<or> lon < -180 \<or> 180 < lon \<or> height < -1000 \<or> 20000 < height \<or>
        lat_sigma < 0 \<or> lon_sigma < 0 \<or> height_sigma < 0 \<or>
        100 < lat_sigma \<or> 100 < lon_sigma \<or> 100 < height_sigma)"

text \<open>The statistics part of an accepted position.\<close>

definition accumulate_position ::
  "survey \<Rightarrow> u32 \<Rightarrow> real \<Rightarrow> real \<Rightarrow> real \<Rightarrow> survey" where
  "accumulate_position s elapsed lat lon height =
     (let n = sv_samples s + 1;
          s = s\<lparr>sv_samples := n,
                sv_lat := update_welford lat n (sv_lat s),
                sv_lon := update_welford lon n (sv_lon s),
                sv_height := update_welford height n (sv_height s)\<rparr>;
          next_block = elapsed div kSurveyBlockTimeSec;
          s = (if sv_block_index s = -1 then s\<lparr>sv_block_index := next_block\<rparr>
               else if sv_block_index s \<noteq> next_block then (commit_block s)\<lparr>sv_block_index := next_block\<rparr>
               else s)
      in s\<lparr>sv_block_sum_lat := fl64 (sv_block_sum_lat s + lat),
           sv_block_sum_lon := fl64 (sv_block_sum_lon s + lon),
           sv_block_sum_height := fl64 (sv_block_sum_height s + height),
           sv_block_samples := sv_block_samples s + 1\<rparr>)"

definition complete_if_stable :: "survey \<Rightarrow> u32 \<Rightarrow> real \<times> real \<times> real \<times> real \<Rightarrow> survey" where
  "complete_if_stable s elapsed errors =
     (case errors of (lat_m, lon_m, height_m, stability) \<Rightarrow>
        if kSurveyMinTimeSec \<le> elapsed \<and> kSurveyMinBlocks \<le> sv_block_count s \<and>
           stability \<le> kSurveyMaxStabilityM
        then s\<lparr>sv_result := \<lparr>sr_lat = wf_mean (sv_lat s), sr_lon = wf_mean (sv_lon s),
                  sr_height = wf_mean (sv_height s), sr_lat_sigma = lat_m, sr_lon_sigma = lon_m,
                  sr_height_sigma = height_m, sr_elapsed_sec = elapsed\<rparr>,
               sv_state := SurveyDone,
               sv_live := (sv_live s)\<lparr>ss_state := SurveyDone\<rparr>,
               sv_completion_pending := True\<rparr>
        else s)"

definition field_int :: "string \<Rightarrow> nat \<Rightarrow> int" where
  "field_int payload i = (case csv_field payload i of Some f \<Rightarrow> parse_int f | None \<Rightarrow> 0)"

definition field_double :: "string \<Rightarrow> nat \<Rightarrow> real option" where
  "field_double payload i = (case csv_field payload i of Some f \<Rightarrow> parse_double f | None \<Rightarrow> None)"

definition apply_position ::
  "survey \<Rightarrow> time_us \<Rightarrow> string \<Rightarrow> real \<Rightarrow> real \<Rightarrow> real \<Rightarrow> real \<Rightarrow> real \<Rightarrow> real \<Rightarrow> survey" where
  "apply_position s now payload lat lon height lat_sigma lon_sigma height_sigma =
     (let elapsed = elapsed_sec s now;
          s = accumulate_position s elapsed lat lon height;
          errors = block_errors s lat;
          live = (sv_live s)\<lparr>
            ss_lat := wf_mean (sv_lat s), ss_lon := wf_mean (sv_lon s),
            ss_height := wf_mean (sv_height s), ss_stability := snd (snd (snd errors)),
            ss_instantaneous_sigma := max (max (fl32 lat_sigma) (fl32 lon_sigma)) (fl32 height_sigma),
            ss_satellites_used := field_int payload 13,
            ss_satellites_tracked := field_int payload 14,
            ss_samples := sv_samples s, ss_blocks := sv_block_count s,
            ss_elapsed_sec := elapsed, ss_valid := True\<rparr>
      in complete_if_stable (s\<lparr>sv_live := live\<rparr>) elapsed errors)"

definition parse_best_position :: "time_us \<Rightarrow> survey \<Rightarrow> string \<Rightarrow> survey" where
  "parse_best_position now s line =
     (case dropWhile (\<lambda>c. c \<noteq> CHR '';'') line of
        [] \<Rightarrow> s
      | _ # rest \<Rightarrow>
          let payload = without_checksum rest in
          if csv_field payload 0 \<noteq> Some ''SOL_COMPUTED'' then s
          else
            (case (field_double payload 2, field_double payload 3, field_double payload 4,
                   field_double payload 7, field_double payload 8, field_double payload 9) of
               (Some lat, Some lon, Some height, Some lat_sigma, Some lon_sigma, Some height_sigma) \<Rightarrow>
                 if position_in_range lat lon height lat_sigma lon_sigma height_sigma
                 then apply_position s now payload lat lon height lat_sigma lon_sigma height_sigma
                 else s
             | _ \<Rightarrow> s))"

subsection \<open>Satellite sentences\<close>

definition parse_gsa :: "survey \<Rightarrow> string \<Rightarrow> survey" where
  "parse_gsa s line =
     (case csv_field line 18 of
        None \<Rightarrow> s
      | Some field \<Rightarrow>
          let count = length (filter (\<lambda>i. csv_field line i \<noteq> None \<and> csv_field line i \<noteq> Some []) [3..<15]);
              live = sv_live s;
              sys = parse_int field
          in if sys = 1 then s\<lparr>sv_live := live\<lparr>ss_gps := count\<rparr>\<rparr>
             else if sys = 2 then s\<lparr>sv_live := live\<lparr>ss_glonass := count\<rparr>\<rparr>
             else if sys = 3 then s\<lparr>sv_live := live\<lparr>ss_galileo := count\<rparr>\<rparr>
             else if sys = 4 then s\<lparr>sv_live := live\<lparr>ss_beidou := count\<rparr>\<rparr>
             else s)"

lemma csv_field_index: "csv_field v i = Some f \<Longrightarrow> i \<le> length v"
proof (induction v i rule: csv_field.induct)
  case (1 v i)
  show ?case
  proof (cases "i = 0")
    case False
    then obtain c rest where r: "dropWhile (\<lambda>c. c \<noteq> CHR '','') v = c # rest" and
      s: "csv_field rest (i - 1) = Some f"
      using 1(2) by (subst (asm) csv_field.simps) (auto split: list.splits)
    have "i - 1 \<le> length rest" using 1(1) [OF False r] s by simp
    moreover have "Suc (length rest) \<le> length v"
      using arg_cong [OF r, of length] length_dropWhile_le [of "\<lambda>c. c \<noteq> CHR '','' " v] by simp
    ultimately show ?thesis by linarith
  qed simp
qed

definition satellite_of :: "string \<Rightarrow> nat \<Rightarrow> int \<Rightarrow> string \<Rightarrow> string \<Rightarrow> u8 \<Rightarrow> satellite_info" where
  "satellite_of payload i prn elevation azimuth system =
     \<lparr>si_prn = of_int (clamp prn 0 999),
      si_elevation = of_int (clamp (parse_int elevation) 0 90),
      si_azimuth = of_int (clamp (parse_int azimuth) 0 359),
      si_snr = (case csv_field payload (i + 3) of
                  Some f \<Rightarrow> of_int (clamp (parse_int f) 0 99) | None \<Rightarrow> 0),
      si_system = system\<rparr>"

function collect_gsv :: "string \<Rightarrow> u8 \<Rightarrow> nat \<Rightarrow> satellite_info list \<Rightarrow> satellite_info list" where
  "collect_gsv payload system i buffer =
     (if length buffer < kMaxGsvSatellites then
        (case (csv_field payload i, csv_field payload (i + 1), csv_field payload (i + 2)) of
           (Some prn, Some elevation, Some azimuth) \<Rightarrow>
             let p = parse_int prn in
             if p = 0 then collect_gsv payload system (i + 4) buffer
             else collect_gsv payload system (i + 4)
                    (buffer @ [satellite_of payload i p elevation azimuth system])
         | _ \<Rightarrow> buffer)
      else buffer)"
  by pat_completeness auto

termination
  by (relation "measure (\<lambda>(payload, _, i, _). Suc (length payload) - i)") (auto dest!: csv_field_index [OF sym])

declare collect_gsv.simps [simp del]

definition parse_gsv :: "survey \<Rightarrow> string \<Rightarrow> u8 \<Rightarrow> survey" where
  "parse_gsv s line system =
     (let payload = without_checksum line in
      case (csv_field payload 1, csv_field payload 2) of
        (Some message_count_field, Some message_number_field) \<Rightarrow>
          let message_count = parse_int message_count_field;
              message_number = parse_int message_number_field
          in if message_count < 1 \<or> message_number < 1 then s
             else
               let s = (if message_number = 1 \<or> system \<noteq> sv_gsv_system s
                        then s\<lparr>sv_gsv_buffer := [], sv_gsv_system := system\<rparr> else s);
                   s = s\<lparr>sv_gsv_buffer := collect_gsv payload system 4 (sv_gsv_buffer s)\<rparr>
               in if message_number \<noteq> message_count then s
                  else
                    let kept = filter (\<lambda>i. si_system i \<noteq> system) (sv_satellite_list s)
                    in s\<lparr>sv_satellite_list :=
                           kept @ take (kMaxSatellites - length kept) (sv_gsv_buffer s)\<rparr>
      | _ \<Rightarrow> s)"

subsection \<open>Lines, operations of the manager\<close>

definition parse_line :: "time_us \<Rightarrow> survey \<Rightarrow> string \<Rightarrow> survey" where
  "parse_line now s line =
     (if starts_with line ''$GNGSA'' then parse_gsa s line
      else if starts_with line ''$GPGSV'' then parse_gsv s line 1
      else if starts_with line ''$GLGSV'' then parse_gsv s line 2
      else if starts_with line ''$GAGSV'' then parse_gsv s line 3
      else if starts_with line ''$GBGSV'' then parse_gsv s line 4
      else if sv_state s = SurveyCollecting \<and> starts_with line ''#BESTPOSA''
           then parse_best_position now s line
      else s)"

text \<open>The reader of one byte; a finished line is emitted.\<close>

definition line_step :: "line_reader \<Rightarrow> u8 \<Rightarrow> line_reader \<times> string list" where
  "line_step r b =
     (let byte = char8 b in
      if b = 10 then
        (let r = r\<lparr>ln_line := (ln_line r)[ln_len r := CHR 0x00]\<rparr>
         in (r\<lparr>ln_len := 0\<rparr>, [take (ln_len r) (ln_line r)]))
      else if b \<noteq> 13 then
        (if ln_len r < kMaxLine
         then (r\<lparr>ln_line := (ln_line r)[ln_len r := byte], ln_len := ln_len r + 1\<rparr>, [])
         else (r\<lparr>ln_len := 0\<rparr>, []))
      else (r, []))"

definition feed_byte :: "survey \<Rightarrow> time_us \<times> u8 \<Rightarrow> survey" where
  "feed_byte s x =
     (case x of (now, b) \<Rightarrow>
        let (r, lines) = line_step (sv_reader s) b
        in foldl (parse_line now) (s\<lparr>sv_reader := r\<rparr>) lines)"

definition survey_feed :: "survey \<Rightarrow> (time_us \<times> u8) list \<Rightarrow> survey" where
  "survey_feed s xs = foldl feed_byte s xs"

definition survey_start :: "survey \<Rightarrow> time_us \<Rightarrow> survey" where
  "survey_start s now =
     s\<lparr>sv_state := SurveyCollecting, sv_result := survey_result_init,
       sv_live := survey_snapshot_init\<lparr>ss_state := SurveyCollecting\<rparr>,
       sv_reader := (sv_reader s)\<lparr>ln_len := 0\<rparr>, sv_started_us := now,
       sv_completion_pending := False, sv_samples := 0,
       sv_lat := welford_init, sv_lon := welford_init, sv_height := welford_init,
       sv_block_index := -1, sv_block_samples := 0, sv_block_count := 0,
       sv_block_sum_lat := 0, sv_block_sum_lon := 0, sv_block_sum_height := 0,
       sv_block_lat := welford_init, sv_block_lon := welford_init, sv_block_height := welford_init,
       sv_satellite_list := [], sv_gsv_buffer := [], sv_gsv_system := 0\<rparr>"

definition survey_reset :: "survey \<Rightarrow> survey" where
  "survey_reset s =
     s\<lparr>sv_state := SurveyIdle, sv_result := survey_result_init, sv_live := survey_snapshot_init,
       sv_reader := (sv_reader s)\<lparr>ln_len := 0\<rparr>, sv_completion_pending := False,
       sv_satellite_list := [], sv_gsv_buffer := [], sv_gsv_system := 0\<rparr>"

definition survey_snapshot_of :: "survey \<Rightarrow> time_us \<Rightarrow> survey_snapshot" where
  "survey_snapshot_of s now =
     (let snap = (sv_live s)\<lparr>ss_state := sv_state s\<rparr>
      in if sv_state s = SurveyCollecting then snap\<lparr>ss_elapsed_sec := elapsed_sec s now\<rparr> else snap)"

definition take_completed_result :: "survey \<Rightarrow> survey \<times> survey_result option" where
  "take_completed_result s =
     (if \<not> sv_completion_pending s then (s, None)
      else (s\<lparr>sv_completion_pending := False\<rparr>, Some (sv_result s)))"

definition survey_satellites :: "survey \<Rightarrow> nat \<Rightarrow> satellite_info list" where
  "survey_satellites s capacity = take (min capacity (length (sv_satellite_list s))) (sv_satellite_list s)"

subsection \<open>The line reader\<close>

text \<open>What the reader holds is the text since the last line feed, cut at 512 characters.\<close>

definition line_inv :: "line_reader \<Rightarrow> bool" where
  "line_inv r \<longleftrightarrow> length (ln_line r) = kMaxLine + 1 \<and> ln_len r \<le> kMaxLine"

definition line_held :: "line_reader \<Rightarrow> string" where
  "line_held r = take (ln_len r) (ln_line r)"

definition line_spec :: "string \<Rightarrow> u8 \<Rightarrow> string \<times> string list" where
  "line_spec cs b =
     (if b = 10 then ([], [cs])
      else if b = 13 then (cs, [])
      else if length cs < kMaxLine then (cs @ [char8 b], [])
      else ([], []))"

lemma line_step_inv: "line_inv r \<Longrightarrow> line_inv (fst (line_step r b))"
  by (auto simp: line_inv_def line_step_def Let_def)

lemma line_step_spec:
  "line_inv r \<Longrightarrow> (line_held (fst (line_step r b)), snd (line_step r b)) = line_spec (line_held r) b"
  by (auto simp: line_inv_def line_step_def line_held_def line_spec_def Let_def take_list_update_Suc)

interpretation nmea: stream_machine line_step line_inv line_held line_spec
  by unfold_locales (auto intro: line_step_inv line_step_spec)

definition line_text :: "u8 list \<Rightarrow> bool" where
  "line_text bs \<longleftrightarrow> length bs \<le> kMaxLine \<and> (\<forall>b \<in> set bs. b \<noteq> 10 \<and> b \<noteq> 13)"

lemma spec_collects:
  "(\<forall>b \<in> set bs. b \<noteq> 10 \<and> b \<noteq> 13) \<Longrightarrow> length cs + length bs \<le> kMaxLine \<Longrightarrow>
   feed_all line_spec cs bs = (cs @ map char8 bs, [])"
  by (induction bs arbitrary: cs) (auto simp: line_spec_def Let_def)

lemma spec_line:
  "line_text bs \<Longrightarrow> feed_all line_spec [] (bs @ [13, 10]) = ([], [map char8 bs])"
  by (simp add: feed_all_append spec_collects line_text_def) (simp add: line_spec_def)

lemma spec_lines:
  "(\<forall>l \<in> set ls. line_text l) \<Longrightarrow>
   feed_all line_spec [] (concat (map (\<lambda>l. l @ [13, 10]) ls)) = ([], map (map char8) ls)"
proof (induction ls)
  case (Cons l ls)
  then show ?case
    using spec_line [of l] feed_all_append [of line_spec "[]" "l @ [13, 10]"]
    by simp
qed simp

subsection \<open>The running means under rounding\<close>

text \<open>
  A mean of values from \<open>lo\<close> to \<open>hi\<close>: representable, in the range, with a sum of squares
  that is not negative.
\<close>

definition welford_ok :: "real \<Rightarrow> real \<Rightarrow> nat \<Rightarrow> welford \<Rightarrow> bool" where
  "welford_ok lo hi n w \<longleftrightarrow>
     in_format 53 (-1022) (wf_mean w) \<and> lo \<le> wf_mean w \<and> wf_mean w \<le> hi \<and> 0 \<le> wf_m2 w \<and>
     (n = 0 \<longrightarrow> wf_mean w = 0)"

lemma mean_step_up:
  assumes "in_format 53 (-1022) v" "in_format 53 (-1022) m" "m \<le> v" "2 \<le> n"
  shows "fl64 (fl64 (v - m) / real n) \<le> v - m" "0 \<le> fl64 (fl64 (v - m) / real n)"
proof -
  have d: "0 \<le> fl64 (v - m)" using assms(3) by (simp add: fl_nonneg)
  have "in_format 53 (-1022) (v - m) \<or> 2 powi (-1022) \<le> v - m"
    using in_format_diff [OF assms(1,2)] assms(3) by fastforce
  then have "fl64 (fl64 (v - m) / 2) \<le> v - m" using assms(3) by (intro fl_half_le) auto
  moreover have "fl64 (fl64 (v - m) / real n) \<le> fl64 (fl64 (v - m) / 2)"
    by (intro fl_mono divide_left_mono) (use d assms(4) in auto)
  ultimately show "fl64 (fl64 (v - m) / real n) \<le> v - m" by linarith
  show "0 \<le> fl64 (fl64 (v - m) / real n)" using d by (simp add: fl_nonneg)
qed

lemma mean_between_up:
  assumes "in_format 53 (-1022) v" "in_format 53 (-1022) m" "m \<le> v" "2 \<le> n"
  shows "m \<le> fl64 (m + fl64 (fl64 (v - m) / real n))" "fl64 (m + fl64 (fl64 (v - m) / real n)) \<le> v"
  using mean_step_up [OF assms] assms
  by (auto intro!: fl_ge_bound fl_le_bound)

lemma mean_between_down:
  assumes "in_format 53 (-1022) v" "in_format 53 (-1022) m" "v \<le> m" "2 \<le> n"
  shows "v \<le> fl64 (m + fl64 (fl64 (v - m) / real n))" "fl64 (m + fl64 (fl64 (v - m) / real n)) \<le> m"
proof -
  have "fl64 (- m + fl64 (fl64 (- v - - m) / real n)) = - fl64 (m + fl64 (fl64 (v - m) / real n))"
    using fl_minus [of 53 "-1022" "v - m"] fl_minus [of 53 "-1022" "fl64 (v - m) / real n"]
      fl_minus [of 53 "-1022" "m + fl64 (fl64 (v - m) / real n)"]
    by (simp add: algebra_simps del: fl_minus)
  then show "v \<le> fl64 (m + fl64 (fl64 (v - m) / real n))" "fl64 (m + fl64 (fl64 (v - m) / real n)) \<le> m"
    using mean_between_up [of "- v" "- m" n] assms by auto
qed

lemma m2_step:
  assumes "(m \<le> m' \<and> m' \<le> v) \<or> (v \<le> m' \<and> m' \<le> m)" "0 \<le> q"
  shows "0 \<le> fl64 (q + fl64 (fl64 (v - m) * fl64 (v - m')))"
proof -
  have "0 \<le> fl64 (v - m) * fl64 (v - m')"
  proof (cases "m \<le> v")
    case True
    then have "0 \<le> fl64 (v - m)" "0 \<le> fl64 (v - m')" using assms(1) by (auto intro!: fl_nonneg)
    then show ?thesis by simp
  next
    case False
    then have "0 \<le> fl64 (- (v - m))" "0 \<le> fl64 (- (v - m'))"
      using assms(1) by (auto intro!: fl_nonneg simp del: fl_minus)
    then have "fl64 (v - m) \<le> 0" "fl64 (v - m') \<le> 0" by (simp_all del: minus_diff_eq)
    then show ?thesis by (rule mult_nonpos_nonpos)
  qed
  then show ?thesis using assms(2) by (simp add: fl_nonneg)
qed

lemma update_welford_mean:
  assumes "welford_ok lo hi n w" "in_format 53 (-1022) v"
  shows "(wf_mean w \<le> wf_mean (update_welford v (Suc n) w) \<and> wf_mean (update_welford v (Suc n) w) \<le> v) \<or>
         (v \<le> wf_mean (update_welford v (Suc n) w) \<and> wf_mean (update_welford v (Suc n) w) \<le> wf_mean w)"
proof (cases "n = 0")
  case True
  then have "wf_mean w = 0" using assms(1) by (simp add: welford_ok_def)
  then show ?thesis using True assms(2) fl_id [OF assms(2)]
    by (auto simp: update_welford_def Let_def)
next
  case False
  have "in_format 53 (-1022) (wf_mean w)" using assms(1) by (simp add: welford_ok_def)
  then show ?thesis
    using mean_between_up [OF assms(2), of "wf_mean w" "Suc n"]
      mean_between_down [OF assms(2), of "wf_mean w" "Suc n"] False
    by (cases "wf_mean w \<le> v") (auto simp: update_welford_def Let_def)
qed

lemma update_welford_ok [inv_intro]:
  assumes "welford_ok lo hi n w" "in_format 53 (-1022) v" "lo \<le> v" "v \<le> hi"
  shows "welford_ok lo hi (Suc n) (update_welford v (Suc n) w)"
proof -
  let ?w = "update_welford v (Suc n) w"
  note between = update_welford_mean [OF assms(1,2)]
  have "0 \<le> fl64 (wf_m2 w + fl64 (fl64 (v - wf_mean w) * fl64 (v - wf_mean ?w)))"
    using assms(1) by (intro m2_step [OF between]) (simp add: welford_ok_def)
  then have "0 \<le> wf_m2 ?w" by (simp add: update_welford_def Let_def)
  moreover have "in_format 53 (-1022) (wf_mean ?w)"
    by (simp add: update_welford_def Let_def fl_in_format)
  ultimately show ?thesis using between assms by (auto simp: welford_ok_def)
qed

subsection \<open>Block sums\<close>

definition sum_ok :: "int \<Rightarrow> int \<Rightarrow> nat \<Rightarrow> real \<Rightarrow> bool" where
  "sum_ok lo hi k acc \<longleftrightarrow> of_int (lo * int k) \<le> acc \<and> acc \<le> of_int (hi * int k)"

lemma in_format_mult:
  "\<bar>c\<bar> \<le> 20000 \<Longrightarrow> k < 2 ^ 31 \<Longrightarrow> in_format 53 (-1022) (of_int (c * int k))"
proof -
  assume "\<bar>c\<bar> \<le> 20000" "k < 2 ^ 31"
  then have "\<bar>c\<bar> * int k \<le> 20000 * 2 ^ 31" by (intro mult_mono) auto
  then have "\<bar>c * int k\<bar> \<le> 2 ^ 53" by (simp add: abs_mult)
  then show ?thesis by (intro in_format_of_int) auto
qed

lemma sum_ok_step:
  assumes "sum_ok lo hi k acc" "of_int lo \<le> v" "v \<le> of_int hi" "Suc k < 2 ^ 31"
    "\<bar>lo\<bar> \<le> 20000" "\<bar>hi\<bar> \<le> 20000"
  shows "sum_ok lo hi (Suc k) (fl64 (acc + v))"
proof -
  have "of_int (lo * int (Suc k)) \<le> acc + v" "acc + v \<le> of_int (hi * int (Suc k))"
    using assms(1-3) by (auto simp: sum_ok_def algebra_simps)
  then show ?thesis
    using in_format_mult [OF assms(5,4)] in_format_mult [OF assms(6,4)]
    unfolding sum_ok_def by (intro conjI fl_ge_bound fl_le_bound) auto
qed

lemma sum_ok_mean:
  assumes "sum_ok lo hi k acc" "0 < k" "\<bar>lo\<bar> \<le> 20000" "\<bar>hi\<bar> \<le> 20000"
  shows "of_int lo \<le> fl64 (acc / real k)" "fl64 (acc / real k) \<le> of_int hi"
  using assms in_format_of_int [of lo 53 "-1022"] in_format_of_int [of hi 53 "-1022"]
  by (auto simp: sum_ok_def field_simps intro!: fl_ge_bound fl_le_bound)

lemma sum_ok_0 [simp]: "sum_ok lo hi 0 0"
  by (simp add: sum_ok_def)

text \<open>One coordinate: the running mean, the mean of the block means, the open block.\<close>

definition axis_ok :: "int \<Rightarrow> int \<Rightarrow> nat \<Rightarrow> welford \<Rightarrow> nat \<Rightarrow> welford \<Rightarrow> nat \<Rightarrow> real \<Rightarrow> bool" where
  "axis_ok lo hi n w blocks bw k acc \<longleftrightarrow>
     welford_ok (of_int lo) (of_int hi) n w \<and> welford_ok (of_int lo) (of_int hi) blocks bw \<and>
     sum_ok lo hi k acc"

lemma welford_ok_init [simp]: "lo \<le> 0 \<Longrightarrow> 0 \<le> hi \<Longrightarrow> welford_ok lo hi 0 welford_init"
  using in_format_of_int [of 0 53 "-1022"] by (simp add: welford_ok_def welford_init_def)

lemma axis_ok_commit:
  assumes "axis_ok lo hi n w blocks bw k acc" "0 < k" "\<bar>lo\<bar> \<le> 20000" "\<bar>hi\<bar> \<le> 20000"
  shows "axis_ok lo hi n w (Suc blocks) (update_welford (fl64 (acc / real k)) (Suc blocks) bw) 0 0"
  using assms sum_ok_mean [of lo hi k acc]
  by (auto simp: axis_ok_def intro: update_welford_ok fl_in_format)

lemma axis_ok_sample:
  assumes "axis_ok lo hi n w blocks bw k acc" "of_int lo \<le> v" "v \<le> of_int hi"
    "in_format 53 (-1022) v"
  shows "axis_ok lo hi (Suc n) (update_welford v (Suc n) w) blocks bw k acc"
  using assms by (auto simp: axis_ok_def intro: update_welford_ok)

lemma axis_ok_add:
  assumes "axis_ok lo hi n w blocks bw k acc" "of_int lo \<le> v" "v \<le> of_int hi" "Suc k < 2 ^ 31"
    "\<bar>lo\<bar> \<le> 20000" "\<bar>hi\<bar> \<le> 20000"
  shows "axis_ok lo hi n w blocks bw (Suc k) (fl64 (acc + v))"
  using assms by (auto simp: axis_ok_def intro: sum_ok_step)

definition axes_ok :: "survey \<Rightarrow> bool" where
  "axes_ok s \<longleftrightarrow>
     axis_ok (-90) 90 (sv_samples s) (sv_lat s) (sv_block_count s) (sv_block_lat s)
       (sv_block_samples s) (sv_block_sum_lat s) \<and>
     axis_ok (-180) 180 (sv_samples s) (sv_lon s) (sv_block_count s) (sv_block_lon s)
       (sv_block_samples s) (sv_block_sum_lon s) \<and>
     axis_ok (-1000) 20000 (sv_samples s) (sv_height s) (sv_block_count s) (sv_block_height s)
       (sv_block_samples s) (sv_block_sum_height s)"

lemma axes_ok_commit: "axes_ok s \<Longrightarrow> axes_ok (commit_block s)"
  by (auto simp: axes_ok_def commit_block_def Let_def intro!: axis_ok_commit [simplified])

lemma commit_block_frame [frame_simps]:
  "sv_samples (commit_block s) = sv_samples s" "sv_block_samples (commit_block s) = 0"
  by (auto simp: commit_block_def Let_def)

lemma accumulate_position_samples [frame_simps]:
  "sv_samples (accumulate_position s e lat lon h) = Suc (sv_samples s)"
  "sv_block_samples (accumulate_position s e lat lon h) \<le> Suc (sv_block_samples s)"
  by (auto simp: accumulate_position_def Let_def frame_simps)

lemma axes_ok_accumulate:
  assumes ok: "axes_ok s" and le: "sv_block_samples s \<le> sv_samples s" "Suc (sv_samples s) < 2 ^ 31"
    and fmt: "in_format 53 (-1022) lat" "in_format 53 (-1022) lon" "in_format 53 (-1022) h"
    and range: "-90 \<le> lat" "lat \<le> 90" "-180 \<le> lon" "lon \<le> 180" "-1000 \<le> h" "h \<le> 20000"
  shows "axes_ok (accumulate_position s e lat lon h)"
proof -
  define n where "n = Suc (sv_samples s)"
  define s1 where "s1 = s\<lparr>sv_samples := n, sv_lat := update_welford lat n (sv_lat s),
    sv_lon := update_welford lon n (sv_lon s), sv_height := update_welford h n (sv_height s)\<rparr>"
  define nb where "nb = e div kSurveyBlockTimeSec"
  define s2 where "s2 = (if sv_block_index s1 = -1 then s1\<lparr>sv_block_index := nb\<rparr>
               else if sv_block_index s1 \<noteq> nb then (commit_block s1)\<lparr>sv_block_index := nb\<rparr> else s1)"
  have "axes_ok s1" using ok fmt range
    by (auto simp: axes_ok_def s1_def n_def intro!: axis_ok_sample)
  moreover have idx: "axes_ok (x\<lparr>sv_block_index := i\<rparr>) = axes_ok x" for x i by (simp add: axes_ok_def)
  ultimately have s2: "axes_ok s2" using axes_ok_commit [of s1] by (simp add: s2_def)
  have "sv_block_samples s1 = sv_block_samples s" by (simp add: s1_def)
  then have "sv_block_samples s2 \<le> sv_block_samples s" by (simp add: s2_def commit_block_frame)
  then have k: "Suc (sv_block_samples s2) < 2 ^ 31" using le by linarith
  have "accumulate_position s e lat lon h =
      s2\<lparr>sv_block_sum_lat := fl64 (sv_block_sum_lat s2 + lat),
         sv_block_sum_lon := fl64 (sv_block_sum_lon s2 + lon),
         sv_block_sum_height := fl64 (sv_block_sum_height s2 + h),
         sv_block_samples := Suc (sv_block_samples s2)\<rparr>"
    unfolding accumulate_position_def s2_def s1_def n_def nb_def Let_def by simp
  then show ?thesis using s2 k range
    by (auto simp: axes_ok_def intro!: axis_ok_add)
qed

subsection \<open>The invariant of the manager\<close>

definition satellite_ok :: "satellite_info \<Rightarrow> bool" where
  "satellite_ok i \<longleftrightarrow> unat (si_prn i) \<le> 999 \<and> unat (si_elevation i) \<le> 90 \<and>
     unat (si_azimuth i) \<le> 359 \<and> unat (si_snr i) \<le> 99"

definition result_ok :: "survey \<Rightarrow> survey_result \<Rightarrow> bool" where
  "result_ok s r \<longleftrightarrow>
     sr_lat r = wf_mean (sv_lat s) \<and> sr_lon r = wf_mean (sv_lon s) \<and>
     sr_height r = wf_mean (sv_height s) \<and> kSurveyMinTimeSec \<le> sr_elapsed_sec r \<and>
     kSurveyMinBlocks \<le> sv_block_count s \<and> ss_stability (sv_live s) \<le> kSurveyMaxStabilityM"

definition survey_inv :: "survey \<Rightarrow> bool" where
  "survey_inv s \<longleftrightarrow>
     line_inv (sv_reader s) \<and>
     length (sv_satellite_list s) \<le> kMaxSatellites \<and> length (sv_gsv_buffer s) \<le> kMaxGsvSatellites \<and>
     (\<forall>i \<in> set (sv_satellite_list s) \<union> set (sv_gsv_buffer s). satellite_ok i) \<and>
     (\<forall>i \<in> set (sv_gsv_buffer s). si_system i = sv_gsv_system s) \<and>
     sv_block_samples s \<le> sv_samples s \<and> (sv_samples s < 2 ^ 31 \<longrightarrow> axes_ok s) \<and>
     (sv_completion_pending s \<longrightarrow> sv_state s = SurveyDone) \<and>
     (sv_state s = SurveyDone \<longrightarrow> result_ok s (sv_result s))"

lemma axes_ok_init: "sv_samples s = 0 \<Longrightarrow> sv_block_count s = 0 \<Longrightarrow> sv_block_samples s = 0 \<Longrightarrow>
  sv_block_sum_lat s = 0 \<Longrightarrow> sv_block_sum_lon s = 0 \<Longrightarrow> sv_block_sum_height s = 0 \<Longrightarrow>
  sv_lat s = welford_init \<Longrightarrow> sv_lon s = welford_init \<Longrightarrow> sv_height s = welford_init \<Longrightarrow>
  sv_block_lat s = welford_init \<Longrightarrow> sv_block_lon s = welford_init \<Longrightarrow>
  sv_block_height s = welford_init \<Longrightarrow> axes_ok s"
  by (simp add: axes_ok_def axis_ok_def)

lemma survey_inv_init: "survey_inv survey_init"
  by (simp add: survey_inv_def line_inv_def axes_ok_init survey_init_def)

lemma survey_inv_start: "survey_inv s \<Longrightarrow> survey_inv (survey_start s now)"
  by (simp add: survey_inv_def line_inv_def axes_ok_init survey_start_def)

lemma survey_inv_reset: "survey_inv s \<Longrightarrow> survey_inv (survey_reset s)"
  by (simp add: survey_inv_def line_inv_def survey_reset_def axes_ok_def)

lemma survey_inv_take: "survey_inv s \<Longrightarrow> survey_inv (fst (take_completed_result s))"
  by (simp add: survey_inv_def take_completed_result_def axes_ok_def result_ok_def)

lemma axes_ok_frame [simp]:
  "axes_ok (s\<lparr>sv_live := live\<rparr>) = axes_ok s" "axes_ok (s\<lparr>sv_reader := r\<rparr>) = axes_ok s"
  "axes_ok (s\<lparr>sv_gsv_buffer := g\<rparr>) = axes_ok s" "axes_ok (s\<lparr>sv_gsv_system := y\<rparr>) = axes_ok s"
  "axes_ok (s\<lparr>sv_satellite_list := l\<rparr>) = axes_ok s" "axes_ok (s\<lparr>sv_result := q\<rparr>) = axes_ok s"
  "axes_ok (s\<lparr>sv_state := t\<rparr>) = axes_ok s" "axes_ok (s\<lparr>sv_completion_pending := p\<rparr>) = axes_ok s"
  by (simp_all add: axes_ok_def)

lemma parse_gsa_inv: "survey_inv s \<Longrightarrow> survey_inv (parse_gsa s line)"
  by (auto simp: parse_gsa_def Let_def survey_inv_def result_ok_def split: option.splits)

lemma clamp_range: "lo \<le> hi \<Longrightarrow> lo \<le> clamp v lo hi \<and> clamp v lo hi \<le> hi"
  by (simp add: clamp_def)

lemma unat_clamp:
  assumes "h < 2 ^ LENGTH('a::len)"
  shows "unat (of_int (clamp v 0 (int h)) :: 'a word) \<le> h"
proof -
  have r: "0 \<le> clamp v 0 (int h)" "clamp v 0 (int h) \<le> int h" using clamp_range [of 0 "int h" v] by auto
  then obtain k where k: "clamp v 0 (int h) = int k" "k \<le> h" by (metis nonneg_int_cases of_nat_le_iff)
  then show ?thesis using assms by (simp add: unat_of_nat)
qed

lemma satellite_of_ok: "satellite_ok (satellite_of payload i prn e a y)"
  using unat_clamp [of 999, where 'a = 16] unat_clamp [of 359, where 'a = 16]
    unat_clamp [of 90, where 'a = 8] unat_clamp [of 99, where 'a = 8]
  by (auto simp: satellite_ok_def satellite_of_def split: option.splits)

lemma collect_gsv_inv:
  "length b \<le> kMaxGsvSatellites \<Longrightarrow> (\<forall>x \<in> set b. satellite_ok x \<and> Q (si_system x)) \<Longrightarrow> Q y \<Longrightarrow>
   length (collect_gsv p y i b) \<le> kMaxGsvSatellites \<and>
   (\<forall>x \<in> set (collect_gsv p y i b). satellite_ok x \<and> Q (si_system x))"
proof (induction p y i b rule: collect_gsv.induct)
  case (1 p y i b)
  have sys: "si_system (satellite_of p i k e a y) = y" for k e a by (simp add: satellite_of_def)
  show ?case
    using 1 by (subst (1 2) collect_gsv.simps)
      (auto simp: Let_def satellite_of_ok sys split: option.splits)
qed

lemma merge_length:
  "length xs \<le> k \<Longrightarrow> length (filter P xs) + min n (k - length (filter P xs)) \<le> k"
  using le_trans [OF length_filter_le [of P xs], of k] by simp

lemma parse_gsv_inv:
  assumes "survey_inv s" shows "survey_inv (parse_gsv s line y)"
proof -
  define p where "p = without_checksum line"
  have collect: "survey_inv (t\<lparr>sv_gsv_buffer := collect_gsv p y 4 (sv_gsv_buffer t)\<rparr>)"
    if "survey_inv t" "sv_gsv_system t = y" for t
    using that collect_gsv_inv [of "sv_gsv_buffer t" "\<lambda>z. z = y" y p 4]
    by (auto simp: survey_inv_def result_ok_def)
  have merge: "survey_inv (t\<lparr>sv_satellite_list :=
      filter (\<lambda>i. si_system i \<noteq> y) (sv_satellite_list t) @
      take (kMaxSatellites - length (filter (\<lambda>i. si_system i \<noteq> y) (sv_satellite_list t))) (sv_gsv_buffer t)\<rparr>)"
    if "survey_inv t" for t
    using that merge_length [of "sv_satellite_list t" kMaxSatellites]
    by (auto simp: survey_inv_def result_ok_def dest: in_set_takeD)
  have clear: "survey_inv (s\<lparr>sv_gsv_buffer := [], sv_gsv_system := y\<rparr>)"
    using assms by (simp add: survey_inv_def result_ok_def)
  have base: "survey_inv (if n = 1 \<or> y \<noteq> sv_gsv_system s then s\<lparr>sv_gsv_buffer := [], sv_gsv_system := y\<rparr> else s)"
    "sv_gsv_system (if n = 1 \<or> y \<noteq> sv_gsv_system s then s\<lparr>sv_gsv_buffer := [], sv_gsv_system := y\<rparr> else s) = y"
    for n :: int
    using assms clear by auto
  show ?thesis
    unfolding parse_gsv_def Let_def p_def [symmetric]
    using assms collect [OF base] merge [OF collect [OF base]]
    by (simp only: split: option.splits prod.splits if_split) blast
qed

lemma parse_double_format: "parse_double t = Some x \<Longrightarrow> in_format 53 (-1022) x"
  by (auto simp: parse_double_def double_range_def dest!: strtod_range
      split: if_splits option.splits c_double.splits)

lemma field_double_format: "field_double p i = Some x \<Longrightarrow> in_format 53 (-1022) x"
  by (auto simp: field_double_def dest: parse_double_format split: option.splits)

lemma accumulate_position_frame [frame_simps]:
  "sv_reader (accumulate_position s e lat lon h) = sv_reader s"
  "sv_satellite_list (accumulate_position s e lat lon h) = sv_satellite_list s"
  "sv_gsv_buffer (accumulate_position s e lat lon h) = sv_gsv_buffer s"
  "sv_completion_pending (accumulate_position s e lat lon h) = sv_completion_pending s"
  "sv_state (accumulate_position s e lat lon h) = sv_state s"
  "sv_live (accumulate_position s e lat lon h) = sv_live s"
  "sv_gsv_system (accumulate_position s e lat lon h) = sv_gsv_system s"
  by (auto simp: accumulate_position_def commit_block_def Let_def)

lemma complete_if_stable_inv:
  assumes "survey_inv s" "sv_state s = SurveyCollecting" "ss_stability (sv_live s) = snd (snd (snd errors))"
  shows "survey_inv (complete_if_stable s e errors)"
proof (cases errors)
  case (fields a b c d)
  then show ?thesis using assms
    by (auto simp: complete_if_stable_def survey_inv_def result_ok_def)
qed

lemma apply_position_inv:
  assumes inv: "survey_inv s" "sv_state s = SurveyCollecting"
    and fmt: "in_format 53 (-1022) lat" "in_format 53 (-1022) lon" "in_format 53 (-1022) h"
    and range: "position_in_range lat lon h a b c"
  shows "survey_inv (apply_position s now p lat lon h a b c)"
proof -
  let ?s = "accumulate_position s (elapsed_sec s now) lat lon h"
  have "axes_ok ?s" if "sv_samples ?s < 2 ^ 31"
    using that inv(1) fmt range
    by (intro axes_ok_accumulate) (auto simp: survey_inv_def frame_simps position_in_range_def)
  then have acc: "survey_inv ?s"
    using inv accumulate_position_samples [of s "elapsed_sec s now" lat lon h]
    by (auto simp: survey_inv_def accumulate_position_frame)
  have live: "survey_inv (?s\<lparr>sv_live := live\<rparr>)" for live
    using acc inv(2) by (simp add: survey_inv_def accumulate_position_frame)
  show ?thesis
    unfolding apply_position_def Let_def
    by (rule complete_if_stable_inv [OF live]) (simp_all add: accumulate_position_frame inv(2))
qed

lemma parse_best_position_inv:
  "survey_inv s \<Longrightarrow> sv_state s = SurveyCollecting \<Longrightarrow> survey_inv (parse_best_position now s line)"
  by (auto simp: parse_best_position_def Let_def split: list.splits option.splits
      intro!: apply_position_inv dest: field_double_format)

lemma parse_line_inv: "survey_inv s \<Longrightarrow> survey_inv (parse_line now s line)"
  by (simp add: parse_line_def parse_gsa_inv parse_gsv_inv parse_best_position_inv)

lemma feed_byte_inv:
  assumes "survey_inv s" shows "survey_inv (feed_byte s x)"
proof -
  have "survey_inv t \<Longrightarrow> survey_inv (foldl (parse_line now) t lines)" for t lines now
    by (induction lines arbitrary: t) (auto simp: parse_line_inv)
  moreover have "survey_inv (s\<lparr>sv_reader := fst (line_step (sv_reader s) b)\<rparr>)" for b
    using assms line_step_inv [of "sv_reader s" b] by (simp add: survey_inv_def result_ok_def)
  ultimately show ?thesis by (auto simp: feed_byte_def split: prod.splits) (metis fst_conv)
qed

lemma survey_feed_inv: "survey_inv s \<Longrightarrow> survey_inv (survey_feed s xs)"
  unfolding survey_feed_def by (induction xs arbitrary: s) (auto simp: feed_byte_inv)

text \<open>What the rest of the firmware does with the manager, in any order.\<close>

datatype survey_op =
    OpStart time_us
  | OpReset
  | OpFeed "(time_us \<times> u8) list"
  | OpTakeResult

fun survey_do :: "survey \<Rightarrow> survey_op \<Rightarrow> survey" where
  "survey_do s (OpStart now) = survey_start s now"
| "survey_do s OpReset = survey_reset s"
| "survey_do s (OpFeed xs) = survey_feed s xs"
| "survey_do s OpTakeResult = fst (take_completed_result s)"

definition survey_run :: "survey_op list \<Rightarrow> survey" where
  "survey_run ops = foldl survey_do survey_init ops"

lemma survey_run_inv: "survey_inv (survey_run ops)"
proof -
  have "survey_inv s \<Longrightarrow> survey_inv (survey_do s op)" for s op
    by (cases op) (auto simp: survey_inv_start survey_inv_reset survey_feed_inv survey_inv_take)
  then have "survey_inv s \<Longrightarrow> survey_inv (foldl survey_do s ops)" for s
    by (induction ops arbitrary: s) auto
  then show ?thesis by (simp add: survey_run_def survey_inv_init)
qed

subsection \<open>Properties\<close>

text \<open>
  Numerical safety of the survey in the rounded arithmetic: for any sequence of
  operations and any bytes from the receiver, as long as the sample counter has not left the
  range of \<open>int\<close>, each running mean stays inside the range accepted for its coordinate, also
  the means of the block means, and every sum of squares is non-negative (so that
  \<open>standard_error\<close> never takes the root of a negative number).
\<close>

theorem survey_means_in_range:
  assumes "sv_samples (survey_run ops) < 2 ^ 31"
  shows "let s = survey_run ops in
    -90 \<le> wf_mean (sv_lat s) \<and> wf_mean (sv_lat s) \<le> 90 \<and>
    -180 \<le> wf_mean (sv_lon s) \<and> wf_mean (sv_lon s) \<le> 180 \<and>
    -1000 \<le> wf_mean (sv_height s) \<and> wf_mean (sv_height s) \<le> 20000 \<and>
    -90 \<le> wf_mean (sv_block_lat s) \<and> wf_mean (sv_block_lat s) \<le> 90 \<and>
    -180 \<le> wf_mean (sv_block_lon s) \<and> wf_mean (sv_block_lon s) \<le> 180 \<and>
    -1000 \<le> wf_mean (sv_block_height s) \<and> wf_mean (sv_block_height s) \<le> 20000 \<and>
    0 \<le> wf_m2 (sv_lat s) \<and> 0 \<le> wf_m2 (sv_lon s) \<and> 0 \<le> wf_m2 (sv_height s) \<and>
    0 \<le> wf_m2 (sv_block_lat s) \<and> 0 \<le> wf_m2 (sv_block_lon s) \<and> 0 \<le> wf_m2 (sv_block_height s)"
  using survey_run_inv [of ops] assms
  by (simp add: survey_inv_def axes_ok_def axis_ok_def welford_ok_def)

text \<open>
  The satellite list a client gets never exceeds its capacity or the 64 entries of the
  array, and every entry is in the range the user interface relies on, whatever the receiver
  sent.
\<close>

theorem survey_satellites_bounded:
  "length (survey_satellites (survey_run ops) capacity) \<le> min capacity kMaxSatellites \<and>
   list_all (\<lambda>i. unat (si_prn i) \<le> 999 \<and> unat (si_elevation i) \<le> 90 \<and>
     unat (si_azimuth i) \<le> 359 \<and> unat (si_snr i) \<le> 99) (survey_satellites (survey_run ops) capacity)"
  using survey_run_inv [of ops]
  by (auto simp: survey_inv_def survey_satellites_def list_all_iff satellite_ok_def dest!: in_set_takeD)

lemma once_taken:
  assumes "\<not> sv_completion_pending s" "sv_state s \<noteq> SurveyCollecting" "\<not> (\<exists>now. op = OpStart now)"
  shows "\<not> sv_completion_pending (survey_do s op) \<and> sv_state (survey_do s op) \<noteq> SurveyCollecting"
proof -
  have gsv: "sv_completion_pending (parse_gsv t l y) = sv_completion_pending t \<and>
      sv_state (parse_gsv t l y) = sv_state t" for t l y
    by (auto simp: parse_gsv_def Let_def split: option.splits)
  have gsa: "sv_completion_pending (parse_gsa t l) = sv_completion_pending t \<and>
      sv_state (parse_gsa t l) = sv_state t" for t l
    by (auto simp: parse_gsa_def Let_def split: option.splits)
  define Q where "Q t \<longleftrightarrow> \<not> sv_completion_pending t \<and> sv_state t \<noteq> SurveyCollecting" for t :: survey
  have "Q t \<Longrightarrow> Q (parse_line now t l)" for now t l
    by (auto simp: Q_def parse_line_def gsv gsa)
  then have "Q t \<Longrightarrow> Q (foldl (parse_line now) t ls)" for now t ls
    by (induction ls arbitrary: t) auto
  moreover have "Q t \<Longrightarrow> Q (t\<lparr>sv_reader := r\<rparr>)" for t r by (simp add: Q_def)
  ultimately have "Q t \<Longrightarrow> Q (feed_byte t x)" for t x
    by (auto simp: feed_byte_def split: prod.splits)
  then have "Q t \<Longrightarrow> Q (survey_feed t xs)" for t xs
    unfolding survey_feed_def by (induction xs arbitrary: t) auto
  then show ?thesis using assms unfolding Q_def
    by (cases op) (auto simp: survey_reset_def take_completed_result_def)
qed

lemma once_taken_run:
  "\<not> sv_completion_pending s \<Longrightarrow> sv_state s \<noteq> SurveyCollecting \<Longrightarrow>
   list_all (\<lambda>op. \<forall>now. op \<noteq> OpStart now) ops \<Longrightarrow> \<not> sv_completion_pending (foldl survey_do s ops)"
  by (induction ops arbitrary: s) (auto dest: once_taken)

lemma taken_SomeD:
  assumes "take_completed_result s = (s', Some r)"
  shows "r = sv_result s" "s' = s\<lparr>sv_completion_pending := False\<rparr>" "sv_completion_pending s"
  using assms by (auto simp: take_completed_result_def split: if_splits)

text \<open>
  C8. A survey only completes when it is allowed to, and its result is delivered once: what
  \<open>take_completed_result\<close> hands out was computed after at least 300 seconds, from at least 5
  committed blocks, with a stability of at most 0.5 m, and is the running mean; and until
  the next \<open>start\<close> no later call hands out a result again, whatever arrives in between.
\<close>

theorem survey_completion:
  assumes "take_completed_result (survey_run ops) = (s', Some r)"
    and "list_all (\<lambda>op. \<forall>now. op \<noteq> OpStart now) later"
  shows "300 \<le> sr_elapsed_sec r \<and> 5 \<le> sv_block_count s' \<and> ss_stability (sv_live s') \<le> 1 / 2 \<and>
    sr_lat r = wf_mean (sv_lat s') \<and> sr_lon r = wf_mean (sv_lon s') \<and>
    sr_height r = wf_mean (sv_height s') \<and>
    snd (take_completed_result (foldl survey_do s' later)) = None"
proof -
  note t = taken_SomeD [OF assms(1)]
  then have st: "sv_state (survey_run ops) = SurveyDone" and res: "result_ok (survey_run ops) r"
    using survey_run_inv [of ops] by (auto simp: survey_inv_def)
  have "\<not> sv_completion_pending (foldl survey_do s' later)"
    using t st by (intro once_taken_run assms(2)) auto
  then show ?thesis using res t
    by (simp add: result_ok_def take_completed_result_def kSurveyMinTimeSec_def kSurveyMinBlocks_def
        kSurveyMaxStabilityM_def)
qed

lemma parse_gsa_reader: "parse_gsa (t\<lparr>sv_reader := r\<rparr>) l = (parse_gsa t l)\<lparr>sv_reader := r\<rparr>"
  by (simp add: parse_gsa_def Let_def split: option.splits)

lemma parse_gsv_reader: "parse_gsv (t\<lparr>sv_reader := r\<rparr>) l y = (parse_gsv t l y)\<lparr>sv_reader := r\<rparr>"
  by (simp add: parse_gsv_def Let_def split: option.splits)

lemma accumulate_position_reader:
  "accumulate_position (t\<lparr>sv_reader := r\<rparr>) e a b c = (accumulate_position t e a b c)\<lparr>sv_reader := r\<rparr>"
  by (simp add: accumulate_position_def commit_block_def Let_def)

lemma apply_position_reader:
  "apply_position (t\<lparr>sv_reader := r\<rparr>) now p a b c d e f = (apply_position t now p a b c d e f)\<lparr>sv_reader := r\<rparr>"
proof -
  have "block_errors (t\<lparr>sv_reader := r\<rparr>) x = block_errors t x" for t x
    by (simp add: block_errors_def)
  moreover have "complete_if_stable (x\<lparr>sv_reader := r, sv_live := l\<rparr>) e q =
      (complete_if_stable (x\<lparr>sv_live := l\<rparr>) e q)\<lparr>sv_reader := r\<rparr>" for x l e q
    by (simp add: complete_if_stable_def split: prod.splits)
  moreover have "elapsed_sec (t\<lparr>sv_reader := r\<rparr>) now = elapsed_sec t now" for t
    by (simp add: elapsed_sec_def)
  ultimately show ?thesis
    unfolding apply_position_def Let_def accumulate_position_reader by simp
qed

lemma parse_best_position_reader:
  "parse_best_position now (t\<lparr>sv_reader := r\<rparr>) l = (parse_best_position now t l)\<lparr>sv_reader := r\<rparr>"
proof (cases "dropWhile (\<lambda>c. c \<noteq> CHR '';'') l")
  case (Cons c rest)
  define p where "p = without_checksum rest"
  show ?thesis
    unfolding parse_best_position_def Cons list.case Let_def p_def [symmetric]
    by (cases "field_double p 2"; cases "field_double p 3"; cases "field_double p 4";
        cases "field_double p 7"; cases "field_double p 8"; cases "field_double p 9")
      (simp_all add: apply_position_reader)
next
  case Nil
  show ?thesis unfolding parse_best_position_def Nil by simp
qed

lemma parse_line_reader: "parse_line now (t\<lparr>sv_reader := r\<rparr>) l = (parse_line now t l)\<lparr>sv_reader := r\<rparr>"
  by (simp add: parse_line_def parse_gsa_reader parse_gsv_reader parse_best_position_reader)

text \<open>Feeding lines is parsing them one after the other.\<close>

lemma feed_all_fold:
  "foldl (\<lambda>s b. feed_byte s (now, b)) s bs =
     (let (r, lines) = feed_all line_step (sv_reader s) bs
      in foldl (parse_line now) (s\<lparr>sv_reader := r\<rparr>) lines)"
proof (induction bs arbitrary: s)
  case (Cons b bs)
  obtain r1 l1 where one: "line_step (sv_reader s) b = (r1, l1)" by (rule prod.exhaust)
  obtain r2 l2 where two: "feed_all line_step r1 bs = (r2, l2)" by (rule prod.exhaust)
  have commf: "foldl (parse_line now) (t\<lparr>sv_reader := r\<rparr>) ls = (foldl (parse_line now) t ls)\<lparr>sv_reader := r\<rparr>" for t r ls
    by (induction ls arbitrary: t) (simp_all add: parse_line_reader)
  have "sv_reader (foldl (parse_line now) (s\<lparr>sv_reader := r1\<rparr>) l1) = r1" unfolding commf by simp
  then show ?case
    using Cons.IH [of "foldl (parse_line now) (s\<lparr>sv_reader := r1\<rparr>) l1"]
    by (simp add: one two feed_byte_def commf)
qed simp

text \<open>
  The line reader loses, merges and invents no sentence: CR LF terminated lines of at
  most 512 bytes, fed byte by byte to a survey whose reader is empty, are parsed exactly
  once each, whole and in order.
\<close>

theorem survey_lines_delivered:
  assumes "ln_len (sv_reader (survey_run ops)) = 0" and "\<forall>l \<in> set ls. line_text l"
  shows "\<exists>r. ln_len r = 0 \<and>
    survey_feed (survey_run ops) (map (\<lambda>b. (now, b)) (concat (map (\<lambda>l. l @ [13, 10]) ls))) =
      foldl (parse_line now) ((survey_run ops)\<lparr>sv_reader := r\<rparr>) (map (map char8) ls)"
proof -
  let ?s = "survey_run ops" and ?bs = "concat (map (\<lambda>l. l @ [13, 10]) ls)"
  have inv: "line_inv (sv_reader ?s)" using survey_run_inv [of ops] by (simp add: survey_inv_def)
  obtain r lines where run: "feed_all line_step (sv_reader ?s) ?bs = (r, lines)" by (rule prod.exhaust)
  have "line_held (sv_reader ?s) = []" using assms(1) by (simp add: line_held_def)
  then have sim: "line_held r = [] \<and> lines = map (map char8) ls"
    using nmea.run_sim [OF inv, of ?bs] spec_lines [OF assms(2)] by (simp add: run)
  have "line_inv r" using nmea.run_inv [OF inv, of ?bs] by (simp add: run)
  then have "ln_len r = 0" using sim by (auto simp: line_held_def line_inv_def)
  moreover have "survey_feed ?s (map (\<lambda>b. (now, b)) ?bs) =
      foldl (parse_line now) (?s\<lparr>sv_reader := r\<rparr>) (map (map char8) ls)"
    using feed_all_fold [where s = ?s and bs = ?bs and now = now] run sim
    by (simp add: survey_feed_def foldl_map)
  ultimately show ?thesis by blast
qed

text \<open>
  The last message of a GSV group replaces the satellites of its constellation and leaves
  the others alone: afterwards the list holds the entries of the other systems, in their
  order, followed by the group that was collected (as far as 64 entries go), all of which
  belong to that system.
\<close>

theorem gsv_group_replaces_system:
  assumes "s = survey_run ops"
    and "csv_field (without_checksum line) 1 = Some m" and "csv_field (without_checksum line) 2 = Some n"
    and "parse_int n = parse_int m" and "1 \<le> parse_int m"
  shows "let others = filter (\<lambda>i. si_system i \<noteq> y) (sv_satellite_list s);
             group = sv_gsv_buffer (parse_gsv s line y)
    in sv_satellite_list (parse_gsv s line y) = others @ take (kMaxSatellites - length others) group \<and>
       list_all (\<lambda>i. si_system i = y) group"
proof -
  have "survey_inv (parse_gsv s line y)" using survey_run_inv [of ops] assms(1) by (simp add: parse_gsv_inv)
  then have "list_all (\<lambda>i. si_system i = sv_gsv_system (parse_gsv s line y)) (sv_gsv_buffer (parse_gsv s line y))"
    by (simp add: survey_inv_def list_all_iff)
  moreover have "sv_gsv_system (parse_gsv s line y) = y"
    using assms(2-5) by (simp add: parse_gsv_def Let_def)
  ultimately show ?thesis using assms(2-5) by (simp add: parse_gsv_def Let_def)
qed

subsection \<open>A completed survey\<close>

text \<open>
  A receiver that reports the same position once a minute: the statistics stay at zero, a
  block is committed each minute, and the sixth sentence completes the survey.
\<close>

definition still_line :: string where
  "still_line = ''#BESTPOSA;SOL_COMPUTED,x,0,0,0,x,x,0,0,0''"

definition still_payload :: string where
  "still_payload = ''SOL_COMPUTED,x,0,0,0,x,x,0,0,0''"

lemma double_overflow_pos [simp]: "0 < double_overflow"
  unfolding double_overflow_def by (rule powi2_pos)

lemma parse_double_zero: "parse_double ''0'' = Some 0"
  by (simp add: parse_double_def strtod_def Let_def c_str_def skip_space_def is_space_def scan_sign_def
      lower_def starts_with_def scan_magnitude_def is_digit_of_def digit_value_def scan_exponent_def
      digits_value_def rounded_result_def not_le)

lemma field_double_still:
  "field_double still_payload 2 = Some 0" "field_double still_payload 3 = Some 0"
  "field_double still_payload 4 = Some 0" "field_double still_payload 7 = Some 0"
  "field_double still_payload 8 = Some 0" "field_double still_payload 9 = Some 0"
  by (simp_all add: field_double_def still_payload_def csv_field.simps parse_double_zero)

lemma parse_still:
  assumes "sv_state s = SurveyCollecting"
  shows "parse_line now s still_line = apply_position s now still_payload 0 0 0 0 0 0"
proof -
  have "dropWhile (\<lambda>c. c \<noteq> CHR '';'') still_line = CHR '';'' # still_payload"
    by (simp add: still_line_def still_payload_def)
  moreover have "without_checksum still_payload = still_payload"
    by (simp add: still_payload_def without_checksum_def)
  moreover have "csv_field still_payload 0 = Some ''SOL_COMPUTED''"
    by (simp add: still_payload_def csv_field.simps)
  moreover have "position_in_range 0 0 0 0 0 0" by (simp add: position_in_range_def)
  ultimately have "parse_best_position now s still_line = apply_position s now still_payload 0 0 0 0 0 0"
    by (simp add: parse_best_position_def field_double_still)
  then show ?thesis using assms by (simp add: parse_line_def starts_with_def still_line_def)
qed

definition still :: "nat \<Rightarrow> survey \<Rightarrow> bool" where
  "still k s \<longleftrightarrow>
     sv_lat s = welford_init \<and> sv_lon s = welford_init \<and> sv_height s = welford_init \<and>
     sv_block_lat s = welford_init \<and> sv_block_lon s = welford_init \<and> sv_block_height s = welford_init \<and>
     sv_block_sum_lat s = 0 \<and> sv_block_sum_lon s = 0 \<and> sv_block_sum_height s = 0 \<and>
     sv_started_us s = 0 \<and> sv_block_index s = of_nat k \<and> 0 < sv_block_samples s \<and>
     sv_block_count s = k"

lemma update_welford_zero [simp]: "update_welford 0 n welford_init = welford_init"
  by (simp add: update_welford_def welford_init_def)

lemma still_accumulate:
  assumes "still k s" "k < 6"
  shows "still (Suc k) (accumulate_position s (of_nat (60 * Suc k)) 0 0 0)"
proof -
  have "k = 0 \<or> k = 1 \<or> k = 2 \<or> k = 3 \<or> k = 4 \<or> k = 5" using assms(2) by linarith
  then show ?thesis using assms(1)
    by (elim disjE)
      (simp_all add: still_def accumulate_position_def commit_block_def Let_def kSurveyBlockTimeSec_def)
qed

lemma still_errors: "still k s \<Longrightarrow> snd (snd (snd (block_errors s 0))) = (if 2 \<le> k then 0 else 9999)"
  by (simp add: block_errors_def still_def Let_def standard_error_def welford_init_def)

lemma still_apply:
  assumes "still k s" "sv_state s = SurveyCollecting" "k < 5"
  shows "still (Suc k) (apply_position s (60000000 * int (Suc k)) p 0 0 0 0 0 0) \<and>
    sv_state (apply_position s (60000000 * int (Suc k)) p 0 0 0 0 0 0) =
      (if k = 4 then SurveyDone else SurveyCollecting) \<and>
    sv_completion_pending (apply_position s (60000000 * int (Suc k)) p 0 0 0 0 0 0) =
      (k = 4 \<or> sv_completion_pending s)"
proof -
  define e :: u32 where "e = of_nat (60 * Suc k)"
  let ?a = "accumulate_position s e 0 0 0"
  have "sv_started_us s = 0" using assms(1) by (simp add: still_def)
  moreover have "60000000 * int (Suc k) div 1000000 = int (60 * Suc k)" by simp
  ultimately have el: "elapsed_sec s (60000000 * int (Suc k)) = e"
    unfolding elapsed_sec_def e_def by (metis diff_zero of_int_of_nat_eq)
  have a: "still (Suc k) ?a" using still_accumulate [OF assms(1)] assms(3) by (simp add: e_def)
  have live: "still j (t\<lparr>sv_live := l\<rparr>) = still j t" for j t l by (simp add: still_def)
  have fin: "still j (complete_if_stable t x errs) = still j t" for j t x errs
    by (simp add: still_def complete_if_stable_def split: prod.splits)
  have k: "k = 0 \<or> k = 1 \<or> k = 2 \<or> k = 3 \<or> k = 4" using assms(3) by linarith
  obtain q1 q2 q3 q4 where q: "block_errors ?a 0 = (q1, q2, q3, q4)" by (metis prod.exhaust)
  have q4: "q4 = (if 2 \<le> Suc k then 0 else 9999)" using still_errors [OF a] q by simp
  have cnt: "sv_block_count ?a = Suc k" using a by (simp add: still_def)
  have "kSurveyMinTimeSec \<le> e \<longleftrightarrow> k = 4"
    using k unfolding e_def by (elim disjE) (simp_all add: kSurveyMinTimeSec_def)
  then show ?thesis
    using a k q4 assms(2) unfolding apply_position_def Let_def el q fin live
    by (simp add: complete_if_stable_def accumulate_position_frame cnt kSurveyMinBlocks_def
        kSurveyMaxStabilityM_def fin live)
qed

definition still_ops :: "survey_op list" where
  "still_ops = OpStart 0 #
     map (\<lambda>k. OpFeed (map (\<lambda>b. (60000000 * int k, b)) (map byte8 still_line @ [13, 10]))) [0..<6]"

lemma byte8_line: "line_text (map byte8 still_line)"
proof -
  have "list_all (\<lambda>c. byte8 c \<noteq> 10 \<and> byte8 c \<noteq> 13) still_line"
    by (simp add: still_line_def byte8_def)
  then show ?thesis by (simp add: line_text_def list_all_iff still_line_def kMaxLine_def)
qed

lemma feed_still:
  assumes "line_inv (sv_reader s)" "ln_len (sv_reader s) = 0" "sv_state s = SurveyCollecting"
  shows "\<exists>r. line_inv r \<and> ln_len r = 0 \<and>
    survey_feed s (map (\<lambda>b. (now, b)) (map byte8 still_line @ [13, 10])) =
      (apply_position s now still_payload 0 0 0 0 0 0)\<lparr>sv_reader := r\<rparr>"
proof -
  let ?bs = "map byte8 still_line @ [13, 10]"
  obtain r lines where run: "feed_all line_step (sv_reader s) ?bs = (r, lines)" by (rule prod.exhaust)
  have "line_held (sv_reader s) = []" using assms(2) by (simp add: line_held_def)
  then have sim: "line_held r = [] \<and> lines = [still_line]"
    using nmea.run_sim [OF assms(1), of ?bs] spec_line [OF byte8_line]
    by (simp add: run comp_def)
  have inv: "line_inv r" using nmea.run_inv [OF assms(1), of ?bs] by (simp add: run)
  then have "ln_len r = 0" using sim by (auto simp: line_held_def line_inv_def)
  moreover have "survey_feed s (map (\<lambda>b. (now, b)) ?bs) =
      foldl (parse_line now) (s\<lparr>sv_reader := r\<rparr>) [still_line]"
    using feed_all_fold [where s = s and bs = ?bs and now = now] run sim
    unfolding survey_feed_def foldl_map by simp
  moreover have "foldl (parse_line now) (s\<lparr>sv_reader := r\<rparr>) [still_line] =
      (apply_position s now still_payload 0 0 0 0 0 0)\<lparr>sv_reader := r\<rparr>"
    using parse_still [OF assms(3)] by (simp add: parse_line_reader)
  ultimately show ?thesis using inv by auto
qed

lemma feed_still_step:
  assumes "line_inv (sv_reader s)" "ln_len (sv_reader s) = 0" "sv_state s = SurveyCollecting"
    and "still k s" "k < 5"
  shows "let t = survey_do s (OpFeed (map (\<lambda>b. (60000000 * int (Suc k), b)) (map byte8 still_line @ [13, 10])))
    in line_inv (sv_reader t) \<and> ln_len (sv_reader t) = 0 \<and> still (Suc k) t \<and>
       sv_state t = (if k = 4 then SurveyDone else SurveyCollecting) \<and>
       sv_completion_pending t = (k = 4 \<or> sv_completion_pending s)"
proof -
  obtain r where r: "line_inv r" "ln_len r = 0"
    "survey_feed s (map (\<lambda>b. (60000000 * int (Suc k), b)) (map byte8 still_line @ [13, 10])) =
      (apply_position s (60000000 * int (Suc k)) still_payload 0 0 0 0 0 0)\<lparr>sv_reader := r\<rparr>"
    using feed_still [OF assms(1-3)] by blast
  have frame: "still j (t\<lparr>sv_reader := r\<rparr>) = still j t" for j t by (simp add: still_def)
  show ?thesis
    unfolding survey_do.simps Let_def r(3) frame
    using still_apply [OF assms(4,3,5), of still_payload] r(1,2) by simp
qed

lemma still_completes: "sv_completion_pending (survey_run still_ops)"
proof -
  define feed where "feed k = OpFeed (map (\<lambda>b. (60000000 * int k, b)) (map byte8 still_line @ [13, 10]))" for k
  define ready where "ready k s \<longleftrightarrow> line_inv (sv_reader s) \<and> ln_len (sv_reader s) = 0 \<and> still k s \<and>
    sv_state s = SurveyCollecting" for k and s :: survey
  define s0 where "s0 = survey_start survey_init 0"
  obtain r where r: "line_inv r" "ln_len r = 0"
    "survey_feed s0 (map (\<lambda>b. (0, b)) (map byte8 still_line @ [13, 10])) =
      (apply_position s0 0 still_payload 0 0 0 0 0 0)\<lparr>sv_reader := r\<rparr>"
    using feed_still [of s0 0] by (auto simp: s0_def survey_start_def survey_init_def line_inv_def)
  have "ready 0 (survey_do s0 (feed 0))"
    unfolding ready_def feed_def survey_do.simps using r
    by (simp add: apply_position_def Let_def still_def accumulate_position_def elapsed_sec_def
        complete_if_stable_def block_errors_def s0_def survey_start_def survey_init_def
        kSurveyBlockTimeSec_def kSurveyMinTimeSec_def)
  moreover have next_ready: "ready (Suc k) (survey_do s (feed (Suc k)))" if "ready k s" "k < 4" for k s
    using feed_still_step [of s k] that by (simp add: ready_def feed_def Let_def)
  moreover have "sv_completion_pending (survey_do s (feed 5))" if "ready 4 s" for s
    using feed_still_step [of s 4] that by (simp add: ready_def feed_def Let_def)
  moreover have "survey_run still_ops = foldl survey_do s0 (map feed [0..<6])"
    unfolding survey_run_def still_ops_def s0_def feed_def [abs_def] by simp
  ultimately show ?thesis by (simp add: upt_rec numeral_eq_Suc)
qed

lemma survey_completion_witness:
  "\<exists>s' r. take_completed_result (survey_run still_ops) = (s', Some r) \<and> 300 \<le> sr_elapsed_sec r \<and>
     snd (take_completed_result (foldl survey_do s' [OpReset, OpTakeResult])) = None"
proof -
  define s' where "s' = (survey_run still_ops)\<lparr>sv_completion_pending := False\<rparr>"
  have "take_completed_result (survey_run still_ops) = (s', Some (sv_result (survey_run still_ops)))"
    using still_completes by (simp add: take_completed_result_def s'_def)
  with survey_completion [OF this, of "[OpReset, OpTakeResult]"] show ?thesis
    by (intro exI [of _ s'] exI [of _ "sv_result (survey_run still_ops)"]) simp
qed

lemma survey_means_in_range_witness: "-90 \<le> wf_mean (sv_lat (survey_run [OpStart 0, OpReset]))"
  using survey_means_in_range [of "[OpStart 0, OpReset]"]
  by (simp add: survey_run_def survey_start_def survey_reset_def Let_def)

lemma survey_lines_delivered_witness:
  "\<exists>r. ln_len r = 0 \<and>
    survey_feed (survey_run []) (map (\<lambda>b. (0, b)) (concat (map (\<lambda>l. l @ [13, 10]) [map byte8 still_line]))) =
      foldl (parse_line 0) ((survey_run [])\<lparr>sv_reader := r\<rparr>) (map (map char8) [map byte8 still_line])"
  by (rule survey_lines_delivered)
    (simp_all add: survey_run_def survey_init_def byte8_line)

lemma gsv_group_replaces_system_witness:
  "list_all (\<lambda>i. si_system i = 1) (sv_gsv_buffer (parse_gsv (survey_run []) ''$GPGSV,1,1,01,07,40,120,38*7A'' 1))"
proof -
  have f: "csv_field (without_checksum ''$GPGSV,1,1,01,07,40,120,38*7A'') 1 = Some ''1''"
    "csv_field (without_checksum ''$GPGSV,1,1,01,07,40,120,38*7A'') 2 = Some ''1''"
    by (simp_all add: without_checksum_def csv_field.simps)
  have "parse_int ''1'' = 1"
    by (simp add: parse_int_def without_checksum_def atoi_def c_str_def strtol10_def skip_space_def is_space_def
        scan_sign_def is_digit_of_def digit_value_def digits_value_def)
  then show ?thesis using gsv_group_replaces_system [OF refl f, of 1] by (simp add: Let_def)
qed

end
