(* ===== verification/Storage.thy ===== *)
theory Storage
  imports Float64
begin

text \<open>
  The settings store of \<open>main/storage.cpp\<close> over the NVS flash interface, which is a
  parameter: a record of the operations the class calls, on a flash state of any type. What
  the class relies on is stated as \<open>nvs_laws\<close>, the documented behaviour of those calls in
  terms of the value stored under each key.

  A \<open>double\<close> is its object representation, a \<open>u64\<close> (\<open>f64_value\<close> reads it).
\<close>

subsection \<open>The flash interface\<close>

text \<open>
  Getters give the value where the call returns \<open>ESP_OK\<close>. \<open>nvs_str_length\<close> is
  \<open>nvs_get_str\<close> with a null buffer; \<open>nvs_get_str\<close> and \<open>nvs_get_blob\<close> take the size of the
  caller's buffer and give the bytes written to it (a string with its terminator).
\<close>

record 'n nvs =
  nvs_open :: "string \<Rightarrow> 'n \<Rightarrow> esp_err \<times> 'n"
  nvs_get_u8 :: "'n \<Rightarrow> string \<Rightarrow> esp_err + u8"
  nvs_str_length :: "'n \<Rightarrow> string \<Rightarrow> esp_err + nat"
  nvs_get_str :: "'n \<Rightarrow> string \<Rightarrow> nat \<Rightarrow> esp_err + string"
  nvs_get_blob :: "'n \<Rightarrow> string \<Rightarrow> nat \<Rightarrow> esp_err + u8 list"
  nvs_set_u8 :: "'n \<Rightarrow> string \<Rightarrow> u8 \<Rightarrow> esp_err \<times> 'n"
  nvs_set_str :: "'n \<Rightarrow> string \<Rightarrow> string \<Rightarrow> esp_err \<times> 'n"
  nvs_set_blob :: "'n \<Rightarrow> string \<Rightarrow> u8 list \<Rightarrow> esp_err \<times> 'n"
  nvs_commit :: "'n \<Rightarrow> esp_err \<times> 'n"

datatype nvs_value = NvU8 u8 | NvStr string | NvBlob "u8 list"

definition nvs_laws :: "'n nvs \<Rightarrow> ('n \<Rightarrow> string \<Rightarrow> nvs_value option) \<Rightarrow> bool" where
  "nvs_laws ops cell \<longleftrightarrow>
     (\<forall>n k v. nvs_get_u8 ops n k = Inr v \<longleftrightarrow> cell n k = Some (NvU8 v)) \<and>
     (\<forall>n k l. nvs_str_length ops n k = Inr l \<longleftrightarrow> (\<exists>s. cell n k = Some (NvStr s) \<and> l = length s + 1)) \<and>
     (\<forall>n k s. cell n k = Some (NvStr s) \<longrightarrow> nvs_get_str ops n k (length s + 1) = Inr (s @ [CHR 0x00])) \<and>
     (\<forall>n k b c. nvs_get_blob ops n k c = Inr b \<longleftrightarrow> cell n k = Some (NvBlob b) \<and> length b \<le> c) \<and>
     (\<forall>n k v m. nvs_set_u8 ops n k v = (ESP_OK, m) \<longrightarrow> cell m = (cell n)(k \<mapsto> NvU8 v)) \<and>
     (\<forall>n k v m. nvs_set_str ops n k v = (ESP_OK, m) \<longrightarrow> cell m = (cell n)(k \<mapsto> NvStr v)) \<and>
     (\<forall>n k v m. nvs_set_blob ops n k v = (ESP_OK, m) \<longrightarrow> cell m = (cell n)(k \<mapsto> NvBlob v)) \<and>
     (\<forall>n m. nvs_commit ops n = (ESP_OK, m) \<longrightarrow> cell m = cell n)"

text \<open>
  What survives a loss of power: a written value is certain to be stored only once \<open>nvs_commit\<close>
  has returned \<open>ESP_OK\<close>. \<open>unsettled n\<close> are the keys whose value a restart may change; opening
  the namespace reads.
\<close>

definition restart_laws ::
  "'n nvs \<Rightarrow> ('n \<Rightarrow> string \<Rightarrow> nvs_value option) \<Rightarrow> ('n \<Rightarrow> string set) \<Rightarrow> ('n \<Rightarrow> 'n) \<Rightarrow> bool" where
  "restart_laws ops cell unsettled restart \<longleftrightarrow>
     (\<forall>n m. nvs_commit ops n = (ESP_OK, m) \<longrightarrow> unsettled m = {}) \<and>
     (\<forall>n k. k \<notin> unsettled n \<longrightarrow> cell (restart n) k = cell n k) \<and>
     (\<forall>name n m. nvs_open ops name n = (ESP_OK, m) \<longrightarrow> cell m = cell n)"

subsection \<open>Object representation of a double\<close>

definition le_bytes :: "nat \<Rightarrow> nat \<Rightarrow> u8 list" where
  "le_bytes n x = map (\<lambda>i. of_nat (x div 256 ^ i)) [0..<n]"

definition le_value :: "u8 list \<Rightarrow> nat" where
  "le_value bs = foldr (\<lambda>b a. unat b + 256 * a) bs 0"

definition f64_bytes :: "u64 \<Rightarrow> u8 list" where "f64_bytes w = le_bytes 8 (unat w)"
definition f64_of_bytes :: "u8 list \<Rightarrow> u64" where "f64_of_bytes bs = of_nat (le_value bs)"

lemma le_value_bytes: "le_value (le_bytes n x) = x mod 256 ^ n"
proof (induction n arbitrary: x)
  case (Suc n)
  have "le_bytes (Suc n) x = of_nat x # le_bytes n (x div 256)"
    by (simp add: le_bytes_def upt_conv_Cons map_Suc_upt [symmetric] comp_def div_mult2_eq del: upt_Suc)
  then have "le_value (le_bytes (Suc n) x) = x mod 256 + 256 * (x div 256 mod 256 ^ n)"
    using Suc.IH [of "x div 256"] by (simp add: le_value_def unat_of_nat)
  then show ?case by (simp add: mod_mult2_eq)
qed (simp add: le_value_def le_bytes_def)

lemma length_f64_bytes [simp]: "length (f64_bytes w) = 8"
  by (simp add: f64_bytes_def le_bytes_def)

lemma f64_bytes_inverse [simp]: "f64_of_bytes (f64_bytes w) = w"
proof -
  have "unat w < 2 ^ LENGTH(64)" by (rule unsigned_less)
  then show ?thesis by (simp add: f64_of_bytes_def f64_bytes_def le_value_bytes)
qed

subsection \<open>The class\<close>

record 'n storage =
  st_nvs :: 'n
  st_open :: bool

record base_position =
  bp_lat :: u64
  bp_lon :: u64
  bp_height :: u64
  bp_valid :: bool

record service_credentials =
  sc_mountpoint :: string
  sc_password :: string

record wifi_credentials =
  wc_ssid :: string
  wc_password :: string
  wc_valid :: bool

definition kNamespace :: string where "kNamespace = ''gps_base''"

definition storage_open :: "'n nvs \<Rightarrow> 'n storage \<Rightarrow> esp_err \<times> 'n storage" where
  "storage_open ops s =
     (if st_open s then (ESP_OK, s)
      else let (e, n) = nvs_open ops kNamespace (st_nvs s) in
        return_on_error (e, s\<lparr>st_nvs := n\<rparr>) (\<lambda>s. (ESP_OK, s\<lparr>st_open := True\<rparr>)))"

definition storage_close :: "'n storage \<Rightarrow> 'n storage" where
  "storage_close s = (if \<not> st_open s then s else s\<lparr>st_open := False\<rparr>)"

definition get_bool :: "'n nvs \<Rightarrow> 'n storage \<Rightarrow> string \<Rightarrow> bool \<Rightarrow> bool" where
  "get_bool ops s key default_value =
     (if \<not> st_open s then default_value
      else case nvs_get_u8 ops (st_nvs s) key of
             Inl _ \<Rightarrow> default_value
           | Inr v \<Rightarrow> v = 1)"

definition get_string :: "'n nvs \<Rightarrow> 'n storage \<Rightarrow> string \<Rightarrow> string" where
  "get_string ops s key =
     (if \<not> st_open s then []
      else case nvs_str_length ops (st_nvs s) key of
             Inl _ \<Rightarrow> []
           | Inr len \<Rightarrow>
               if len = 0 then []
               else (case nvs_get_str ops (st_nvs s) key len of
                       Inl _ \<Rightarrow> []
                     | Inr bytes \<Rightarrow> c_str bytes))"

definition get_double :: "'n nvs \<Rightarrow> 'n storage \<Rightarrow> string \<Rightarrow> u64 \<Rightarrow> u64" where
  "get_double ops s key default_value =
     (if \<not> st_open s then default_value
      else case nvs_get_blob ops (st_nvs s) key 8 of
             Inl _ \<Rightarrow> default_value
           | Inr bytes \<Rightarrow> if length bytes \<noteq> 8 then default_value else f64_of_bytes bytes)"

definition on_flash :: "'n storage \<Rightarrow> ('n \<Rightarrow> esp_err \<times> 'n) \<Rightarrow> esp_err \<times> 'n storage" where
  "on_flash s f =
     (if \<not> st_open s then (ESP_ERR_INVALID_STATE, s)
      else let (e, n) = f (st_nvs s) in (e, s\<lparr>st_nvs := n\<rparr>))"

definition set_bool :: "'n nvs \<Rightarrow> string \<Rightarrow> bool \<Rightarrow> 'n storage \<Rightarrow> esp_err \<times> 'n storage" where
  "set_bool ops key v s = on_flash s (\<lambda>n. nvs_set_u8 ops n key (if v then 1 else 0))"

definition set_string :: "'n nvs \<Rightarrow> string \<Rightarrow> string \<Rightarrow> 'n storage \<Rightarrow> esp_err \<times> 'n storage" where
  "set_string ops key v s = on_flash s (\<lambda>n. nvs_set_str ops n key (c_str v))"

definition set_double :: "'n nvs \<Rightarrow> string \<Rightarrow> u64 \<Rightarrow> 'n storage \<Rightarrow> esp_err \<times> 'n storage" where
  "set_double ops key v s = on_flash s (\<lambda>n. nvs_set_blob ops n key (f64_bytes v))"

definition storage_commit :: "'n nvs \<Rightarrow> 'n storage \<Rightarrow> esp_err \<times> 'n storage" where
  "storage_commit ops s = on_flash s (nvs_commit ops)"

text \<open>The setters of a save, each with \<open>ESP_RETURN_ON_ERROR\<close>, and the final commit.\<close>

fun save_all :: "'n nvs \<Rightarrow> ('n storage \<Rightarrow> esp_err \<times> 'n storage) list \<Rightarrow> 'n storage \<Rightarrow> esp_err \<times> 'n storage" where
  "save_all ops [] s = storage_commit ops s"
| "save_all ops (f # fs) s = return_on_error (f s) (save_all ops fs)"

definition service_key :: "string \<Rightarrow> string \<Rightarrow> string" where
  "service_key service suffix = service @ suffix"

definition load_position :: "'n nvs \<Rightarrow> 'n storage \<Rightarrow> base_position" where
  "load_position ops s =
     \<lparr>bp_lat = get_double ops s ''lat'' 0, bp_lon = get_double ops s ''lon'' 0,
      bp_height = get_double ops s ''hgt'' 0, bp_valid = get_bool ops s ''pos_valid'' False\<rparr>"

definition save_position :: "'n nvs \<Rightarrow> u64 \<Rightarrow> u64 \<Rightarrow> u64 \<Rightarrow> 'n storage \<Rightarrow> esp_err \<times> 'n storage" where
  "save_position ops lat lon height =
     save_all ops [set_double ops ''lat'' lat, set_double ops ''lon'' lon,
       set_double ops ''hgt'' height, set_bool ops ''pos_valid'' True]"

definition clear_position :: "'n nvs \<Rightarrow> 'n storage \<Rightarrow> esp_err \<times> 'n storage" where
  "clear_position ops = save_all ops [set_bool ops ''pos_valid'' False]"

definition admin_password_set :: "'n nvs \<Rightarrow> 'n storage \<Rightarrow> bool" where
  "admin_password_set ops s = get_bool ops s ''admin_set'' False"

definition admin_password :: "'n nvs \<Rightarrow> 'n storage \<Rightarrow> string" where
  "admin_password ops s = get_string ops s ''admin_pw''"

definition save_admin_password :: "'n nvs \<Rightarrow> string \<Rightarrow> 'n storage \<Rightarrow> esp_err \<times> 'n storage" where
  "save_admin_password ops password =
     save_all ops [set_string ops ''admin_pw'' password, set_bool ops ''admin_set'' True]"

definition load_service :: "'n nvs \<Rightarrow> 'n storage \<Rightarrow> string \<Rightarrow> service_credentials" where
  "load_service ops s service =
     \<lparr>sc_mountpoint = get_string ops s (service_key service ''_mp''),
      sc_password = get_string ops s (service_key service ''_pw'')\<rparr>"

definition save_service ::
  "'n nvs \<Rightarrow> string \<Rightarrow> service_credentials \<Rightarrow> 'n storage \<Rightarrow> esp_err \<times> 'n storage" where
  "save_service ops service credentials =
     save_all ops [set_string ops (service_key service ''_mp'') (sc_mountpoint credentials),
       set_string ops (service_key service ''_pw'') (sc_password credentials)]"

definition service_enabled :: "'n nvs \<Rightarrow> 'n storage \<Rightarrow> string \<Rightarrow> bool \<Rightarrow> bool" where
  "service_enabled ops s service default_value =
     get_bool ops s (service_key service ''_en'') default_value"

definition set_service_enabled :: "'n nvs \<Rightarrow> string \<Rightarrow> bool \<Rightarrow> 'n storage \<Rightarrow> esp_err \<times> 'n storage" where
  "set_service_enabled ops service enabled =
     save_all ops [set_bool ops (service_key service ''_en'') enabled]"

definition load_wifi :: "'n nvs \<Rightarrow> 'n storage \<Rightarrow> wifi_credentials" where
  "load_wifi ops s =
     (let ssid = get_string ops s ''wifi_ssid''; password = get_string ops s ''wifi_pw''
      in \<lparr>wc_ssid = ssid, wc_password = password, wc_valid = (ssid \<noteq> [])\<rparr>)"

definition save_wifi :: "'n nvs \<Rightarrow> wifi_credentials \<Rightarrow> 'n storage \<Rightarrow> esp_err \<times> 'n storage" where
  "save_wifi ops credentials =
     save_all ops [set_string ops ''wifi_ssid'' (wc_ssid credentials),
       set_string ops ''wifi_pw'' (wc_password credentials)]"

definition ap_password :: "'n nvs \<Rightarrow> 'n storage \<Rightarrow> string" where
  "ap_password ops s = get_string ops s ''ap_pw''"

definition save_ap_password :: "'n nvs \<Rightarrow> string \<Rightarrow> 'n storage \<Rightarrow> esp_err \<times> 'n storage" where
  "save_ap_password ops password = save_all ops [set_string ops ''ap_pw'' password]"

definition antenna_model :: "'n nvs \<Rightarrow> 'n storage \<Rightarrow> string" where
  "antenna_model ops s =
     (let m = get_string ops s ''ant_model'' in if m = [] then ''HXCGPS500'' else m)"

definition antenna_radome :: "'n nvs \<Rightarrow> 'n storage \<Rightarrow> string" where
  "antenna_radome ops s =
     (let r = get_string ops s ''ant_radome'' in if r = [] then ''NONE'' else r)"

definition antenna_height :: "'n nvs \<Rightarrow> 'n storage \<Rightarrow> u64" where
  "antenna_height ops s = get_double ops s ''ant_h'' 0"

definition save_antenna :: "'n nvs \<Rightarrow> string \<Rightarrow> string \<Rightarrow> u64 \<Rightarrow> 'n storage \<Rightarrow> esp_err \<times> 'n storage" where
  "save_antenna ops model radome height =
     save_all ops [set_string ops ''ant_model'' model, set_string ops ''ant_radome'' radome,
       set_double ops ''ant_h'' height]"

definition ntrip_streams_enabled :: "'n nvs \<Rightarrow> 'n storage \<Rightarrow> bool \<Rightarrow> bool" where
  "ntrip_streams_enabled ops s default_value = get_bool ops s ''ntrip_on'' default_value"

definition set_ntrip_streams_enabled :: "'n nvs \<Rightarrow> bool \<Rightarrow> 'n storage \<Rightarrow> esp_err \<times> 'n storage" where
  "set_ntrip_streams_enabled ops enabled = save_all ops [set_bool ops ''ntrip_on'' enabled]"

definition rinex_collection_enabled :: "'n nvs \<Rightarrow> 'n storage \<Rightarrow> bool \<Rightarrow> bool" where
  "rinex_collection_enabled ops s default_value = get_bool ops s ''rinex_on'' default_value"

definition set_rinex_collection_enabled :: "'n nvs \<Rightarrow> bool \<Rightarrow> 'n storage \<Rightarrow> esp_err \<times> 'n storage" where
  "set_rinex_collection_enabled ops enabled = save_all ops [set_bool ops ''rinex_on'' enabled]"

definition night_mode :: "'n nvs \<Rightarrow> 'n storage \<Rightarrow> bool \<Rightarrow> bool" where
  "night_mode ops s default_value = get_bool ops s ''night'' default_value"

definition set_night_mode :: "'n nvs \<Rightarrow> bool \<Rightarrow> 'n storage \<Rightarrow> esp_err \<times> 'n storage" where
  "set_night_mode ops night = save_all ops [set_bool ops ''night'' night]"

lemmas loaders = load_position_def admin_password_set_def admin_password_def load_service_def
  service_enabled_def load_wifi_def ap_password_def antenna_model_def antenna_radome_def
  antenna_height_def ntrip_streams_enabled_def rinex_collection_enabled_def night_mode_def

lemmas savers = save_position_def clear_position_def save_admin_password_def save_service_def
  set_service_enabled_def save_wifi_def save_ap_password_def save_antenna_def
  set_ntrip_streams_enabled_def set_rinex_collection_enabled_def set_night_mode_def

subsection \<open>What the operations do to the cells\<close>

lemma nvs_lawsD:
  assumes "nvs_laws ops cell"
  shows "nvs_get_u8 ops n k = Inr v \<longleftrightarrow> cell n k = Some (NvU8 v)"
    and "nvs_str_length ops n k = Inr l \<longleftrightarrow> (\<exists>s. cell n k = Some (NvStr s) \<and> l = length s + 1)"
    and "cell n k = Some (NvStr s) \<Longrightarrow> nvs_get_str ops n k (length s + 1) = Inr (s @ [CHR 0x00])"
    and "nvs_get_blob ops n k c = Inr b \<longleftrightarrow> cell n k = Some (NvBlob b) \<and> length b \<le> c"
    and "nvs_set_u8 ops n k v = (ESP_OK, m) \<Longrightarrow> cell m = (cell n)(k \<mapsto> NvU8 v)"
    and "nvs_set_str ops n k s = (ESP_OK, m) \<Longrightarrow> cell m = (cell n)(k \<mapsto> NvStr s)"
    and "nvs_set_blob ops n k b = (ESP_OK, m) \<Longrightarrow> cell m = (cell n)(k \<mapsto> NvBlob b)"
    and "nvs_commit ops n = (ESP_OK, m) \<Longrightarrow> cell m = cell n"
  by (use assms in \<open>(unfold nvs_laws_def, elim conjE, metis)+\<close>)

lemma c_str_append_nul [simp]: "c_str (s @ [CHR 0x00]) = c_str s"
  unfolding c_str_def by (induction s) auto

lemma get_bool_cell:
  assumes "nvs_laws ops cell" "st_open s"
  shows "get_bool ops s k d = (case cell (st_nvs s) k of Some (NvU8 v) \<Rightarrow> v = 1 | _ \<Rightarrow> d)"
proof (cases "nvs_get_u8 ops (st_nvs s) k")
  case (Inl e)
  then have "cell (st_nvs s) k \<noteq> Some (NvU8 v)" for v
    using nvs_lawsD(1) [OF assms(1), of "st_nvs s" k v] by simp
  then show ?thesis using Inl assms(2)
    by (auto simp: get_bool_def split: option.split nvs_value.split)
next
  case (Inr v)
  then show ?thesis using nvs_lawsD(1) [OF assms(1), of "st_nvs s" k v] assms(2)
    by (simp add: get_bool_def)
qed

lemma get_string_cell:
  assumes "nvs_laws ops cell" "st_open s"
  shows "get_string ops s k = (case cell (st_nvs s) k of Some (NvStr t) \<Rightarrow> c_str t | _ \<Rightarrow> [])"
proof (cases "\<exists>t. cell (st_nvs s) k = Some (NvStr t)")
  case True
  then obtain t where t: "cell (st_nvs s) k = Some (NvStr t)" ..
  then have "nvs_str_length ops (st_nvs s) k = Inr (length t + 1)"
    using nvs_lawsD(2) [OF assms(1)] by blast
  then show ?thesis using t nvs_lawsD(3) [OF assms(1) t] assms(2) by (simp add: get_string_def)
next
  case False
  then have "nvs_str_length ops (st_nvs s) k \<noteq> Inr l" for l using nvs_lawsD(2) [OF assms(1)] by blast
  then show ?thesis using False
    by (auto simp: get_string_def split: sum.splits option.splits nvs_value.splits)
qed

lemma get_double_cell:
  assumes "nvs_laws ops cell" "st_open s"
  shows "get_double ops s k d =
    (case cell (st_nvs s) k of Some (NvBlob b) \<Rightarrow> if length b = 8 then f64_of_bytes b else d | _ \<Rightarrow> d)"
proof (cases "nvs_get_blob ops (st_nvs s) k 8")
  case (Inl e)
  then have "cell (st_nvs s) k = Some (NvBlob b) \<Longrightarrow> \<not> length b \<le> 8" for b
    using nvs_lawsD(4) [OF assms(1), of "st_nvs s" k 8 b] by simp
  then show ?thesis using Inl assms(2)
    by (auto simp: get_double_def split: option.split nvs_value.split)
next
  case (Inr b)
  then show ?thesis using nvs_lawsD(4) [OF assms(1), of "st_nvs s" k 8 b] assms(2)
    by (simp add: get_double_def)
qed

lemma on_flash_OK:
  "on_flash s f = (ESP_OK, t) \<longleftrightarrow> st_open s \<and> (\<exists>n. f (st_nvs s) = (ESP_OK, n) \<and> t = s\<lparr>st_nvs := n\<rparr>)"
  by (auto simp: on_flash_def split: prod.splits)

lemma set_bool_OK:
  assumes "nvs_laws ops cell" "set_bool ops k v s = (ESP_OK, t)"
  shows "st_open s \<and> st_open t \<and> cell (st_nvs t) = (cell (st_nvs s))(k \<mapsto> NvU8 (if v then 1 else 0))"
  using assms(2) nvs_lawsD(5) [OF assms(1)] unfolding set_bool_def on_flash_OK
  by (auto split: if_splits)

lemma set_string_OK:
  assumes "nvs_laws ops cell" "set_string ops k v s = (ESP_OK, t)"
  shows "st_open s \<and> st_open t \<and> cell (st_nvs t) = (cell (st_nvs s))(k \<mapsto> NvStr (c_str v))"
  using assms(2) nvs_lawsD(6) [OF assms(1)] unfolding set_string_def on_flash_OK by auto

lemma set_double_OK:
  assumes "nvs_laws ops cell" "set_double ops k v s = (ESP_OK, t)"
  shows "st_open s \<and> st_open t \<and> cell (st_nvs t) = (cell (st_nvs s))(k \<mapsto> NvBlob (f64_bytes v))"
  using assms(2) nvs_lawsD(7) [OF assms(1)] unfolding set_double_def on_flash_OK by auto

text \<open>
  A setter writes one cell; a save that succeeds has written its cells in order and nothing
  else.
\<close>

definition writes :: "('n \<Rightarrow> string \<Rightarrow> nvs_value option) \<Rightarrow> ('n storage \<Rightarrow> esp_err \<times> 'n storage) \<Rightarrow>
    string \<times> nvs_value \<Rightarrow> bool" where
  "writes cell f w \<longleftrightarrow> (\<forall>s t. f s = (ESP_OK, t) \<longrightarrow>
     st_open s \<and> st_open t \<and> cell (st_nvs t) = (cell (st_nvs s))(fst w \<mapsto> snd w))"

lemma writes_setters:
  assumes "nvs_laws ops cell"
  shows "writes cell (set_bool ops k b) (k, NvU8 (if b then 1 else 0))"
    and "writes cell (set_string ops k v) (k, NvStr (c_str v))"
    and "writes cell (set_double ops k d) (k, NvBlob (f64_bytes d))"
  using set_bool_OK [OF assms] set_string_OK [OF assms] set_double_OK [OF assms]
  by (auto simp: writes_def)

lemma save_all_OK:
  assumes laws: "nvs_laws ops cell" and "list_all2 (writes cell) fs ws"
    and "save_all ops fs s = (ESP_OK, t)"
  shows "st_open t \<and> st_open s \<and> cell (st_nvs t) = (cell (st_nvs s)) ++ map_of (rev ws)"
  using assms(2,3)
proof (induction fs ws arbitrary: s rule: list_all2_induct)
  case Nil
  then show ?case using nvs_lawsD(8) [OF laws] by (auto simp: storage_commit_def on_flash_OK)
next
  case (Cons f fs w ws)
  obtain u where u: "f s = (ESP_OK, u)" "save_all ops fs u = (ESP_OK, t)"
    using Cons.prems by (auto simp: return_on_error_OK_iff)
  have "st_open s \<and> cell (st_nvs u) = (cell (st_nvs s))(fst w \<mapsto> snd w)"
    using Cons.hyps(1) u(1) unfolding writes_def by blast
  then show ?case using Cons.IH [OF u(2)] by (simp add: map_add_def fun_eq_iff split: option.splits)
qed

lemma save_all_closed:
  "\<not> st_open s \<Longrightarrow> list_all (\<lambda>f. f s = (ESP_ERR_INVALID_STATE, s)) fs \<Longrightarrow>
   save_all ops fs s = (ESP_ERR_INVALID_STATE, s)"
  by (cases fs) (simp_all add: storage_commit_def on_flash_def)

lemma setters_closed:
  "\<not> st_open s \<Longrightarrow> set_bool ops k b s = (ESP_ERR_INVALID_STATE, s)"
  "\<not> st_open s \<Longrightarrow> set_string ops k v s = (ESP_ERR_INVALID_STATE, s)"
  "\<not> st_open s \<Longrightarrow> set_double ops k d s = (ESP_ERR_INVALID_STATE, s)"
  by (simp_all add: set_bool_def set_string_def set_double_def on_flash_def)

text \<open>A save that returns \<open>ESP_OK\<close> has committed: the next start finds the same cells.\<close>

lemma save_all_settled:
  assumes "restart_laws ops cell unsettled restart" "save_all ops fs s = (ESP_OK, t)"
  shows "unsettled (st_nvs t) = {}"
  using assms(2)
proof (induction fs arbitrary: s)
  case Nil
  then show ?case using assms(1) by (auto simp: storage_commit_def on_flash_OK restart_laws_def)
qed (auto simp: return_on_error_OK_iff)

lemma after_restart:
  assumes "restart_laws ops cell unsettled restart" "unsettled (st_nvs t) = {}"
    "storage_open ops \<lparr>st_nvs = restart (st_nvs t), st_open = False\<rparr> = (ESP_OK, r)"
  shows "st_open r" "cell (st_nvs r) = cell (st_nvs t)"
proof -
  obtain e n where o: "nvs_open ops kNamespace (restart (st_nvs t)) = (e, n)" by (rule prod.exhaust)
  then have r: "e = ESP_OK" "r = \<lparr>st_nvs = n, st_open = True\<rparr>"
    using assms(3) by (auto simp: storage_open_def return_on_error_def split: if_splits)
  have "cell n = cell (restart (st_nvs t))" using assms(1) o r(1) by (auto simp: restart_laws_def)
  moreover have "cell (restart (st_nvs t)) = cell (st_nvs t)"
    using assms(1,2) by (simp add: restart_laws_def fun_eq_iff)
  ultimately show "st_open r" "cell (st_nvs r) = cell (st_nvs t)" by (simp_all add: r(2))
qed

text \<open>What the loaders give depends on the cells alone.\<close>

lemma loaders_cell:
  assumes "nvs_laws ops cell" "st_open s" "st_open t" "cell (st_nvs s) = cell (st_nvs t)"
  shows "get_bool ops s k d = get_bool ops t k d" "get_string ops s k = get_string ops t k"
    "get_double ops s k x = get_double ops t k x"
  using assms(2-4)
  by (simp_all add: get_bool_cell [OF assms(1)] get_string_cell [OF assms(1)] get_double_cell [OF assms(1)])

lemma load_position_cell:
  assumes "nvs_laws ops cell" "st_open s" "st_open t" "cell (st_nvs s) = cell (st_nvs t)"
  shows "load_position ops s = load_position ops t"
  using loaders_cell [OF assms] by (simp add: load_position_def)

lemma after_save:
  assumes "nvs_laws ops cell" "restart_laws ops cell unsettled restart" "save_all ops fs s = (ESP_OK, t)" "st_open t"
    "storage_open ops \<lparr>st_nvs = restart (st_nvs t), st_open = False\<rparr> = (ESP_OK, r)"
  shows "load_position ops r = load_position ops t"
  using after_restart [OF assms(2) save_all_settled [OF assms(2,3)] assms(5)]
  by (intro load_position_cell [OF assms(1) _ assms(4)])

lemma save_position_OK:
  assumes "nvs_laws ops cell" "save_position ops lat lon height s = (ESP_OK, t)"
  shows "st_open t" "st_open s" "cell (st_nvs t) = (cell (st_nvs s)) ++
    [''pos_valid'' \<mapsto> NvU8 1, ''hgt'' \<mapsto> NvBlob (f64_bytes height), ''lon'' \<mapsto> NvBlob (f64_bytes lon),
     ''lat'' \<mapsto> NvBlob (f64_bytes lat)]"
proof -
  have "list_all2 (writes cell) [set_double ops ''lat'' lat, set_double ops ''lon'' lon,
       set_double ops ''hgt'' height, set_bool ops ''pos_valid'' True]
     [(''lat'', NvBlob (f64_bytes lat)), (''lon'', NvBlob (f64_bytes lon)),
      (''hgt'', NvBlob (f64_bytes height)), (''pos_valid'', NvU8 1)]"
    using writes_setters(1) [OF assms(1), of _ True] writes_setters(3) [OF assms(1)] by simp
  from save_all_OK [OF assms(1) this] assms(2)
  show "st_open t" "st_open s" "cell (st_nvs t) = (cell (st_nvs s)) ++
    [''pos_valid'' \<mapsto> NvU8 1, ''hgt'' \<mapsto> NvBlob (f64_bytes height), ''lon'' \<mapsto> NvBlob (f64_bytes lon),
     ''lat'' \<mapsto> NvBlob (f64_bytes lat)]"
    by (auto simp: save_position_def fun_eq_iff)
qed

text \<open>What the next start reads back.\<close>

lemma load_saved_position:
  assumes "nvs_laws ops cell" "save_position ops lat lon height s = (ESP_OK, t)"
  shows "load_position ops t = \<lparr>bp_lat = lat, bp_lon = lon, bp_height = height, bp_valid = True\<rparr>"
  using save_position_OK [OF assms]
  by (simp add: load_position_def get_bool_cell [OF assms(1)] get_double_cell [OF assms(1)])

lemma clear_position_open:
  assumes "nvs_laws ops cell" "clear_position ops s = (ESP_OK, t)"
  shows "st_open t"
proof -
  have "list_all2 (writes cell) [set_bool ops ''pos_valid'' False] [(''pos_valid'', NvU8 0)]"
    using writes_setters(1) [OF assms(1), of _ False] by simp
  from save_all_OK [OF assms(1) this] assms(2) show ?thesis by (auto simp: clear_position_def)
qed

lemma load_cleared_position:
  assumes "nvs_laws ops cell" "clear_position ops s = (ESP_OK, t)"
  shows "\<not> bp_valid (load_position ops t)"
proof -
  have "list_all2 (writes cell) [set_bool ops ''pos_valid'' False] [(''pos_valid'', NvU8 0)]"
    using writes_setters(1) [OF assms(1), of _ False] by simp
  from save_all_OK [OF assms(1) this] assms(2)
  show ?thesis by (auto simp: clear_position_def load_position_def get_bool_cell [OF assms(1)])
qed

lemma save_service_OK:
  assumes "nvs_laws ops cell" "save_service ops svc c s = (ESP_OK, t)"
  shows "st_open t" "st_open s" "cell (st_nvs t) = (cell (st_nvs s))
    (service_key svc ''_mp'' \<mapsto> NvStr (c_str (sc_mountpoint c)),
     service_key svc ''_pw'' \<mapsto> NvStr (c_str (sc_password c)))"
proof -
  have "list_all2 (writes cell) [set_string ops (service_key svc ''_mp'') (sc_mountpoint c),
       set_string ops (service_key svc ''_pw'') (sc_password c)]
     [(service_key svc ''_mp'', NvStr (c_str (sc_mountpoint c))),
      (service_key svc ''_pw'', NvStr (c_str (sc_password c)))]"
    using writes_setters(2) [OF assms(1)] by simp
  from save_all_OK [OF assms(1) this] assms(2)
  show "st_open t" "st_open s" "cell (st_nvs t) = (cell (st_nvs s))
    (service_key svc ''_mp'' \<mapsto> NvStr (c_str (sc_mountpoint c)),
     service_key svc ''_pw'' \<mapsto> NvStr (c_str (sc_password c)))"
    by (auto simp: save_service_def fun_eq_iff)
qed

subsection \<open>Properties\<close>

text \<open>
  C10. A saved position comes back: on flash that keeps what a successful write stored, a
  \<open>save_position\<close> that returns \<open>ESP_OK\<close> makes \<open>load_position\<close> give exactly the same three
  doubles, bit for bit, marked valid - at once and also after a loss of power - and leaves
  every other setting (WiFi, hotspot, administration, antenna, NTRIP services, streams, raw
  collection, display) as it was before the save.
\<close>

theorem position_survives_save:
  assumes "nvs_laws ops cell" and "restart_laws ops cell unsettled restart"
    and "save_position ops lat lon height s = (ESP_OK, t)"
    and "storage_open ops \<lparr>st_nvs = restart (st_nvs t), st_open = False\<rparr> = (ESP_OK, r)"
    and "svc \<in> {''rtk2go'', ''onocoy'', ''rtkdata''}"
  shows "\<forall>u \<in> {t, r}.
    load_position ops u = \<lparr>bp_lat = lat, bp_lon = lon, bp_height = height, bp_valid = True\<rparr> \<and>
    load_wifi ops u = load_wifi ops s \<and> ap_password ops u = ap_password ops s \<and>
    admin_password_set ops u = admin_password_set ops s \<and> admin_password ops u = admin_password ops s \<and>
    antenna_model ops u = antenna_model ops s \<and> antenna_radome ops u = antenna_radome ops s \<and>
    antenna_height ops u = antenna_height ops s \<and>
    load_service ops u svc = load_service ops s svc \<and> service_enabled ops u svc d = service_enabled ops s svc d \<and>
    ntrip_streams_enabled ops u d = ntrip_streams_enabled ops s d \<and>
    rinex_collection_enabled ops u d = rinex_collection_enabled ops s d \<and> night_mode ops u d = night_mode ops s d"
proof -
  have u: "st_open u \<and> cell (st_nvs u) = cell (st_nvs t)" if "u \<in> {t, r}" for u
    using that save_position_OK(1) [OF assms(1,3)]
      after_restart [OF assms(2) save_all_settled [OF assms(2) assms(3) [unfolded save_position_def]] assms(4)] by auto
  show ?thesis using u save_position_OK(2,3) [OF assms(1,3)] assms(5)
    by (auto simp: loaders get_bool_cell [OF assms(1)] get_string_cell [OF assms(1)]
        get_double_cell [OF assms(1)] service_key_def)
qed

text \<open>
  Push service credentials: a successful \<open>save_service\<close> stores them (up to an embedded
  NUL) under keys of that service, every other service keeps its own credentials and enable
  flag, and the stored position and network settings are untouched.
\<close>

theorem service_credentials_isolated:
  assumes "nvs_laws ops cell" and "save_service ops svc c s = (ESP_OK, t)"
    and "svc \<in> {''rtk2go'', ''onocoy'', ''rtkdata''}" and "other \<in> {''rtk2go'', ''onocoy'', ''rtkdata''} - {svc}"
  shows "load_service ops t svc =
      \<lparr>sc_mountpoint = c_str (sc_mountpoint c), sc_password = c_str (sc_password c)\<rparr> \<and>
    load_service ops t other = load_service ops s other \<and>
    service_enabled ops t other d = service_enabled ops s other d \<and>
    service_enabled ops t svc d = service_enabled ops s svc d \<and>
    load_position ops t = load_position ops s \<and> load_wifi ops t = load_wifi ops s"
  using save_service_OK [OF assms(1,2)] assms(3,4)
  by (auto simp: loaders get_bool_cell [OF assms(1)] get_string_cell [OF assms(1)]
      get_double_cell [OF assms(1)] service_key_def Let_def)

text \<open>
  A store that is not open fails closed: every save returns \<open>ESP_ERR_INVALID_STATE\<close> and
  writes nothing, and the loaders give their defaults.
\<close>

theorem closed_storage_is_inert:
  assumes "\<not> st_open s"
  shows "save_position ops lat lon height s = (ESP_ERR_INVALID_STATE, s) \<and>
    clear_position ops s = (ESP_ERR_INVALID_STATE, s) \<and>
    save_admin_password ops p s = (ESP_ERR_INVALID_STATE, s) \<and>
    save_service ops svc c s = (ESP_ERR_INVALID_STATE, s) \<and>
    set_service_enabled ops svc b s = (ESP_ERR_INVALID_STATE, s) \<and>
    save_wifi ops w s = (ESP_ERR_INVALID_STATE, s) \<and>
    save_ap_password ops p s = (ESP_ERR_INVALID_STATE, s) \<and>
    save_antenna ops m r h s = (ESP_ERR_INVALID_STATE, s) \<and>
    set_ntrip_streams_enabled ops b s = (ESP_ERR_INVALID_STATE, s) \<and>
    set_rinex_collection_enabled ops b s = (ESP_ERR_INVALID_STATE, s) \<and>
    set_night_mode ops b s = (ESP_ERR_INVALID_STATE, s) \<and>
    \<not> bp_valid (load_position ops s) \<and> \<not> wc_valid (load_wifi ops s) \<and>
    antenna_model ops s = ''HXCGPS500'' \<and> antenna_radome ops s = ''NONE'' \<and>
    ntrip_streams_enabled ops s d = d \<and> rinex_collection_enabled ops s d = d"
  using assms
  by (simp add: savers loaders save_all_closed setters_closed get_bool_def get_string_def get_double_def)

subsection \<open>Flash in memory, for concrete runs\<close>

definition ram_nvs :: "(string \<Rightarrow> nvs_value option) nvs" where
  "ram_nvs = \<lparr>nvs_open = (\<lambda>_ n. (ESP_OK, n)),
     nvs_get_u8 = (\<lambda>n k. case n k of Some (NvU8 v) \<Rightarrow> Inr v | _ \<Rightarrow> Inl ESP_FAIL),
     nvs_str_length = (\<lambda>n k. case n k of Some (NvStr s) \<Rightarrow> Inr (length s + 1) | _ \<Rightarrow> Inl ESP_FAIL),
     nvs_get_str = (\<lambda>n k c. case n k of Some (NvStr s) \<Rightarrow> if length s < c then Inr (s @ [CHR 0x00]) else Inl ESP_FAIL | _ \<Rightarrow> Inl ESP_FAIL),
     nvs_get_blob = (\<lambda>n k c. case n k of Some (NvBlob b) \<Rightarrow> if length b \<le> c then Inr b else Inl ESP_FAIL | _ \<Rightarrow> Inl ESP_FAIL),
     nvs_set_u8 = (\<lambda>n k v. (ESP_OK, n(k \<mapsto> NvU8 v))),
     nvs_set_str = (\<lambda>n k v. (ESP_OK, n(k \<mapsto> NvStr v))),
     nvs_set_blob = (\<lambda>n k v. (ESP_OK, n(k \<mapsto> NvBlob v))),
     nvs_commit = (\<lambda>n. (ESP_OK, n))\<rparr>"

lemma ram_nvs_laws: "nvs_laws ram_nvs (\<lambda>n. n)"
  unfolding nvs_laws_def ram_nvs_def
  by (auto split: option.splits nvs_value.splits if_splits)

definition ram_storage :: "(string \<Rightarrow> nvs_value option) storage" where
  "ram_storage = \<lparr>st_nvs = Map.empty, st_open = True\<rparr>"

lemmas ram_run = ram_storage_def set_bool_def set_string_def set_double_def storage_commit_def on_flash_def

text \<open>Flash with a write buffer: what is read, and what a loss of power leaves.\<close>

definition buffered_nvs :: "((string \<Rightarrow> nvs_value option) \<times> (string \<Rightarrow> nvs_value option)) nvs" where
  "buffered_nvs = \<lparr>nvs_open = (\<lambda>_ n. (ESP_OK, n)),
     nvs_get_u8 = (\<lambda>n. nvs_get_u8 ram_nvs (fst n)), nvs_str_length = (\<lambda>n. nvs_str_length ram_nvs (fst n)),
     nvs_get_str = (\<lambda>n. nvs_get_str ram_nvs (fst n)), nvs_get_blob = (\<lambda>n. nvs_get_blob ram_nvs (fst n)),
     nvs_set_u8 = (\<lambda>n k v. (ESP_OK, (fst n)(k \<mapsto> NvU8 v), snd n)),
     nvs_set_str = (\<lambda>n k v. (ESP_OK, (fst n)(k \<mapsto> NvStr v), snd n)),
     nvs_set_blob = (\<lambda>n k v. (ESP_OK, (fst n)(k \<mapsto> NvBlob v), snd n)),
     nvs_commit = (\<lambda>n. (ESP_OK, fst n, fst n))\<rparr>"

lemma buffered_nvs_laws: "nvs_laws buffered_nvs fst"
  using ram_nvs_laws unfolding nvs_laws_def buffered_nvs_def by (auto simp: ram_nvs_def)

lemma buffered_restart_laws:
  "restart_laws buffered_nvs fst (\<lambda>n. {k. fst n k \<noteq> snd n k}) (\<lambda>n. (snd n, snd n))"
  by (auto simp: restart_laws_def buffered_nvs_def)

definition buffered_storage :: "((string \<Rightarrow> nvs_value option) \<times> (string \<Rightarrow> nvs_value option)) storage" where
  "buffered_storage = \<lparr>st_nvs = (Map.empty, Map.empty), st_open = True\<rparr>"

lemma position_survives_save_witness:
  "let t = snd (save_position buffered_nvs 1 2 3 buffered_storage);
       r = snd (storage_open buffered_nvs \<lparr>st_nvs = (snd (st_nvs t), snd (st_nvs t)), st_open = False\<rparr>)
   in load_position buffered_nvs r = \<lparr>bp_lat = 1, bp_lon = 2, bp_height = 3, bp_valid = True\<rparr>"
proof -
  let ?t = "snd (save_position buffered_nvs 1 2 3 buffered_storage)"
  let ?r = "snd (storage_open buffered_nvs \<lparr>st_nvs = (snd (st_nvs ?t), snd (st_nvs ?t)), st_open = False\<rparr>)"
  have t: "save_position buffered_nvs 1 2 3 buffered_storage = (ESP_OK, ?t)"
    by (simp add: save_position_def buffered_storage_def ram_run buffered_nvs_def)
  have r: "storage_open buffered_nvs \<lparr>st_nvs = (snd (st_nvs ?t), snd (st_nvs ?t)), st_open = False\<rparr> = (ESP_OK, ?r)"
    by (simp add: storage_open_def buffered_nvs_def)
  show ?thesis
    using position_survives_save [OF buffered_nvs_laws buffered_restart_laws t r, of "''rtk2go''"] by (simp add: Let_def)
qed

lemma service_credentials_isolated_witness:
  "let t = snd (save_service ram_nvs ''onocoy'' \<lparr>sc_mountpoint = ''BASE'', sc_password = ''pw''\<rparr> ram_storage)
   in sc_mountpoint (load_service ram_nvs t ''onocoy'') = ''BASE'' \<and>
      load_service ram_nvs t ''rtk2go'' = load_service ram_nvs ram_storage ''rtk2go''"
proof -
  let ?r = "save_service ram_nvs ''onocoy'' \<lparr>sc_mountpoint = ''BASE'', sc_password = ''pw''\<rparr> ram_storage"
  have "?r = (ESP_OK, snd ?r)"
    by (simp add: save_service_def ram_run ram_nvs_def)
  from service_credentials_isolated [OF ram_nvs_laws this, of "''rtk2go''"] show ?thesis
    by (simp add: Let_def c_str_def)
qed

lemma closed_storage_is_inert_witness:
  "set_night_mode ram_nvs True (storage_close ram_storage) = (ESP_ERR_INVALID_STATE, storage_close ram_storage)"
  using closed_storage_is_inert [of "storage_close ram_storage" ram_nvs]
  by (simp add: storage_close_def ram_storage_def)

end
