(* ===== verification/Um980.thy ===== *)
theory Um980
  imports CText
begin

text \<open>
  The receiver commands of \<open>main/um980.cpp\<close>. The UART driver is a parameter: the number of
  bytes a write accepted and the result of waiting for transmission, on a driver state of any
  type. \<open>vTaskDelay\<close> adds to the time the driver object has spent waiting. Coordinates are
  doubles by their representation.
\<close>

record 'u uart =
  uart_write_bytes :: "'u \<Rightarrow> string \<Rightarrow> int \<times> 'u"
  uart_wait_tx_done :: "'u \<Rightarrow> esp_err \<times> 'u"

record 'u um980 =
  um_uart :: 'u
  um_waited_ms :: nat

definition task_delay :: "nat \<Rightarrow> 'u um980 \<Rightarrow> 'u um980" where
  "task_delay ms s = s\<lparr>um_waited_ms := um_waited_ms s + ms\<rparr>"

definition kCommandDelay :: nat where "kCommandDelay = 200"
definition kCommandBuffer :: nat where "kCommandBuffer = 160"

definition command :: "'u uart \<Rightarrow> string \<Rightarrow> 'u um980 \<Rightarrow> esp_err \<times> 'u um980" where
  "command ops str s =
     (let line = c_str str in
      if line = [] then (ESP_ERR_INVALID_ARG, s)
      else
        let (n1, u1) = uart_write_bytes ops (um_uart s) line in
        if n1 \<noteq> int (length line) then (ESP_FAIL, s\<lparr>um_uart := u1\<rparr>)
        else
          let (n2, u2) = uart_write_bytes ops u1 crlf in
          if n2 \<noteq> 2 then (ESP_FAIL, s\<lparr>um_uart := u2\<rparr>)
          else
            let (e, u3) = uart_wait_tx_done ops u2 in
            return_on_error (e, s\<lparr>um_uart := u3\<rparr>) (\<lambda>s. (ESP_OK, task_delay kCommandDelay s)))"

text \<open>\<open>commandf\<close> of a formatted text: \<open>vsnprintf\<close> gives its full length.\<close>

definition commandf :: "'u uart \<Rightarrow> string \<Rightarrow> 'u um980 \<Rightarrow> esp_err \<times> 'u um980" where
  "commandf ops formatted s =
     (if kCommandBuffer \<le> length formatted then (ESP_ERR_INVALID_SIZE, s)
      else command ops formatted s)"

definition stop_output :: "'u uart \<Rightarrow> 'u um980 \<Rightarrow> esp_err \<times> 'u um980" where
  "stop_output ops s =
     return_on_error (command ops ''UNLOGALL COM2'' s) (command ops ''UNLOGALL COM3'')"

definition configure_satellite_output :: "'u uart \<Rightarrow> 'u um980 \<Rightarrow> esp_err \<times> 'u um980" where
  "configure_satellite_output ops s =
     return_on_error (command ops ''LOG COM2 GNGSA ONTIME 10'' s) (\<lambda>s.
     return_on_error (command ops ''LOG COM2 GPGSV ONTIME 10'' s) (\<lambda>s.
     return_on_error (command ops ''LOG COM2 GLGSV ONTIME 10'' s) (\<lambda>s.
     return_on_error (command ops ''LOG COM2 GAGSV ONTIME 10'' s) (\<lambda>s.
     command ops ''LOG COM2 GBGSV ONTIME 10'' s))))"

definition configure_survey_output :: "'u uart \<Rightarrow> 'u um980 \<Rightarrow> esp_err \<times> 'u um980" where
  "configure_survey_output ops s =
     return_on_error (stop_output ops s) (\<lambda>s.
     return_on_error (command ops ''LOG COM2 BESTPOSA ONTIME 5'' s) (\<lambda>s.
     configure_satellite_output ops s))"

definition configure_raw_output :: "'u uart \<Rightarrow> 'u um980 \<Rightarrow> esp_err \<times> 'u um980" where
  "configure_raw_output ops s =
     return_on_error (command ops ''UNLOGALL COM3'' s) (\<lambda>s.
     return_on_error (command ops ''LOG COM3 RANGEA ONTIME 30'' s) (\<lambda>s. (ESP_OK, s)))"

definition configure_signal_group :: "'u uart \<Rightarrow> 'u um980 \<Rightarrow> esp_err \<times> 'u um980" where
  "configure_signal_group ops s =
     return_on_error (command ops ''CONFIG SIGNALGROUP 2'' s) (\<lambda>s. (ESP_OK, task_delay 5000 s))"

definition kRtcmBasePositionRateSec :: int where "kRtcmBasePositionRateSec = 5"
definition kRtcmAntennaDescriptorRateSec :: int where "kRtcmAntennaDescriptorRateSec = 10"
definition kRtcmGpsRateSec :: int where "kRtcmGpsRateSec = 1"
definition kRtcmGlonassRateSec :: int where "kRtcmGlonassRateSec = 1"
definition kRtcmGalileoRateSec :: int where "kRtcmGalileoRateSec = 1"
definition kRtcmQzssRateSec :: int where "kRtcmQzssRateSec = 1"
definition kRtcmBeidouRateSec :: int where "kRtcmBeidouRateSec = 1"
definition kRtcmNavicRateSec :: int where "kRtcmNavicRateSec = 1"
definition kRtcmGlonassBiasRateSec :: int where "kRtcmGlonassBiasRateSec = 30"

lemmas rtcm_rates = kRtcmBasePositionRateSec_def kRtcmAntennaDescriptorRateSec_def kRtcmGpsRateSec_def
  kRtcmGlonassRateSec_def kRtcmGalileoRateSec_def kRtcmQzssRateSec_def kRtcmBeidouRateSec_def
  kRtcmNavicRateSec_def kRtcmGlonassBiasRateSec_def

definition log_line :: "string \<Rightarrow> int \<Rightarrow> string" where
  "log_line message rate = ''LOG COM3 '' @ message @ '' ONTIME '' @ dec_int rate"

definition antenna_line :: "string \<Rightarrow> string" where
  "antenna_line model =
     ''CONFIG BASEANTENNAMODEL '' @ [CHR 0x22] @ c_str model @ [CHR 0x22] @ '' a0001 0 USER''"

definition mode_base_line :: "u64 \<Rightarrow> u64 \<Rightarrow> u64 \<Rightarrow> string" where
  "mode_base_line lat lon height =
     ''MODE BASE '' @ fixed_f64 8 lat @ '' '' @ fixed_f64 8 lon @ '' '' @ fixed_f64 4 height"

definition configure_base ::
  "'u uart \<Rightarrow> u64 \<Rightarrow> u64 \<Rightarrow> u64 \<Rightarrow> string \<Rightarrow> 'u um980 \<Rightarrow> esp_err \<times> 'u um980" where
  "configure_base ops lat lon height antenna_model s =
     return_on_error (stop_output ops s) (\<lambda>s.
     return_on_error (command ops ''CONFIG UNDULATION AUTO'' s) (\<lambda>s.
     return_on_error (command ops ''CONFIG PVTALG MULTI'' s) (\<lambda>s.
     return_on_error (if antenna_model \<noteq> [] then commandf ops (antenna_line antenna_model) s
                      else (ESP_OK, s)) (\<lambda>s.
     return_on_error (commandf ops (mode_base_line lat lon height) s) (\<lambda>s.
     return_on_error (commandf ops (log_line ''RTCM1006'' kRtcmBasePositionRateSec) s) (\<lambda>s.
     return_on_error (commandf ops (log_line ''RTCM1033'' kRtcmAntennaDescriptorRateSec) s) (\<lambda>s.
     return_on_error (commandf ops (log_line ''RTCM1077'' kRtcmGpsRateSec) s) (\<lambda>s.
     return_on_error (commandf ops (log_line ''RTCM1087'' kRtcmGlonassRateSec) s) (\<lambda>s.
     return_on_error (commandf ops (log_line ''RTCM1097'' kRtcmGalileoRateSec) s) (\<lambda>s.
     return_on_error (commandf ops (log_line ''RTCM1117'' kRtcmQzssRateSec) s) (\<lambda>s.
     return_on_error (commandf ops (log_line ''RTCM1127'' kRtcmBeidouRateSec) s) (\<lambda>s.
     return_on_error (commandf ops (log_line ''RTCM1137'' kRtcmNavicRateSec) s) (\<lambda>s.
     return_on_error (commandf ops (log_line ''RTCM1230'' kRtcmGlonassBiasRateSec) s) (\<lambda>s.
     return_on_error (configure_satellite_output ops s) (\<lambda>s.
     return_on_error (command ops ''SAVECONFIG'' s) (\<lambda>s.
     (ESP_OK, s)))))))))))))))))"

subsection \<open>Configuration as a script\<close>

text \<open>The specification: a list of lines, sent in order until one fails.\<close>

fun run_script :: "'u uart \<Rightarrow> string list \<Rightarrow> 'u um980 \<Rightarrow> esp_err \<times> 'u um980" where
  "run_script ops [] s = (ESP_OK, s)"
| "run_script ops (l # ls) s = return_on_error (commandf ops l s) (run_script ops ls)"

definition satellite_script :: "string list" where
  "satellite_script = [''LOG COM2 GNGSA ONTIME 10'', ''LOG COM2 GPGSV ONTIME 10'',
     ''LOG COM2 GLGSV ONTIME 10'', ''LOG COM2 GAGSV ONTIME 10'', ''LOG COM2 GBGSV ONTIME 10'']"

definition rtcm_script :: "string list" where
  "rtcm_script = [''LOG COM3 RTCM1006 ONTIME 5'', ''LOG COM3 RTCM1033 ONTIME 10'',
     ''LOG COM3 RTCM1077 ONTIME 1'', ''LOG COM3 RTCM1087 ONTIME 1'', ''LOG COM3 RTCM1097 ONTIME 1'',
     ''LOG COM3 RTCM1117 ONTIME 1'', ''LOG COM3 RTCM1127 ONTIME 1'', ''LOG COM3 RTCM1137 ONTIME 1'',
     ''LOG COM3 RTCM1230 ONTIME 30'']"

definition base_script :: "u64 \<Rightarrow> u64 \<Rightarrow> u64 \<Rightarrow> string \<Rightarrow> string list" where
  "base_script lat lon height antenna_model =
     [''UNLOGALL COM2'', ''UNLOGALL COM3'', ''CONFIG UNDULATION AUTO'', ''CONFIG PVTALG MULTI''] @
     (if antenna_model = [] then [] else [antenna_line antenna_model]) @
     [mode_base_line lat lon height] @ rtcm_script @ satellite_script @ [''SAVECONFIG'']"

lemma return_on_error_assoc:
  "return_on_error (return_on_error r f) g = return_on_error r (\<lambda>s. return_on_error (f s) g)"
  by (cases r) (auto simp: return_on_error_def)

lemma return_on_error_OK [simp]: "return_on_error r (\<lambda>s. (ESP_OK, s)) = r"
  by (cases r) (auto simp: return_on_error_def)

lemma run_script_fun:
  "run_script ops [] = (\<lambda>s. (ESP_OK, s))"
  "run_script ops (l # ls) = (\<lambda>s. return_on_error (commandf ops l s) (run_script ops ls))"
  by (rule ext, simp)+

lemma run_script_append:
  "run_script ops (ls @ ms) = (\<lambda>s. return_on_error (run_script ops ls s) (run_script ops ms))"
proof (induction ls)
  case (Cons l ls)
  show ?case by (rule ext) (simp add: Cons return_on_error_assoc)
qed (simp add: fun_eq_iff)

lemma command_is_commandf: "length l < kCommandBuffer \<Longrightarrow> command ops l = commandf ops l"
  by (simp add: commandf_def fun_eq_iff)

lemma log_lines:
  "[log_line ''RTCM1006'' kRtcmBasePositionRateSec, log_line ''RTCM1033'' kRtcmAntennaDescriptorRateSec,
    log_line ''RTCM1077'' kRtcmGpsRateSec, log_line ''RTCM1087'' kRtcmGlonassRateSec,
    log_line ''RTCM1097'' kRtcmGalileoRateSec, log_line ''RTCM1117'' kRtcmQzssRateSec,
    log_line ''RTCM1127'' kRtcmBeidouRateSec, log_line ''RTCM1137'' kRtcmNavicRateSec,
    log_line ''RTCM1230'' kRtcmGlonassBiasRateSec] = rtcm_script"
  by (simp add: log_line_def rtcm_script_def rtcm_rates dec_int_def dec_nat.simps digit_char_def
      char_of_def bit_0)

lemma stop_output_script: "stop_output ops = run_script ops [''UNLOGALL COM2'', ''UNLOGALL COM3'']"
  by (simp add: stop_output_def command_is_commandf kCommandBuffer_def
      run_script_fun fun_eq_iff)

lemma satellite_output_script: "configure_satellite_output ops = run_script ops satellite_script"
  by (simp add: configure_satellite_output_def satellite_script_def command_is_commandf
      kCommandBuffer_def run_script_fun fun_eq_iff)

lemma rtcm_lines:
  "return_on_error (run_script ops rtcm_script s) k =
     return_on_error (commandf ops (log_line ''RTCM1006'' kRtcmBasePositionRateSec) s) (\<lambda>s.
     return_on_error (commandf ops (log_line ''RTCM1033'' kRtcmAntennaDescriptorRateSec) s) (\<lambda>s.
     return_on_error (commandf ops (log_line ''RTCM1077'' kRtcmGpsRateSec) s) (\<lambda>s.
     return_on_error (commandf ops (log_line ''RTCM1087'' kRtcmGlonassRateSec) s) (\<lambda>s.
     return_on_error (commandf ops (log_line ''RTCM1097'' kRtcmGalileoRateSec) s) (\<lambda>s.
     return_on_error (commandf ops (log_line ''RTCM1117'' kRtcmQzssRateSec) s) (\<lambda>s.
     return_on_error (commandf ops (log_line ''RTCM1127'' kRtcmBeidouRateSec) s) (\<lambda>s.
     return_on_error (commandf ops (log_line ''RTCM1137'' kRtcmNavicRateSec) s) (\<lambda>s.
     return_on_error (commandf ops (log_line ''RTCM1230'' kRtcmGlonassBiasRateSec) s) k))))))))"
  unfolding log_lines [symmetric] by (simp add: return_on_error_assoc run_script_fun)

lemma configure_base_script:
  "configure_base ops lat lon height model = run_script ops (base_script lat lon height model)"
proof
  fix s
  show "configure_base ops lat lon height model s = run_script ops (base_script lat lon height model) s"
  proof (cases "model = []")
    case True
    show ?thesis
      unfolding configure_base_def base_script_def rtcm_lines [symmetric] run_script_append
        satellite_output_script stop_output_script
      by (simp add: True return_on_error_assoc command_is_commandf kCommandBuffer_def run_script_fun)
  next
    case False
    show ?thesis
      unfolding configure_base_def base_script_def rtcm_lines [symmetric] run_script_append
        satellite_output_script stop_output_script
      by (simp add: False return_on_error_assoc command_is_commandf kCommandBuffer_def run_script_fun)
  qed
qed

subsection \<open>A reliable UART\<close>

text \<open>
  The documented behaviour of the driver when nothing fails: a write accepts and queues all
  its bytes, in order, and the wait succeeds. \<open>sent\<close> is what has gone out.
\<close>

definition uart_reliable :: "'u uart \<Rightarrow> ('u \<Rightarrow> string) \<Rightarrow> bool" where
  "uart_reliable ops sent \<longleftrightarrow>
     (\<forall>u s. fst (uart_write_bytes ops u s) = int (length s) \<and>
            sent (snd (uart_write_bytes ops u s)) = sent u @ s) \<and>
     (\<forall>u. fst (uart_wait_tx_done ops u) = ESP_OK \<and> sent (snd (uart_wait_tx_done ops u)) = sent u)"

definition sendable :: "string \<Rightarrow> bool" where
  "sendable l \<longleftrightarrow> c_str l \<noteq> [] \<and> length l < kCommandBuffer"

lemma commandf_reliable:
  assumes "uart_reliable ops sent" "sendable l"
  shows "\<exists>t. commandf ops l s = (ESP_OK, t) \<and> sent (um_uart t) = sent (um_uart s) @ c_str l @ crlf \<and>
    um_waited_ms t = um_waited_ms s + kCommandDelay"
proof -
  have w: "fst (uart_write_bytes ops u x) = int (length x)" "sent (snd (uart_write_bytes ops u x)) = sent u @ x"
    "fst (uart_wait_tx_done ops u) = ESP_OK" "sent (snd (uart_wait_tx_done ops u)) = sent u" for u x
    using assms(1) by (auto simp: uart_reliable_def)
  have "length crlf = 2" by (simp add: crlf_def)
  then show ?thesis using assms(2) w
    by (simp add: commandf_def command_def sendable_def Let_def case_prod_beta task_delay_def)
qed

lemma run_script_reliable:
  assumes "uart_reliable ops sent" "list_all sendable ls"
  shows "\<exists>t. run_script ops ls s = (ESP_OK, t) \<and>
    sent (um_uart t) = sent (um_uart s) @ concat (map (\<lambda>l. c_str l @ crlf) ls) \<and>
    um_waited_ms t = um_waited_ms s + kCommandDelay * length ls"
  using assms(2)
proof (induction ls arbitrary: s)
  case (Cons l ls)
  obtain t where t: "commandf ops l s = (ESP_OK, t)" "sent (um_uart t) = sent (um_uart s) @ c_str l @ crlf"
    "um_waited_ms t = um_waited_ms s + kCommandDelay"
    using commandf_reliable [OF assms(1)] Cons.prems by (metis list.pred_inject(2))
  from Cons.IH [of t] Cons.prems t show ?case by auto
qed simp

lemma run_script_error:
  assumes "run_script ops ls s = (e, t)" "e \<noteq> ESP_OK"
  shows "\<exists>before l after u. ls = before @ l # after \<and> run_script ops before s = (ESP_OK, u) \<and>
    commandf ops l u = (e, t)"
  using assms
proof (induction ls arbitrary: s)
  case (Cons l ls)
  obtain e1 u where u: "commandf ops l s = (e1, u)" by (rule prod.exhaust)
  show ?case
  proof (cases "e1 = ESP_OK")
    case True
    then have "run_script ops ls u = (e, t)" using Cons.prems(1) u by simp
    from Cons.IH [OF this Cons.prems(2)]
    obtain before l' after v where v: "ls = before @ l' # after"
      "run_script ops before u = (ESP_OK, v)" "commandf ops l' v = (e, t)" by blast
    then have "l # ls = (l # before) @ l' # after \<and> run_script ops (l # before) s = (ESP_OK, v)"
      using u True by simp
    then show ?thesis using v(3) by blast
  next
    case False
    then show ?thesis using Cons.prems u
      by (intro exI [of _ "[]"] exI [of _ l] exI [of _ ls] exI [of _ s]) auto
  qed
qed simp

subsection \<open>The printed coordinates\<close>

lemma takeWhile_digits:
  "list_all is_digit ds \<Longrightarrow> (rest = [] \<or> \<not> is_digit (hd rest)) \<Longrightarrow>
   takeWhile is_digit (ds @ rest) = ds \<and> dropWhile is_digit (ds @ rest) = rest"
  by (induction ds) (cases rest; auto)+

lemma dec_nat_all_digits: "list_all is_digit (dec_nat n)"
  using dec_nat_digits by (auto simp: list_all_iff)

lemma pad_left_digits:
  assumes "0 < n" "k < 10 ^ n"
  shows "list_all is_digit (pad_left (CHR ''0'') n (dec_nat k))" "length (pad_left (CHR ''0'') n (dec_nat k)) = n"
    "digits_value 10 (xs @ pad_left (CHR ''0'') n (dec_nat k)) = digits_value 10 xs * 10 ^ n + k"
proof -
  have "length (dec_nat k) \<le> n" using length_dec_nat [OF assms] .
  then show len: "length (pad_left (CHR ''0'') n (dec_nat k)) = n" by (simp add: pad_left_def)
  have "is_digit (CHR ''0'')" by (simp add: is_digit_of_def digit_value_def)
  then show "list_all is_digit (pad_left (CHR ''0'') n (dec_nat k))"
    using dec_nat_all_digits by (auto simp: pad_left_def list_all_iff)
  have "digits_value 10 (pad_left (CHR ''0'') n (dec_nat k)) = k"
    by (simp add: pad_left_def digits_value_append [of _ "replicate _ _"])
  then show "digits_value 10 (xs @ pad_left (CHR ''0'') n (dec_nat k)) = digits_value 10 xs * 10 ^ n + k"
    using len by (simp add: digits_value_append [of _ xs])
qed

lemma scan_fixed_magnitude:
  assumes "0 < n" "0 \<le> a" "rest = [] \<or> \<not> is_digit (hd rest) \<and> hd rest \<noteq> CHR ''e'' \<and> hd rest \<noteq> CHR ''E''"
  shows "scan_magnitude 10 10 1 (CHR ''e'') (CHR ''E'') (fixed_magnitude n a @ rest) =
    Some (real_of_int (rhe (a * 10 ^ n)) / 10 ^ n, rest)"
proof -
  define k where "k = nat (rhe (a * 10 ^ n))"
  define fp where "fp = pad_left (CHR ''0'') n (dec_nat (k mod 10 ^ n))"
  have "0 \<le> rhe (a * 10 ^ n)" using rhe_mono [of 0 "a * 10 ^ n"] rhe_of_int [of 0] assms(2) by simp
  then have k: "real_of_int (rhe (a * 10 ^ n)) = real k" by (simp add: k_def)
  have body: "fixed_magnitude n a = dec_nat (k div 10 ^ n) @ CHR ''.'' # fp"
    using assms(1) by (simp add: fixed_magnitude_def Let_def k_def fp_def)
  have fp: "list_all is_digit fp" "length fp = n"
    and val: "digits_value 10 (dec_nat (k div 10 ^ n) @ fp) = k"
    using pad_left_digits [OF assms(1), of "k mod 10 ^ n"] unfolding fp_def by (simp_all add: div_mult_mod_eq del: mult.commute)
  have "\<not> is_digit (CHR ''.'')" by (simp add: is_digit_of_def digit_value_def)
  then have ip: "takeWhile is_digit (dec_nat (k div 10 ^ n) @ CHR ''.'' # fp @ rest) = dec_nat (k div 10 ^ n)"
    "dropWhile is_digit (dec_nat (k div 10 ^ n) @ CHR ''.'' # fp @ rest) = CHR ''.'' # fp @ rest"
    using takeWhile_digits [OF dec_nat_all_digits, of "CHR ''.'' # fp @ rest"] by auto
  have fr: "takeWhile is_digit (fp @ rest) = fp" "dropWhile is_digit (fp @ rest) = rest"
    using takeWhile_digits [OF fp(1), of rest] assms(3) by auto
  have ex: "scan_exponent (CHR ''e'') (CHR ''E'') rest = (0, rest)"
    using assms(3) by (auto simp: scan_exponent_def split: list.splits)
  show ?thesis
    unfolding scan_magnitude_def body append_assoc append_Cons Let_def ip
    by (simp add: fr ex val fp(2) k power_int_minus field_simps)
qed

text \<open>The number a decimal text denotes: an optional minus sign and the scanned magnitude.\<close>

definition read_decimal :: "string \<Rightarrow> real option" where
  "read_decimal str =
     (let (neg, t) = scan_sign str
      in case scan_magnitude 10 10 1 (CHR ''e'') (CHR ''E'') t of
           Some (a, []) \<Rightarrow> Some (if neg then - a else a)
         | _ \<Rightarrow> None)"

lemma read_fixed:
  assumes "f64_finite w" "0 < n"
  shows "\<exists>y. read_decimal (fixed_f64 n w) = Some y \<and> \<bar>y - f64_value w\<bar> \<le> 1 / (2 * 10 ^ n)"
proof -
  define a where "a = \<bar>f64_value w\<bar>"
  define y where "y = real_of_int (rhe (a * 10 ^ n)) / 10 ^ n"
  have scan: "scan_magnitude 10 10 1 (CHR ''e'') (CHR ''E'') (fixed_magnitude n a) = Some (y, [])"
    using scan_fixed_magnitude [OF assms(2), of a "[]"] by (simp add: a_def y_def)
  have "\<bar>a * 10 ^ n - of_int (rhe (a * 10 ^ n))\<bar> \<le> 1 / 2" by (rule rhe_error)
  then have "\<bar>a * 10 ^ n - y * 10 ^ n\<bar> \<le> 1 / 2" by (simp add: y_def)
  then have "\<bar>a - y\<bar> * 10 ^ n \<le> 1 / 2" by (simp add: abs_mult flip: left_diff_distrib)
  then have err: "\<bar>y - a\<bar> \<le> 1 / (2 * 10 ^ n)" by (simp add: field_simps abs_minus_commute)
  have sgn: "f64_value w = (if f64_negative w then - a else a)"
    by (simp add: a_def f64_value_def Let_def)
  obtain c t where ct: "fixed_magnitude n a = c # t" "is_digit c"
    unfolding fixed_magnitude_def Let_def
    using dec_nat_all_digits [of "nat (rhe (a * 10 ^ n)) div 10 ^ n"]
    by (cases "dec_nat (nat (rhe (a * 10 ^ n)) div 10 ^ n)") auto
  have "c \<noteq> CHR ''-''" "c \<noteq> CHR ''+''" using ct(2) by (auto simp: is_digit_of_def digit_value_def)
  then have "scan_sign (fixed_f64 n w) = (f64_negative w, fixed_magnitude n a)"
    using assms(1) ct(1) by (simp add: fixed_f64_def Let_def a_def scan_sign_def)
  then show ?thesis using scan err sgn by (auto simp: read_decimal_def Let_def abs_minus_commute)
qed

subsection \<open>Properties\<close>

lemma fixed_line_sendable:
  "sendable (mode_base_line lat lon height) \<longleftrightarrow> length (mode_base_line lat lon height) < kCommandBuffer"
  by (simp add: sendable_def mode_base_line_def)

lemma base_script_sendable:
  assumes "length antenna_model \<le> 120" "length (mode_base_line lat lon height) < kCommandBuffer"
  shows "list_all sendable (base_script lat lon height antenna_model)"
proof -
  have "length (c_str antenna_model) \<le> 120"
    using length_takeWhile_le [of "\<lambda>c. c \<noteq> CHR 0x00" antenna_model] assms(1) by (simp add: c_str_def)
  then have "sendable (antenna_line antenna_model)"
    by (simp add: sendable_def antenna_line_def kCommandBuffer_def)
  moreover have "list_all sendable rtcm_script" "list_all sendable satellite_script"
    by (simp_all add: rtcm_script_def satellite_script_def sendable_def kCommandBuffer_def)
  ultimately show ?thesis using assms(2)
    by (simp add: base_script_def fixed_line_sendable) (simp add: sendable_def kCommandBuffer_def)
qed

text \<open>
  Configuring the base over a UART that works: the receiver gets exactly the documented
  script, in order, each line ended by CR LF: outputs stopped first, then geoid and
  algorithm, the antenna (when one is set), the position, the nine RTCM messages with their
  rates, the satellite sentences, and \<open>SAVECONFIG\<close> last; the call returns \<open>ESP_OK\<close> and paces
  the lines 200 ms apart.
\<close>

theorem configure_base_sends_script:
  assumes "uart_reliable ops sent" and "length antenna_model \<le> 120"
    and "length (mode_base_line lat lon height) < kCommandBuffer"
  shows "\<exists>t. configure_base ops lat lon height antenna_model s = (ESP_OK, t) \<and>
    sent (um_uart t) = sent (um_uart s) @
      concat (map (\<lambda>l. c_str l @ crlf) (base_script lat lon height antenna_model)) \<and>
    um_waited_ms t = um_waited_ms s + 200 * length (base_script lat lon height antenna_model)"
  using run_script_reliable [OF assms(1) base_script_sendable [OF assms(2,3)]]
  by (simp add: configure_base_script kCommandDelay_def)

text \<open>
  Configuring the base stops at the first line that fails: whatever the UART does, an
  error result is the error of some line of the script, after every earlier line succeeded,
  and nothing is sent after it; in particular \<open>SAVECONFIG\<close> is only sent when every other
  line was accepted.
\<close>

theorem configure_base_stops_at_error:
  assumes "configure_base ops lat lon height antenna_model s = (e, t)" and "e \<noteq> ESP_OK"
  shows "\<exists>before l after u. base_script lat lon height antenna_model = before @ l # after \<and>
    run_script ops before s = (ESP_OK, u) \<and> commandf ops l u = (e, t) \<and> ''SAVECONFIG'' \<notin> set before"
proof -
  obtain before l after u where b: "base_script lat lon height antenna_model = before @ l # after"
    "run_script ops before s = (ESP_OK, u)" "commandf ops l u = (e, t)"
    using run_script_error [of ops _ s e t] assms unfolding configure_base_script by blast
  define front where "front = [''UNLOGALL COM2'', ''UNLOGALL COM3'', ''CONFIG UNDULATION AUTO'', ''CONFIG PVTALG MULTI''] @
     (if antenna_model = [] then [] else [antenna_line antenna_model]) @
     [mode_base_line lat lon height] @ rtcm_script @ satellite_script"
  have split: "front @ [''SAVECONFIG''] = before @ l # after"
    using b(1) by (simp add: base_script_def front_def)
  then have "set before \<subseteq> set front"
    by (cases after rule: rev_cases) auto
  moreover have "''SAVECONFIG'' \<notin> set front"
    by (simp add: front_def antenna_line_def mode_base_line_def rtcm_script_def satellite_script_def)
  ultimately show ?thesis using b by blast
qed

text \<open>
  C30. The position the receiver reads back from the \<open>MODE BASE\<close> line is the one that was
  saved: each coordinate, read as a decimal number, is within half a unit of its last
  printed digit (5e-9 degrees, 5e-5 metres) of the double.
\<close>

theorem mode_base_coordinates_exact:
  assumes "f64_finite lat" and "f64_finite lon" and "f64_finite height"
  shows "\<exists>a b c. mode_base_line lat lon height = ''MODE BASE '' @ a @ '' '' @ b @ '' '' @ c \<and>
    (\<exists>y. read_decimal a = Some y \<and> \<bar>y - f64_value lat\<bar> \<le> 5 / 10 ^ 9) \<and>
    (\<exists>y. read_decimal b = Some y \<and> \<bar>y - f64_value lon\<bar> \<le> 5 / 10 ^ 9) \<and>
    (\<exists>y. read_decimal c = Some y \<and> \<bar>y - f64_value height\<bar> \<le> 5 / 10 ^ 5)"
  using read_fixed [OF assms(1), of 8] read_fixed [OF assms(2), of 8] read_fixed [OF assms(3), of 4]
  by (intro exI [of _ "fixed_f64 8 lat"] exI [of _ "fixed_f64 8 lon"] exI [of _ "fixed_f64 4 height"])
    (simp add: mode_base_line_def)

text \<open>A UART that records what is written.\<close>

definition wire :: "string uart" where
  "wire = \<lparr>uart_write_bytes = (\<lambda>u s. (int (length s), u @ s)), uart_wait_tx_done = (\<lambda>u. (ESP_OK, u))\<rparr>"

lemma wire_reliable: "uart_reliable wire (\<lambda>u. u)"
  by (simp add: uart_reliable_def wire_def)

text \<open>A UART whose transmit wait times out.\<close>

definition stuck_wire :: "string uart" where
  "stuck_wire = wire\<lparr>uart_wait_tx_done := (\<lambda>u. (ESP_ERR_TIMEOUT, u))\<rparr>"

lemma zero_representation: "f64_exponent 0 = 0" "f64_fraction 0 = 0" "\<not> f64_negative 0" "f64_finite 0"
  by (simp_all add: f64_exponent_def f64_fraction_def f64_negative_def f64_finite_def)

lemma f64_value_zero: "f64_value 0 = 0"
  unfolding f64_value_def Let_def by (simp only: zero_representation of_nat_0 mult_zero_left if_True if_False simp_thms)

lemma fixed_zero: "fixed_f64 8 0 = ''0.00000000''" "fixed_f64 4 0 = ''0.0000''"
proof -
  have r: "rhe 0 = 0" using rhe_of_int [of 0] by simp
  have k: "nat (rhe (\<bar>f64_value 0\<bar> * 10 ^ n)) = 0" for n by (simp add: f64_value_zero r)
  have d: "dec_nat 0 = ''0''" by (simp add: dec_nat.simps digit_char_def char_of_def bit_0)
  show "fixed_f64 8 0 = ''0.00000000''" "fixed_f64 4 0 = ''0.0000''"
    by (simp_all add: fixed_f64_def zero_representation fixed_magnitude_def Let_def f64_value_zero r d pad_left_def)
      (simp_all add: numeral_eq_Suc)
qed

lemma configure_base_sends_script_witness:
  "\<exists>t. configure_base wire 0 0 0 [] \<lparr>um_uart = [], um_waited_ms = 0\<rparr> = (ESP_OK, t) \<and>
    um_waited_ms t = 200 * length (base_script 0 0 0 [])"
  using configure_base_sends_script [OF wire_reliable, of "[]" 0 0 0 "\<lparr>um_uart = [], um_waited_ms = 0\<rparr>"]
  by (auto simp: mode_base_line_def fixed_zero kCommandBuffer_def)

lemma configure_base_stops_at_error_witness:
  "\<exists>before l after u. base_script 0 0 0 [] = before @ l # after \<and>
    run_script stuck_wire before \<lparr>um_uart = [], um_waited_ms = 0\<rparr> = (ESP_OK, u) \<and>
    commandf stuck_wire l u = (ESP_ERR_TIMEOUT,
      \<lparr>um_uart = ''UNLOGALL COM2'' @ crlf, um_waited_ms = 0\<rparr>) \<and> ''SAVECONFIG'' \<notin> set before"
proof -
  have "configure_base stuck_wire 0 0 0 [] \<lparr>um_uart = [], um_waited_ms = 0\<rparr> =
      (ESP_ERR_TIMEOUT, \<lparr>um_uart = ''UNLOGALL COM2'' @ crlf, um_waited_ms = 0\<rparr>)"
    by (simp add: configure_base_def stop_output_def command_def stuck_wire_def wire_def crlf_def)
  from configure_base_stops_at_error [OF this] show ?thesis by simp
qed

lemma mode_base_coordinates_exact_witness:
  "\<exists>a b c. mode_base_line 0 0 0 = ''MODE BASE '' @ a @ '' '' @ b @ '' '' @ c \<and>
    (\<exists>y. read_decimal a = Some y \<and> \<bar>y - f64_value 0\<bar> \<le> 5 / 10 ^ 9)"
  using mode_base_coordinates_exact [of 0 0 0] zero_representation(4) by blast

end
