(* ===== verification/RtosQueue.thy ===== *)
theory RtosQueue
  imports Prelude
begin

text \<open>
  The FreeRTOS queue and the lwIP socket calls that the network components use. Both are
  outside the repository: the calls are parameters (records of functions on a state of any
  type), and their documented behaviour is stated by \<open>queue_laws\<close> and \<open>net_laws\<close>, which the
  properties name as hypotheses. In-memory instances at the end serve concrete runs.
\<close>

subsection \<open>Queues\<close>

text \<open>
  \<open>xQueueSend\<close> and \<open>xQueueReceive\<close> without waiting (or after the wait timed out), and
  \<open>xQueueReset\<close>.
\<close>

record ('q, 'p) queue_ops =
  q_send :: "'p \<Rightarrow> 'q \<Rightarrow> bool \<times> 'q"
  q_receive :: "'q \<Rightarrow> 'p option \<times> 'q"
  q_reset :: "'q \<Rightarrow> 'q"

definition queue_laws :: "nat \<Rightarrow> ('q, 'p) queue_ops \<Rightarrow> ('q \<Rightarrow> 'p list) \<Rightarrow> bool" where
  "queue_laws depth qo contents \<longleftrightarrow>
     (\<forall>p q. if length (contents q) < depth
            then fst (q_send qo p q) \<and> contents (snd (q_send qo p q)) = contents q @ [p]
            else \<not> fst (q_send qo p q) \<and> contents (snd (q_send qo p q)) = contents q) \<and>
     (\<forall>q. case contents q of
            [] \<Rightarrow> fst (q_receive qo q) = None \<and> contents (snd (q_receive qo q)) = []
          | p # ps \<Rightarrow> fst (q_receive qo q) = Some p \<and> contents (snd (q_receive qo q)) = ps) \<and>
     (\<forall>q. contents (q_reset qo q) = [])"

lemma queue_send:
  assumes "queue_laws depth qo contents"
  shows "length (contents q) < depth \<Longrightarrow> fst (q_send qo p q) \<and> contents (snd (q_send qo p q)) = contents q @ [p]"
    and "depth \<le> length (contents q) \<Longrightarrow> \<not> fst (q_send qo p q) \<and> contents (snd (q_send qo p q)) = contents q"
  by (use assms in \<open>simp_all add: queue_laws_def not_less [symmetric]\<close>)

lemma queue_receive:
  assumes "queue_laws depth qo contents"
  shows "contents q = [] \<Longrightarrow> fst (q_receive qo q) = None \<and> contents (snd (q_receive qo q)) = []"
    and "contents q = p # ps \<Longrightarrow> fst (q_receive qo q) = Some p \<and> contents (snd (q_receive qo q)) = ps"
proof -
  have "case contents q of
            [] \<Rightarrow> fst (q_receive qo q) = None \<and> contents (snd (q_receive qo q)) = []
          | p # ps \<Rightarrow> fst (q_receive qo q) = Some p \<and> contents (snd (q_receive qo q)) = ps"
    using assms unfolding queue_laws_def by blast
  then show "contents q = [] \<Longrightarrow> fst (q_receive qo q) = None \<and> contents (snd (q_receive qo q)) = []"
    "contents q = p # ps \<Longrightarrow> fst (q_receive qo q) = Some p \<and> contents (snd (q_receive qo q)) = ps"
    by simp_all
qed

lemma queue_reset: "queue_laws depth qo contents \<Longrightarrow> contents (q_reset qo q) = []"
  by (simp add: queue_laws_def)

definition list_queue :: "nat \<Rightarrow> ('p list, 'p) queue_ops" where
  "list_queue depth = \<lparr>
     q_send = (\<lambda>p q. if length q < depth then (True, q @ [p]) else (False, q)),
     q_receive = (\<lambda>q. case q of [] \<Rightarrow> (None, []) | p # ps \<Rightarrow> (Some p, ps)),
     q_reset = (\<lambda>_. [])\<rparr>"

lemma list_queue_laws: "queue_laws depth (list_queue depth) (\<lambda>q. q)"
  by (auto simp: queue_laws_def list_queue_def split: list.splits)

subsection \<open>Sockets\<close>

datatype errno = EINTR | EAGAIN | EINPROGRESS | EOTHER int

datatype send_result = Sent nat | SendFailed errno
datatype select_result = SelectReady | SelectTimeout | SelectFailed errno
datatype recv_result = Received "u8 list" | RecvFailed errno

text \<open>
  A socket is an \<open>int\<close>, negative for none. \<open>net_close\<close> takes whether the close is abortive
  (\<open>SO_LINGER\<close> with a zero timeout). \<open>net_accept\<close> gives the socket, whether the peer address is
  IPv4, and that address.
\<close>

record 'k net =
  net_socket :: "'k \<Rightarrow> int \<times> 'k"
  net_bind :: "int \<Rightarrow> u16 \<Rightarrow> 'k \<Rightarrow> int \<times> 'k"
  net_listen :: "int \<Rightarrow> nat \<Rightarrow> 'k \<Rightarrow> int \<times> 'k"
  net_accept :: "int \<Rightarrow> 'k \<Rightarrow> (int \<times> bool \<times> u32) \<times> 'k"
  net_recv :: "int \<Rightarrow> nat \<Rightarrow> 'k \<Rightarrow> recv_result \<times> 'k"
  net_send :: "int \<Rightarrow> u8 list \<Rightarrow> 'k \<Rightarrow> send_result \<times> 'k"
  net_select_write :: "int \<Rightarrow> nat \<Rightarrow> 'k \<Rightarrow> select_result \<times> 'k"
  net_select_read :: "int \<Rightarrow> nat \<Rightarrow> 'k \<Rightarrow> select_result \<times> 'k"
  net_close :: "bool \<Rightarrow> int \<Rightarrow> 'k \<Rightarrow> 'k"

text \<open>
  What a stream socket promises of the bytes it accepts: \<open>send\<close> takes a prefix of what it is
  offered and appends it to that socket's stream; nothing else changes a stream.
\<close>

definition net_laws :: "('k, 'm) net_scheme \<Rightarrow> ('k \<Rightarrow> int \<Rightarrow> u8 list) \<Rightarrow> bool" where
  "net_laws net stream \<longleftrightarrow>
     (\<forall>fd d k. case net_send net fd d k of
          (Sent n, k') \<Rightarrow> n \<le> length d \<and> stream k' = (stream k)(fd := stream k fd @ take n d)
        | (SendFailed _, k') \<Rightarrow> stream k' = stream k) \<and>
     (\<forall>fd ms k. stream (snd (net_select_write net fd ms k)) = stream k) \<and>
     (\<forall>a fd k. stream (net_close net a fd k) = stream k)"

lemma net_send_Sent:
  "net_laws net stream \<Longrightarrow> net_send net fd d k = (Sent n, k') \<Longrightarrow>
   n \<le> length d \<and> stream k' = (stream k)(fd := stream k fd @ take n d)"
  unfolding net_laws_def
  by (drule conjunct1, drule spec [of _ fd], drule spec [of _ d], drule spec [of _ k]) simp

lemma net_send_SendFailed:
  "net_laws net stream \<Longrightarrow> net_send net fd d k = (SendFailed e, k') \<Longrightarrow> stream k' = stream k"
  unfolding net_laws_def
  by (drule conjunct1, drule spec [of _ fd], drule spec [of _ d], drule spec [of _ k]) simp

lemma net_select_stream: "net_laws net stream \<Longrightarrow> net_select_write net fd ms k = (r, k') \<Longrightarrow> stream k' = stream k"
  unfolding net_laws_def by (metis snd_conv)

lemma net_close_stream: "net_laws net stream \<Longrightarrow> stream (net_close net a fd k) = stream k"
  by (simp add: net_laws_def)

end
