(* ===== verification/LocalCaster.thy ===== *)
theory LocalCaster
  imports RtcmBatch RtosQueue
begin

text \<open>
  The local NTRIP caster of \<open>main/local_caster.cpp\<close>: the packet queue that the RTCM batch is
  flushed into, the client table, the handshake, the broadcast, and one pass of the task
  loop. The queue and the sockets are the parameters of \<open>RtosQueue\<close>.

  A loop on a socket may spin for ever on a misbehaving kernel, so \<open>send_all\<close> and what calls
  it give an option; \<open>None\<close> is not returning.
\<close>

subsection \<open>State\<close>

definition kMaxClients :: nat where "kMaxClients = 8"
definition kMaxPacket :: nat where "kMaxPacket = 1200"
definition kQueueDepth :: nat where "kQueueDepth = 16"
definition kLocalNtripPort :: u16 where "kLocalNtripPort = 2101"
definition kLocalMountpoint :: string where "kLocalMountpoint = ''BASE0''"

text \<open>
  \<open>lc_slots\<close> holds \<open>clients_[i]\<close> and \<open>client_ipv4_[i]\<close>; a packet is the first \<open>length\<close> bytes
  of its data.
\<close>

record 'q local_caster =
  lc_queue :: "'q option"
  lc_stopping :: bool
  lc_suspended :: bool
  lc_reset_clients :: bool
  lc_client_count :: nat
  lc_slots :: "(int \<times> u32) list"
  lc_listener :: int

definition local_caster_init :: "'q local_caster" where
  "local_caster_init = \<lparr>lc_queue = None, lc_stopping = False, lc_suspended = True,
     lc_reset_clients = False, lc_client_count = 0, lc_slots = replicate kMaxClients (-1, 0),
     lc_listener = -1\<rparr>"

subsection \<open>Sending\<close>

partial_function (option) lc_send_loop ::
    "'k net \<Rightarrow> int \<Rightarrow> u8 list \<Rightarrow> nat \<Rightarrow> nat \<Rightarrow> 'k \<Rightarrow> (bool \<times> 'k) option" where
  "lc_send_loop net fd data offset stalls k =
     (if offset < length data then
        (case net_send net fd (drop offset data) k of
           (Sent n, k) \<Rightarrow>
             if 0 < n then lc_send_loop net fd data (offset + n) 0 k else Some (False, k)
         | (SendFailed e, k) \<Rightarrow>
             if e = EINTR then lc_send_loop net fd data offset stalls k
             else if e = EAGAIN then
               (case net_select_write net fd 100 k of (ready, k) \<Rightarrow>
                  if ready = SelectReady then lc_send_loop net fd data offset stalls k
                  else if ready = SelectFailed EINTR then lc_send_loop net fd data offset stalls k
                  else if stalls + 1 < 10 then lc_send_loop net fd data offset (stalls + 1) k
                  else Some (False, k))
             else Some (False, k))
      else Some (True, k))"

definition lc_send_all :: "'k net \<Rightarrow> int \<Rightarrow> u8 list \<Rightarrow> 'k \<Rightarrow> (bool \<times> 'k) option" where
  "lc_send_all net fd data k = lc_send_loop net fd data 0 0 k"

subsection \<open>The client table\<close>

definition recount_clients :: "'q local_caster \<Rightarrow> 'q local_caster" where
  "recount_clients c = c\<lparr>lc_client_count := length (filter (\<lambda>(fd, _). 0 \<le> fd) (lc_slots c))\<rparr>"

fun close_slots :: "'k net \<Rightarrow> (int \<times> u32) list \<Rightarrow> 'k \<Rightarrow> (int \<times> u32) list \<times> 'k" where
  "close_slots net [] k = ([], k)"
| "close_slots net ((fd, ip) # ss) k =
     (let k = (if 0 \<le> fd then net_close net True fd k else k);
          (ss, k) = close_slots net ss k
      in ((if 0 \<le> fd then -1 else fd, 0) # ss, k))"

definition close_clients :: "'k net \<Rightarrow> 'q local_caster \<Rightarrow> 'k \<Rightarrow> 'q local_caster \<times> 'k" where
  "close_clients net c k =
     (let (ss, k) = close_slots net (lc_slots c) k
      in (recount_clients (c\<lparr>lc_slots := ss\<rparr>), k))"

definition close_all :: "'k net \<Rightarrow> 'q local_caster \<Rightarrow> 'k \<Rightarrow> 'q local_caster \<times> 'k" where
  "close_all net c k =
     (let (c, k) = close_clients net c k
      in if 0 \<le> lc_listener c
         then (c\<lparr>lc_listener := -1\<rparr>, net_close net False (lc_listener c) k)
         else (c, k))"

fun broadcast_slots ::
    "'k net \<Rightarrow> u8 list \<Rightarrow> (int \<times> u32) list \<Rightarrow> 'k \<Rightarrow> ((int \<times> u32) list \<times> 'k) option" where
  "broadcast_slots net packet [] k = Some ([], k)"
| "broadcast_slots net packet ((fd, ip) # ss) k =
     (if 0 \<le> fd then
        (case lc_send_all net fd packet k of
           None \<Rightarrow> None
         | Some (sent, k) \<Rightarrow>
             let k = (if sent then k else net_close net True fd k) in
             map_option (\<lambda>(ss, k). ((if sent then (fd, ip) else (-1, 0)) # ss, k))
               (broadcast_slots net packet ss k))
      else map_option (\<lambda>(ss, k). ((fd, ip) # ss, k)) (broadcast_slots net packet ss k))"

definition broadcast ::
    "'k net \<Rightarrow> u8 list \<Rightarrow> 'q local_caster \<Rightarrow> 'k \<Rightarrow> ('q local_caster \<times> 'k) option" where
  "broadcast net packet c k =
     map_option (\<lambda>(ss, k). (recount_clients (c\<lparr>lc_slots := ss\<rparr>), k))
       (broadcast_slots net packet (lc_slots c) k)"

definition client_snapshot :: "'q local_caster \<Rightarrow> u32 list" where
  "client_snapshot c = filter (\<lambda>ip. ip \<noteq> 0) (map snd (lc_slots c))"

subsection \<open>The listener and the handshake\<close>

definition open_listener :: "'k net \<Rightarrow> 'q local_caster \<Rightarrow> 'k \<Rightarrow> bool \<times> 'q local_caster \<times> 'k" where
  "open_listener net c k =
     (let (fd, k) = net_socket net k; c = c\<lparr>lc_listener := fd\<rparr> in
      if fd < 0 then (False, c, k)
      else
        let (bound, k) = net_bind net fd kLocalNtripPort k in
        if bound < 0 then (False, close_all net c k)
        else
          let (listening, k) = net_listen net fd kMaxClients k in
          if listening < 0 then (False, close_all net c k)
          else (True, c, k))"

definition peer_ipv4 :: "bool \<Rightarrow> u32 \<Rightarrow> u32" where
  "peer_ipv4 is_inet address = (if \<not> is_inet then 0 else address)"

definition bytes_of :: "string \<Rightarrow> u8 list" where
  "bytes_of s = map byte8 s"

definition mount_prefix :: string where
  "mount_prefix = ''GET /'' @ kLocalMountpoint @ '' HTTP/''"

definition source_table :: string where
  "source_table = ''SOURCETABLE 200 OK'' @ crlf @ ''Content-Type: text/plain'' @ crlf @ crlf @
     ''STR;'' @ kLocalMountpoint @
     '';GPS Base;RTCM 3.2;1005(5),1077(1),1087(1),1097(1),1117(1),1127(1),1137(1),1230(30);'' @
     ''2;GPS+GLO+GAL+QZSS+BDS+NAVIC;NONE;0;0;N;N;0;'' @ crlf @ ''ENDSOURCETABLE'' @ crlf"

definition icy_response :: string where
  "icy_response = ''ICY 200 OK'' @ crlf @ crlf"

fun free_slot :: "(int \<times> u32) list \<Rightarrow> nat option" where
  "free_slot [] = None"
| "free_slot ((fd, _) # ss) = (if fd < 0 then Some 0 else map_option Suc (free_slot ss))"

definition accept_client ::
    "'k net \<Rightarrow> 'q local_caster \<Rightarrow> 'k \<Rightarrow> ('q local_caster \<times> 'k) option" where
  "accept_client net c k =
     (case net_accept net (lc_listener c) k of ((incoming, is_inet, address), k) \<Rightarrow>
        if incoming < 0 then Some (c, k)
        else
          let (received, k) = net_recv net incoming 511 k;
              request = (case received of Received bytes \<Rightarrow> map char8 bytes | RecvFailed _ \<Rightarrow> [])
          in if \<not> starts_with request mount_prefix then
               map_option (\<lambda>(_, k). (c, net_close net False incoming k))
                 (lc_send_all net incoming (bytes_of source_table) k)
             else
               (case free_slot (lc_slots c) of
                  None \<Rightarrow> Some (c, net_close net False incoming k)
                | Some slot \<Rightarrow>
                    (case lc_send_all net incoming (bytes_of icy_response) k of
                       None \<Rightarrow> None
                     | Some (sent, k) \<Rightarrow>
                         if \<not> sent then Some (c, net_close net False incoming k)
                         else Some (recount_clients
                                (c\<lparr>lc_slots := (lc_slots c)[slot := (incoming, peer_ipv4 is_inet address)]\<rparr>), k))))"

subsection \<open>The operations of the other tasks\<close>

definition lc_set_suspended :: "bool \<Rightarrow> 'q local_caster \<Rightarrow> 'q local_caster" where
  "lc_set_suspended suspended c =
     (let c = c\<lparr>lc_suspended := suspended\<rparr>
      in if suspended then c\<lparr>lc_reset_clients := True\<rparr> else c)"

definition lc_push :: "('q, u8 list) queue_ops \<Rightarrow> u8 list \<Rightarrow> 'q local_caster \<Rightarrow> 'q local_caster" where
  "lc_push qo data c =
     (case lc_queue c of
        None \<Rightarrow> c
      | Some q \<Rightarrow>
          if data = [] \<or> lc_suspended c then c
          else c\<lparr>lc_queue := Some (snd (q_send qo (take kMaxPacket data) q))\<rparr>)"

definition lc_reset_queue :: "('q, u8 list) queue_ops \<Rightarrow> 'q local_caster \<Rightarrow> 'q local_caster" where
  "lc_reset_queue qo c = c\<lparr>lc_queue := map_option (q_reset qo) (lc_queue c)\<rparr>"

text \<open>
  \<open>start\<close>: the queue may not be created (\<open>created = None\<close>) and the task may not start.
\<close>

definition lc_start :: "'q option \<Rightarrow> bool \<Rightarrow> 'q local_caster \<Rightarrow> esp_err \<times> 'q local_caster" where
  "lc_start created task_ok c =
     (let c = c\<lparr>lc_stopping := False, lc_queue := created\<rparr> in
      if created = None then (ESP_ERR_NO_MEM, c)
      else if \<not> task_ok then (ESP_ERR_NO_MEM, c\<lparr>lc_queue := None\<rparr>)
      else (ESP_OK, c))"

definition lc_stop :: "'k net \<Rightarrow> 'q local_caster \<Rightarrow> 'k \<Rightarrow> 'q local_caster \<times> 'k" where
  "lc_stop net c k =
     (let (c, k) = close_all net (c\<lparr>lc_stopping := True\<rparr>) k in (c\<lparr>lc_queue := None\<rparr>, k))"

subsection \<open>One pass of the task loop\<close>

text \<open>The body of \<open>while (!stopping_)\<close> in \<open>run\<close>; delays are not modelled.\<close>

definition lc_handle_reset ::
    "'k net \<Rightarrow> ('q, u8 list) queue_ops \<Rightarrow> 'q local_caster \<Rightarrow> 'k \<Rightarrow> 'q local_caster \<times> 'k" where
  "lc_handle_reset net qo c k =
     (if lc_reset_clients c
      then let (c, k) = close_clients net (c\<lparr>lc_reset_clients := False\<rparr>) k
           in (lc_reset_queue qo c, k)
      else (c, k))"

definition lc_ensure_listener ::
    "'k net \<Rightarrow> 'q local_caster \<Rightarrow> 'k \<Rightarrow> bool \<times> 'q local_caster \<times> 'k" where
  "lc_ensure_listener net c k =
     (if lc_listener c < 0 then open_listener net c k else (True, c, k))"

definition lc_serve ::
    "'k net \<Rightarrow> ('q, u8 list) queue_ops \<Rightarrow> 'q local_caster \<Rightarrow> 'k \<Rightarrow> ('q local_caster \<times> 'k) option" where
  "lc_serve net qo c k =
     (case accept_client net c k of
        None \<Rightarrow> None
      | Some (c, k) \<Rightarrow>
          (case lc_queue c of
             None \<Rightarrow> Some (c, k)
           | Some q \<Rightarrow>
               (case q_receive qo q of
                  (None, q) \<Rightarrow> Some (c\<lparr>lc_queue := Some q\<rparr>, k)
                | (Some packet, q) \<Rightarrow> broadcast net packet (c\<lparr>lc_queue := Some q\<rparr>) k)))"

definition lc_iteration ::
    "'k net \<Rightarrow> ('q, u8 list) queue_ops \<Rightarrow> 'q local_caster \<Rightarrow> 'k \<Rightarrow> ('q local_caster \<times> 'k) option" where
  "lc_iteration net qo c k =
     (if lc_suspended c then
        (let (c, k) = close_all net c k in Some (lc_reset_queue qo c, k))
      else
        let (c, k) = lc_handle_reset net qo c k;
            (listening, c, k) = lc_ensure_listener net c k
        in if \<not> listening then Some (c, k) else lc_serve net qo c k)"

subsection \<open>What sending does to the stream\<close>

definition sent_prefix :: "('k \<Rightarrow> int \<Rightarrow> u8 list) \<Rightarrow> int \<Rightarrow> u8 list \<Rightarrow> 'k \<Rightarrow> bool \<times> 'k \<Rightarrow> bool" where
  "sent_prefix stream fd data k r \<longleftrightarrow>
     (\<exists>m \<le> length data. (fst r \<longleftrightarrow> m = length data) \<and>
        stream (snd r) = (stream k)(fd := stream k fd @ take m data))"

lemma sent_prefix_none: "stream k' = stream k \<Longrightarrow> data \<noteq> [] \<Longrightarrow> sent_prefix stream fd data k (False, k')"
  unfolding sent_prefix_def by (intro exI [of _ 0]) auto

lemma sent_prefix_all: "sent_prefix stream fd [] k (True, k)"
  by (simp add: sent_prefix_def)

lemma sent_prefix_from: "stream k1 = stream k \<Longrightarrow> sent_prefix stream fd data k1 r \<Longrightarrow> sent_prefix stream fd data k r"
  by (simp add: sent_prefix_def)

lemma sent_prefix_step:
  assumes "n \<le> length data" "stream k1 = (stream k)(fd := stream k fd @ take n data)"
    and "sent_prefix stream fd (drop n data) k1 r"
  shows "sent_prefix stream fd data k r"
proof -
  obtain m where m: "m \<le> length data - n" "fst r \<longleftrightarrow> m = length data - n"
    "stream (snd r) = (stream k1)(fd := stream k1 fd @ take m (drop n data))"
    using assms(3) by (auto simp: sent_prefix_def)
  have "take n data @ take m (drop n data) = take (n + m) data" by (simp add: take_add)
  then show ?thesis using m assms(1,2) unfolding sent_prefix_def by (intro exI [of _ "n + m"]) auto
qed

lemma lc_send_loop_stream:
  assumes "lc_send_loop net fd data offset stalls k = Some r"
  shows "net_laws net stream \<Longrightarrow> offset \<le> length data \<Longrightarrow> sent_prefix stream fd (drop offset data) k r"
proof -
  let ?P = "\<lambda>net fd data offset stalls k r. net_laws net stream \<longrightarrow> offset \<le> length data \<longrightarrow>
    sent_prefix stream fd (drop offset data) k r"
  have "?P net fd data offset stalls k r"
  proof (rule lc_send_loop.raw_induct [where P = ?P, OF _ assms], goal_cases)
    case (1 loop net fd data offset stalls k r)
    show ?case
    proof (intro impI)
      assume laws: "net_laws net stream" and off: "offset \<le> length data"
      show "sent_prefix stream fd (drop offset data) k r"
      proof (cases "offset < length data")
        case False
        then show ?thesis using 1(2) off by (auto simp: sent_prefix_all)
      next
        case True
        note IH = 1(1) [rule_format, OF _ laws]
        obtain res k1 where s: "net_send net fd (drop offset data) k = (res, k1)" by (rule prod.exhaust)
        show ?thesis
        proof (cases res)
          case (Sent n)
          note law = net_send_Sent [OF laws s [unfolded Sent]]
          then show ?thesis
            using IH [of fd data "offset + n" 0 k1 r] 1(2) s Sent True sent_prefix_none [of stream k1 k]
              sent_prefix_step [of n "drop offset data" stream k1 k fd r]
            by (auto simp: add.commute split: if_splits)
        next
          case (SendFailed e)
          have st: "stream k1 = stream k" using net_send_SendFailed [OF laws] s SendFailed by simp
          obtain sel k2 where sel: "net_select_write net fd 100 k1 = (sel, k2)" by (rule prod.exhaust)
          have st2: "stream k2 = stream k" using net_select_stream [OF laws sel] st by simp
          show ?thesis
            using IH [of fd data offset _ k1 r] IH [of fd data offset _ k2 r]
              1(2) s SendFailed True sel sent_prefix_none [of stream _ k] sent_prefix_from [of stream _ k] st st2
            by (auto split: if_splits)
        qed
      qed
    qed
  qed
  then show "net_laws net stream \<Longrightarrow> offset \<le> length data \<Longrightarrow> sent_prefix stream fd (drop offset data) k r"
    by blast
qed

text \<open>
  A kernel that settles: interrupted calls and spurious readiness come only finitely often in
  a row (each uses up some of \<open>patience\<close>). Then the loop ends: progress shortens what is
  left, and ten time-outs without progress give up.
\<close>

definition net_settles :: "'k net \<Rightarrow> ('k \<Rightarrow> nat) \<Rightarrow> bool" where
  "net_settles net patience \<longleftrightarrow>
     (\<forall>fd d k k1. net_send net fd d k = (SendFailed EINTR, k1) \<longrightarrow> patience k1 < patience k) \<and>
     (\<forall>fd d k k1 ms r k2. net_send net fd d k = (SendFailed EAGAIN, k1) \<longrightarrow>
        net_select_write net fd ms k1 = (r, k2) \<longrightarrow> r \<in> {SelectReady, SelectFailed EINTR} \<longrightarrow>
        patience k2 < patience k)"

lemma lc_send_loop_returns:
  assumes "net_settles net patience" and "stalls \<le> 10"
  shows "\<exists>r. lc_send_loop net fd data offset stalls k = Some r"
  using assms(2)
proof (induction "(length data - offset, 10 - stalls, patience k)" arbitrary: offset stalls k
    rule: wf_induct_rule [OF wf_lex_prod [OF wf_less wf_lex_prod [OF wf_less wf_less]]])
  case (1 offset stalls k)
  note IH = 1(1)
  show ?case
  proof (cases "offset < length data")
    case True
    obtain res k1 where s: "net_send net fd (drop offset data) k = (res, k1)" by (rule prod.exhaust)
    obtain sel k2 where sel: "net_select_write net fd 100 k1 = (sel, k2)" by (rule prod.exhaust)
    show ?thesis
    proof (cases res)
      case (Sent n)
      show ?thesis
      proof (cases "0 < n")
        case True
        then have "length data - (offset + n) < length data - offset" using \<open>offset < length data\<close> by simp
        then show ?thesis using IH [of "offset + n" 0 k1] True \<open>offset < length data\<close> s Sent
          by (subst lc_send_loop.simps) simp
      qed (subst lc_send_loop.simps, auto simp: s Sent)
    next
      case (SendFailed e)
      have p1: "e = EINTR \<Longrightarrow> patience k1 < patience k"
        using assms(1) s SendFailed by (auto simp: net_settles_def)
      have p2: "e = EAGAIN \<Longrightarrow> sel = SelectReady \<or> sel = SelectFailed EINTR \<Longrightarrow> patience k2 < patience k"
        using assms(1) s sel SendFailed unfolding net_settles_def by blast
      have d: "stalls + 1 < 10 \<Longrightarrow> 10 - (stalls + 1) < 10 - stalls" by linarith
      show ?thesis
        using d IH [of offset stalls k1] IH [of offset stalls k2] IH [of offset "stalls + 1" k2] p1 p2 1(2)
        by (subst lc_send_loop.simps) (auto simp: s sel SendFailed)
    qed
  qed (subst lc_send_loop.simps, auto)
qed

lemma lc_send_all_stream:
  "lc_send_all net fd data k = Some r \<Longrightarrow> net_laws net stream \<Longrightarrow> sent_prefix stream fd data k r"
  using lc_send_loop_stream [of net fd data 0 0 k r stream] by (simp add: lc_send_all_def)

subsection \<open>Broadcasting\<close>

definition open_fds :: "(int \<times> u32) list \<Rightarrow> int list" where
  "open_fds ss = filter (\<lambda>fd. 0 \<le> fd) (map fst ss)"

text \<open>What a broadcast did to one client: nothing, the whole packet, or part of it and gone.\<close>

definition client_served :: "('k \<Rightarrow> int \<Rightarrow> u8 list) \<Rightarrow> u8 list \<Rightarrow> 'k \<Rightarrow> 'k \<Rightarrow>
    int \<times> u32 \<Rightarrow> int \<times> u32 \<Rightarrow> bool" where
  "client_served stream packet k k' before after \<longleftrightarrow>
     (if fst before < 0 then after = before
      else (after = before \<and> stream k' (fst before) = stream k (fst before) @ packet) \<or>
           (after = (-1, 0) \<and> (\<exists>m < length packet. stream k' (fst before) = stream k (fst before) @ take m packet)))"

lemma broadcast_slots_streams:
  assumes laws: "net_laws net stream"
  shows "broadcast_slots net packet ss k = Some (ss', k') \<Longrightarrow> distinct (open_fds ss) \<Longrightarrow>
    list_all2 (client_served stream packet k k') ss ss' \<and>
    (\<forall>fd. fd \<notin> set (open_fds ss) \<longrightarrow> stream k' fd = stream k fd)"
proof (induction ss arbitrary: k ss')
  case (Cons s ss)
  obtain fd ip where s: "s = (fd, ip)" by (rule prod.exhaust)
  show ?case
  proof (cases "0 \<le> fd")
    case False
    obtain rest where rest: "broadcast_slots net packet ss k = Some (rest, k')" "ss' = s # rest"
      using Cons.prems(1) s False by auto
    have "open_fds (s # ss) = open_fds ss" using False s by (simp add: open_fds_def)
    moreover have "client_served stream packet k k' s s" using False s by (simp add: client_served_def)
    ultimately show ?thesis using Cons.IH [OF rest(1)] Cons.prems(2) rest(2) by simp
  next
    case True
    obtain ok k1 where send: "lc_send_all net fd packet k = Some (ok, k1)"
      using Cons.prems(1) s True by (auto split: option.splits)
    obtain m where m: "m \<le> length packet" "ok \<longleftrightarrow> m = length packet"
      "stream k1 = (stream k)(fd := stream k fd @ take m packet)"
      using lc_send_all_stream [OF send laws] by (auto simp: sent_prefix_def)
    define k2 where "k2 = (if ok then k1 else net_close net True fd k1)"
    have k2: "stream k2 = stream k1" using net_close_stream [OF laws] by (simp add: k2_def)
    obtain rest where rest: "broadcast_slots net packet ss k2 = Some (rest, k')"
      "ss' = (if ok then (fd, ip) else (-1, 0)) # rest"
      using Cons.prems(1) s True send by (auto simp: k2_def Let_def)
    have nin: "fd \<notin> set (open_fds ss)" and dist: "distinct (open_fds ss)"
      using Cons.prems(2) s True by (auto simp: open_fds_def)
    note IH = Cons.IH [OF rest(1) dist]
    have "stream k' fd = stream k fd @ take m packet" using IH nin k2 m(3) by simp
    then have head: "client_served stream packet k k' s (hd ss')"
      using True s rest(2) m by (auto simp: client_served_def intro!: exI [of _ m])
    have "list_all2 (client_served stream packet k k') ss rest"
    proof (rule list_all2_mono)
      show "list_all2 (\<lambda>a b. client_served stream packet k2 k' a b \<and> (0 \<le> fst a \<longrightarrow> fst a \<noteq> fd)) ss rest"
        using IH nin by (auto simp: list_all2_conv_all_nth open_fds_def)
      fix a b assume "client_served stream packet k2 k' a b \<and> (0 \<le> fst a \<longrightarrow> fst a \<noteq> fd)"
      then show "client_served stream packet k k' a b"
        using k2 m(3) by (auto simp: client_served_def)
    qed
    then show ?thesis using head rest(2) IH k2 m(3) s True by (auto simp: open_fds_def)
  qed
qed simp

subsection \<open>The client table\<close>

definition lc_inv :: "'q local_caster \<Rightarrow> bool" where
  "lc_inv c \<longleftrightarrow> length (lc_slots c) = kMaxClients \<and>
     lc_client_count c = length (open_fds (lc_slots c)) \<and>
     list_all (\<lambda>(fd, ip). fd < 0 \<longrightarrow> ip = 0) (lc_slots c)"

lemma recount_count: "lc_client_count (recount_clients c) = length (open_fds (lc_slots c))"
  by (simp add: recount_clients_def open_fds_def filter_map comp_def case_prod_unfold)

lemma recount_slots [simp]:
  "lc_slots (recount_clients c) = lc_slots c" "lc_listener (recount_clients c) = lc_listener c"
  "lc_queue (recount_clients c) = lc_queue c" "lc_suspended (recount_clients c) = lc_suspended c"
  by (simp_all add: recount_clients_def)

lemma close_slots_eq: "fst (close_slots net ss k) = map (\<lambda>(fd, _). (if 0 \<le> fd then -1 else fd, 0)) ss"
  by (induction net ss k rule: close_slots.induct) (auto simp: Let_def split: prod.splits)

lemma open_fds_closed: "open_fds (map (\<lambda>(fd, _). (if 0 \<le> fd then -1 else fd, 0)) ss) = []"
  by (induction ss) (auto simp: open_fds_def split: if_splits)

lemma close_clients_inv:
  assumes "length (lc_slots c) = kMaxClients" "close_clients net c k = (c', k')"
  shows "lc_inv c'" "open_fds (lc_slots c') = []" "lc_listener c' = lc_listener c" "lc_queue c' = lc_queue c"
    "lc_suspended c' = lc_suspended c"
proof -
  obtain ss k1 where cs: "close_slots net (lc_slots c) k = (ss, k1)" by (rule prod.exhaust)
  have ss: "ss = map (\<lambda>(fd, _). (if 0 \<le> fd then -1 else fd, 0)) (lc_slots c)"
    using close_slots_eq [of net "lc_slots c" k] cs by simp
  have c': "c' = recount_clients (c\<lparr>lc_slots := ss\<rparr>)" using assms(2) cs by (simp add: close_clients_def)
  have fds: "open_fds ss = []" unfolding ss by (rule open_fds_closed)
  show "lc_inv c'" using assms(1) recount_count [of "c\<lparr>lc_slots := ss\<rparr>"] unfolding lc_inv_def c'
    by (simp add: fds) (auto simp: ss list_all_iff)
  show "open_fds (lc_slots c') = []" "lc_listener c' = lc_listener c" "lc_queue c' = lc_queue c"
    "lc_suspended c' = lc_suspended c"
    using fds by (simp_all add: c')
qed

lemma close_all_inv:
  assumes "length (lc_slots c) = kMaxClients" "close_all net c k = (c', k')"
  shows "lc_inv c' \<and> open_fds (lc_slots c') = [] \<and> lc_listener c' < 0 \<and> lc_queue c' = lc_queue c \<and>
    lc_suspended c' = lc_suspended c"
proof -
  obtain d k1 where d: "close_clients net c k = (d, k1)" by (rule prod.exhaust)
  from close_clients_inv [OF assms(1) d] assms(2) d show ?thesis
    by (auto simp: close_all_def lc_inv_def split: if_splits)
qed

lemma lc_inv_frame [simp]:
  "lc_inv (c\<lparr>lc_queue := q\<rparr>) = lc_inv c" "lc_inv (c\<lparr>lc_listener := l\<rparr>) = lc_inv c"
  "lc_inv (c\<lparr>lc_suspended := b\<rparr>) = lc_inv c" "lc_inv (c\<lparr>lc_reset_clients := b\<rparr>) = lc_inv c"
  "lc_inv (c\<lparr>lc_stopping := b\<rparr>) = lc_inv c"
  by (simp_all add: lc_inv_def)

lemma broadcast_slots_shape:
  "broadcast_slots net packet ss k = Some (ss', k') \<Longrightarrow>
   list_all2 (\<lambda>before after. after = before \<or> after = (-1, 0)) ss ss'"
proof (induction ss arbitrary: k ss')
  case (Cons s ss)
  then show ?case by (cases s) (auto simp: Let_def split: option.splits if_splits)
qed simp

lemma broadcast_inv:
  assumes "lc_inv c" "broadcast net packet c k = Some (c', k')" shows "lc_inv c'"
proof -
  obtain ss where ss: "broadcast_slots net packet (lc_slots c) k = Some (ss, k')"
    "c' = recount_clients (c\<lparr>lc_slots := ss\<rparr>)"
    using assms(2) by (auto simp: broadcast_def)
  note sh = broadcast_slots_shape [OF ss(1)]
  then have "length ss = kMaxClients" using assms(1) by (auto simp: lc_inv_def dest: list_all2_lengthD)
  moreover have "list_all (\<lambda>(fd, ip). fd < 0 \<longrightarrow> ip = 0) ss"
    using sh assms(1) by (fastforce simp: lc_inv_def list_all_length list_all2_conv_all_nth split: prod.splits)
  ultimately show ?thesis using recount_count [of "c\<lparr>lc_slots := ss\<rparr>"]
    by (simp add: lc_inv_def ss(2))
qed

lemma free_slot_Some: "free_slot ss = Some i \<Longrightarrow> i < length ss \<and> fst (ss ! i) < 0"
  by (induction ss arbitrary: i rule: free_slot.induct) (auto split: if_splits)

lemma accept_client_cases:
  assumes "accept_client net c k = Some (c', k')"
  shows "c' = c \<or> (\<exists>slot fd ip. 0 \<le> fd \<and> free_slot (lc_slots c) = Some slot \<and>
    c' = recount_clients (c\<lparr>lc_slots := (lc_slots c)[slot := (fd, ip)]\<rparr>))"
  using assms unfolding accept_client_def Let_def
  by (auto simp: not_less split: prod.splits if_splits option.splits)

lemma accept_client_inv:
  assumes "lc_inv c" "accept_client net c k = Some (c', k')" shows "lc_inv c'"
proof -
  have "lc_inv (recount_clients (c\<lparr>lc_slots := (lc_slots c)[slot := (fd, ip)]\<rparr>))" if "0 \<le> fd" for slot fd ip
    using assms(1) recount_count [of "c\<lparr>lc_slots := (lc_slots c)[slot := (fd, ip)]\<rparr>"] that
    by (auto simp: lc_inv_def list_all_iff dest!: set_update_subset_insert [THEN subsetD])
  then show ?thesis using accept_client_cases [OF assms(2)] assms(1) by auto
qed

lemma open_listener_inv:
  assumes "lc_inv c" "open_listener net c k = (ok, c', k')"
  shows "lc_inv c' \<and> lc_queue c' = lc_queue c"
proof -
  have "length (lc_slots (c\<lparr>lc_listener := fd\<rparr>)) = kMaxClients" for fd using assms(1) by (simp add: lc_inv_def)
  note closed = close_all_inv [OF this]
  show ?thesis using assms closed
    by (fastforce simp: open_listener_def Let_def split: prod.splits if_splits)
qed

lemma lc_iteration_inv:
  assumes "lc_inv c" "lc_iteration net qo c k = Some (c', k')" shows "lc_inv c'"
proof (cases "lc_suspended c")
  case True
  obtain d k1 where d: "close_all net c k = (d, k1)" by (rule prod.exhaust)
  then have "lc_inv d" using close_all_inv [OF _ d] assms(1) by (simp add: lc_inv_def)
  then show ?thesis using assms(2) True d by (auto simp: lc_iteration_def lc_reset_queue_def)
next
  case False
  obtain d k1 where d: "lc_handle_reset net qo c k = (d, k1)" by (rule prod.exhaust)
  have "length (lc_slots (c\<lparr>lc_reset_clients := False\<rparr>)) = kMaxClients" using assms(1) by (simp add: lc_inv_def)
  from close_clients_inv(1) [OF this] have dinv: "lc_inv d"
    using d assms(1) by (auto simp: lc_handle_reset_def lc_reset_queue_def split: if_splits prod.splits)
  obtain ok e k2 where e: "lc_ensure_listener net d k1 = (ok, e, k2)" by (rule prod_cases3)
  have einv: "lc_inv e" using open_listener_inv [OF dinv, of net k1 ok e k2] dinv e
    by (auto simp: lc_ensure_listener_def split: if_splits)
  have "lc_inv c'" if serve: "lc_serve net qo e k2 = Some (c', k')"
  proof -
    obtain f k3 where f: "accept_client net e k2 = Some (f, k3)"
      using serve by (auto simp: lc_serve_def split: option.splits)
    have "lc_inv f" using accept_client_inv [OF einv f] .
    then show ?thesis using serve f broadcast_inv [of "f\<lparr>lc_queue := _\<rparr>" net _ k3 c' k']
      by (auto simp: lc_serve_def split: option.splits prod.splits)
  qed
  then show ?thesis using assms(2) False einv d e by (auto simp: lc_iteration_def split: if_splits)
qed

text \<open>
  The tasks that share the caster: its own loop, the base station (\<open>push\<close>), and whoever
  suspends or resumes the streams.
\<close>

inductive lc_step :: "'k net \<Rightarrow> ('q, u8 list) queue_ops \<Rightarrow> 'q local_caster \<times> 'k \<Rightarrow> 'q local_caster \<times> 'k \<Rightarrow> bool"
  for net qo where
  Push: "lc_step net qo (c, k) (lc_push qo data c, k)"
| Suspend: "lc_step net qo (c, k) (lc_set_suspended b c, k)"
| Iterate: "lc_iteration net qo c k = Some (c', k') \<Longrightarrow> lc_step net qo (c, k) (c', k')"
| Stop: "lc_stop net c k = (c', k') \<Longrightarrow> lc_step net qo (c, k) (c', k')"
| Start: "lc_step net qo (c, k) (snd (lc_start created ok c), k)"

inductive_cases lc_stepE: "lc_step net qo s t"

interpretation lc_tasks: transition_system "lc_step net qo" "\<lambda>s. lc_inv (fst s)" for net qo
proof
  fix s t
  assume inv: "lc_inv (fst s)" and "lc_step net qo s t"
  from this(2) show "lc_inv (fst t)"
  proof cases
    case (Push c k data)
    then show ?thesis using inv by (auto simp: lc_push_def split: option.splits)
  next
    case (Suspend c k b)
    then show ?thesis using inv by (simp add: lc_set_suspended_def Let_def)
  next
    case (Iterate c k c' k')
    then show ?thesis using inv lc_iteration_inv by fastforce
  next
    case (Stop c k c' k')
    obtain d k1 where d: "close_all net (c\<lparr>lc_stopping := True\<rparr>) k = (d, k1)" by (rule prod.exhaust)
    have "length (lc_slots (c\<lparr>lc_stopping := True\<rparr>)) = kMaxClients" using inv Stop by (simp add: lc_inv_def)
    from close_all_inv [OF this d] show ?thesis using Stop d by (auto simp: lc_stop_def)
  next
    case (Start c k created ok)
    then show ?thesis using inv by (simp add: lc_start_def Let_def)
  qed
qed

lemma lc_inv_init: "lc_inv local_caster_init"
  by (simp add: lc_inv_def local_caster_init_def open_fds_def kMaxClients_def list_all_iff)

subsection \<open>Properties\<close>

text \<open>
  The client table stays consistent however the tasks interleave: the published count is
  the number of open client sockets, never more than eight, and the address snapshot lists no
  more clients than are connected (a closed slot keeps no address).
\<close>

theorem client_table_consistent:
  assumes "rtranclp (lc_step net qo) (local_caster_init, k0) (c, k)"
  shows "lc_client_count c = length (filter (\<lambda>(fd, _). 0 \<le> fd) (lc_slots c)) \<and>
    lc_client_count c \<le> 8 \<and> length (client_snapshot c) \<le> lc_client_count c"
proof -
  have inv: "lc_inv c" using lc_tasks.reachable_inv [OF assms] lc_inv_init by simp
  have count: "length (open_fds ss) = length (filter (\<lambda>(fd, _). 0 \<le> fd) ss)" for ss
    by (simp add: open_fds_def filter_map comp_def case_prod_unfold)
  have "list_all (\<lambda>(fd, ip). fd < 0 \<longrightarrow> ip = 0) ss \<Longrightarrow>
      length (filter (\<lambda>ip. ip \<noteq> 0) (map snd ss)) \<le> length (filter (\<lambda>(fd, _). 0 \<le> fd) ss)" for ss :: "(int \<times> u32) list"
    by (induction ss) (auto split: prod.splits)
  then show ?thesis using inv length_filter_le [of "\<lambda>(fd, _). 0 \<le> fd" "lc_slots c"]
    by (simp add: lc_inv_def count client_snapshot_def kMaxClients_def)
qed

text \<open>
  C7. A connected client never sees a torn frame: on sockets that append what they accept,
  after a broadcast each client either got the whole packet at the end of its stream and is
  still connected, or was disconnected (its slot and address cleared); no other stream
  changed.
\<close>

theorem broadcast_whole_or_closed:
  assumes "net_laws net stream" and "broadcast net packet c k = Some (c', k')"
    and "distinct (filter (\<lambda>fd. 0 \<le> fd) (map fst (lc_slots c)))"
    and "i < length (lc_slots c)" and "lc_slots c ! i = (fd, ip)" and "0 \<le> fd"
  shows "lc_slots c' ! i = (fd, ip) \<and> stream k' fd = stream k fd @ packet \<or>
    lc_slots c' ! i = (-1, 0) \<and> (\<exists>m < length packet. stream k' fd = stream k fd @ take m packet)"
proof -
  obtain ss where ss: "broadcast_slots net packet (lc_slots c) k = Some (ss, k')"
    "c' = recount_clients (c\<lparr>lc_slots := ss\<rparr>)"
    using assms(2) by (auto simp: broadcast_def)
  have "list_all2 (client_served stream packet k k') (lc_slots c) ss"
    using broadcast_slots_streams [OF assms(1) ss(1)] assms(3) by (simp add: open_fds_def)
  then have "client_served stream packet k k' (fd, ip) (ss ! i)"
    using assms(4,5) by (metis list_all2_nthD)
  then show ?thesis using assms(6) ss(2) by (auto simp: client_served_def)
qed

text \<open>
  Sending to a client ends: on a kernel whose interrupted calls and spurious wake-ups do
  not go on for ever, \<open>send_all\<close> returns, and it returns \<open>true\<close> exactly when the socket took
  every byte of the data, in order.
\<close>

theorem local_send_all_returns:
  assumes "net_settles net patience" and "net_laws net stream"
  shows "\<exists>ok k' m. lc_send_all net fd data k = Some (ok, k') \<and> m \<le> length data \<and>
    (ok \<longleftrightarrow> m = length data) \<and> stream k' = (stream k)(fd := stream k fd @ take m data)"
proof -
  obtain ok k' where r: "lc_send_all net fd data k = Some (ok, k')"
    using lc_send_loop_returns [OF assms(1), of 0 fd data 0 k] by (auto simp: lc_send_all_def)
  with lc_send_all_stream [OF r assms(2)] show ?thesis by (auto simp: sent_prefix_def)
qed

lemma push_frames:
  assumes "queue_laws kQueueDepth qo contents" "\<not> lc_suspended c" "lc_queue c = Some q"
    and "length (contents q) + length fs \<le> kQueueDepth"
    and "\<forall>f \<in> set fs. f \<noteq> [] \<and> length f \<le> kMaxPacket"
  shows "\<exists>q'. lc_queue (foldl (\<lambda>c f. lc_push qo f c) c fs) = Some q' \<and> contents q' = contents q @ fs"
  using assms(2-5)
proof (induction fs arbitrary: c q)
  case (Cons f fs)
  have send: "contents (snd (q_send qo f q)) = contents q @ [f]"
    using queue_send(1) [OF assms(1), of q f] Cons.prems by simp
  have "lc_push qo f c = c\<lparr>lc_queue := Some (snd (q_send qo f q))\<rparr>"
    using Cons.prems by (simp add: lc_push_def)
  then show ?case
    using Cons.IH [of "lc_push qo f c" "snd (q_send qo f q)"] Cons.prems send by auto
qed simp

text \<open>
  A batch flush never overflows the caster's queue: the at most 12 frames of a batch fit
  into the 16 places of an empty queue, so flushing any batch the station can reach hands
  every one of its frames to the caster, in order.
\<close>

theorem batch_flush_fits_queue:
  assumes "queue_laws kQueueDepth qo contents" and "batch_inv b"
    and "\<not> lc_suspended c" and "lc_queue c = Some q" and "contents q = []"
  shows "\<exists>q'. lc_queue (snd (flush_batch_frames (\<lambda>c f. lc_push qo f c) b c)) = Some q' \<and>
    contents q' = batch_frames b"
proof -
  have len: "length (batch_frames b) \<le> kQueueDepth"
    using length_batch_frames [OF assms(2)] assms(2)
    by (simp add: batch_inv_def kQueueDepth_def kMaxFramesPerBatch_def)
  have "f \<noteq> [] \<and> length f \<le> kMaxPacket" if f: "f \<in> set (batch_frames b)" for f
  proof -
    have "length f \<le> sum_list (map length (batch_frames b))" using f by (simp add: member_le_sum_list)
    then show ?thesis using batch_length_sum [OF assms(2)] batch_frames_nonempty [OF assms(2) f] assms(2)
      by (simp add: batch_inv_def kMaxPacket_def kMaxRtcmFrame_def)
  qed
  then show ?thesis
    using push_frames [OF assms(1,3,4), of "batch_frames b"] len assms(5)
    by (simp add: flush_batch_frames_eq [OF assms(2)])
qed

text \<open>
  Only a request for the mountpoint opens a stream: when a pass of \<open>accept_client\<close> changes
  the client table, the new client asked for \<open>GET /BASE0 HTTP/\<close>, and the first bytes of its
  stream are the complete \<open>ICY 200 OK\<close> response.
\<close>

theorem only_mount_request_gets_stream:
  assumes "net_laws net stream" and "accept_client net c k = Some (c', k')"
    and "lc_slots c' \<noteq> lc_slots c"
  shows "\<exists>fd inet address k1 bytes k2. net_accept net (lc_listener c) k = ((fd, inet, address), k1) \<and>
    net_recv net fd 511 k1 = (Received bytes, k2) \<and>
    starts_with (map char8 bytes) (''GET /BASE0 HTTP/'') \<and>
    stream k' fd = stream k2 fd @ bytes_of (''ICY 200 OK'' @ crlf @ crlf) \<and>
    fd \<in> set (map fst (lc_slots c'))"
proof -
  obtain fd inet address k1 where acc: "net_accept net (lc_listener c) k = ((fd, inet, address), k1)"
    by (metis prod.exhaust)
  obtain r k2 where recv: "net_recv net fd 511 k1 = (r, k2)" by (rule prod.exhaust)
  have mount: "mount_prefix = ''GET /BASE0 HTTP/''" by (simp add: mount_prefix_def kLocalMountpoint_def)
  have pre: "starts_with (case r of Received bytes \<Rightarrow> map char8 bytes | RecvFailed _ \<Rightarrow> []) mount_prefix"
    using assms(2,3) acc recv by (auto simp: accept_client_def Let_def split: if_splits)
  then obtain bytes where r: "r = Received bytes" by (cases r) (auto simp: starts_with_def mount)
  have fd: "\<not> fd < 0" using assms(2,3) acc by (auto simp: accept_client_def)
  have pre': "starts_with (map char8 bytes) mount_prefix" using pre r by simp
  note run = assms(2) [unfolded accept_client_def acc recv r, simplified fd pre' if_False prod.case Let_def recv_result.case simp_thms]
  obtain slot where s1: "free_slot (lc_slots c) = Some slot"
    using run assms(3) by (cases "free_slot (lc_slots c)") (auto simp: pre' r fd recv)
  obtain sent k3 where s2: "lc_send_all net fd (bytes_of icy_response) k2 = Some (sent, k3)"
    using run s1 by (cases "lc_send_all net fd (bytes_of icy_response) k2") (auto simp: pre' r fd recv)
  have slot: "free_slot (lc_slots c) = Some slot" "lc_send_all net fd (bytes_of icy_response) k2 = Some (True, k')"
    "lc_slots c' = (lc_slots c)[slot := (fd, peer_ipv4 inet address)]"
    using run s1 s2 assms(3) by (cases sent; auto simp: pre' r fd recv)+
  have "stream k' fd = stream k2 fd @ bytes_of icy_response"
    using lc_send_all_stream [OF slot(2) assms(1)] by (auto simp: sent_prefix_def)
  moreover have "fd \<in> set (map fst (lc_slots c'))"
  proof -
    have "slot < length (lc_slots c)" using free_slot_Some [OF slot(1)] by simp
    then have "(fd, peer_ipv4 inet address) \<in> set (lc_slots c')" unfolding slot(3) by (rule set_update_memI)
    then show ?thesis by force
  qed
  ultimately show ?thesis using acc recv r pre mount
    by (intro exI [of _ fd] exI [of _ inet] exI [of _ address] exI [of _ k1] exI [of _ bytes] exI [of _ k2])
      (simp add: icy_response_def)
qed

text \<open>
  Suspension: while the streams are suspended nothing is queued, and one pass of the task
  disconnects every client, closes the listener and empties the queue.
\<close>

theorem suspended_caster_is_silent:
  assumes "queue_laws kQueueDepth qo contents" and "length (lc_slots c) = kMaxClients"
  shows "\<exists>c' k'. lc_iteration net qo (lc_set_suspended True c) k = Some (c', k') \<and>
    lc_client_count c' = 0 \<and> client_snapshot c' = [] \<and> lc_listener c' < 0 \<and>
    pred_option (\<lambda>q. contents q = []) (lc_queue c') \<and> lc_push qo data c' = c'"
proof -
  let ?c = "lc_set_suspended True c"
  obtain d k1 where d: "close_all net ?c k = (d, k1)" by (rule prod.exhaust)
  have "length (lc_slots ?c) = kMaxClients" using assms(2) by (simp add: lc_set_suspended_def)
  note inv = close_all_inv [OF this d]
  have susp: "lc_suspended ?c" by (simp add: lc_set_suspended_def)
  have closed: "list_all (\<lambda>(fd, ip). fd < 0 \<longrightarrow> ip = 0) (lc_slots d)" "open_fds (lc_slots d) = []"
    "lc_client_count d = 0" using inv by (auto simp: lc_inv_def)
  have "client_snapshot d = []"
    using closed by (fastforce simp: client_snapshot_def open_fds_def filter_empty_conv list_all_iff not_le)
  then show ?thesis using inv susp closed d queue_reset [OF assms(1)]
    by (auto simp: lc_iteration_def lc_reset_queue_def client_snapshot_def option.pred_map comp_def
        lc_push_def pred_option_def split: option.splits)
qed

lemma stalled_loop:
  assumes send: "\<And>d k. \<exists>k1. net_send net fd d k = (SendFailed EAGAIN, k1) \<and> clock k1 = clock k"
    and sel: "\<And>ms k. \<exists>k1. net_select_write net fd ms k = (SelectTimeout, k1) \<and> clock k1 = clock k + ms"
    and "offset < length data" "stalls < 10"
  shows "\<exists>k'. lc_send_loop net fd data offset stalls k = Some (False, k') \<and> clock k' = clock k + 100 * (10 - stalls)"
  using assms(4)
proof (induction "10 - stalls" arbitrary: stalls k)
  case (Suc n)
  obtain k1 where k1: "net_send net fd (drop offset data) k = (SendFailed EAGAIN, k1)" "clock k1 = clock k"
    using send by blast
  obtain k2 where k2: "net_select_write net fd 100 k1 = (SelectTimeout, k2)" "clock k2 = clock k1 + 100"
    using sel by blast
  show ?case
  proof (cases "stalls + 1 < 10")
    case True
    have "n = 10 - (stalls + 1)" using Suc.hyps(2) by linarith
    from Suc.hyps(1) [OF this True, of k2] obtain k' where "lc_send_loop net fd data offset (stalls + 1) k2 = Some (False, k')"
      "clock k' = clock k2 + 100 * (10 - (stalls + 1))" by blast
    moreover from this(2) have "clock k' = clock k + 100 * (10 - stalls)" using k1(2) k2(2) True by simp
    ultimately show ?thesis using k1 k2 assms(3) True by (subst lc_send_loop.simps) simp
  next
    case False
    then show ?thesis using k1 k2 assms(3) Suc.prems by (subst lc_send_loop.simps) auto
  qed
qed simp

text \<open>
  A client that stops reading holds the caster up for one second at most: when the socket
  never accepts a byte and never becomes writable, \<open>send_all\<close> gives up after ten waits of
  100 ms, and the client is then closed.
\<close>

theorem stalled_client_given_up:
  assumes "\<And>d k. \<exists>k1. net_send net fd d k = (SendFailed EAGAIN, k1) \<and> clock k1 = clock k"
    and "\<And>ms k. \<exists>k1. net_select_write net fd ms k = (SelectTimeout, k1) \<and> clock k1 = clock k + ms"
    and "packet \<noteq> []" and "0 \<le> fd"
  shows "\<exists>k'. clock k' = clock k + 1000 \<and>
    broadcast_slots net packet [(fd, ip)] k = Some ([(-1, 0)], net_close net True fd k')"
  using stalled_loop [where clock = clock, OF assms(1,2), of 0 packet 0 k] assms(3,4)
  by (auto simp: lc_send_all_def)

subsection \<open>Sockets in memory, for concrete runs\<close>

text \<open>Sockets that accept everything; one client asks for the mountpoint.\<close>

definition ram_net :: "(int \<Rightarrow> u8 list) net" where
  "ram_net = \<lparr>net_socket = (\<lambda>k. (3, k)), net_bind = (\<lambda>_ _ k. (0, k)), net_listen = (\<lambda>_ _ k. (0, k)),
     net_accept = (\<lambda>_ k. ((4, True, 0x0100A8C0), k)),
     net_recv = (\<lambda>_ _ k. (Received (bytes_of ''GET /BASE0 HTTP/1.1''), k)),
     net_send = (\<lambda>fd d k. (Sent (length d), k(fd := k fd @ d))),
     net_select_write = (\<lambda>_ _ k. (SelectReady, k)), net_select_read = (\<lambda>_ _ k. (SelectReady, k)),
     net_close = (\<lambda>_ _ k. k)\<rparr>"

lemma ram_net_laws: "net_laws ram_net (\<lambda>k. k)" "net_settles ram_net (\<lambda>_. 0)"
  by (auto simp: net_laws_def net_settles_def ram_net_def)

text \<open>Sockets that are never writable, with a clock in milliseconds.\<close>

definition stuck_net :: "nat net" where
  "stuck_net = \<lparr>net_socket = (\<lambda>k. (3, k)), net_bind = (\<lambda>_ _ k. (0, k)), net_listen = (\<lambda>_ _ k. (0, k)),
     net_accept = (\<lambda>_ k. ((-1, False, 0), k)), net_recv = (\<lambda>_ _ k. (RecvFailed EAGAIN, k)),
     net_send = (\<lambda>_ _ k. (SendFailed EAGAIN, k)),
     net_select_write = (\<lambda>_ ms k. (SelectTimeout, k + ms)), net_select_read = (\<lambda>_ ms k. (SelectTimeout, k + ms)),
     net_close = (\<lambda>_ _ k. k)\<rparr>"

lemma client_table_consistent_witness:
  "lc_client_count (lc_set_suspended True (local_caster_init :: u8 list list local_caster)) \<le> 8"
proof -
  have "rtranclp (lc_step ram_net (list_queue kQueueDepth)) (local_caster_init, \<lambda>_. [])
      (lc_set_suspended True local_caster_init, \<lambda>_. [])"
    by (rule r_into_rtranclp) (rule lc_step.Suspend)
  from client_table_consistent [OF this] show ?thesis by simp
qed

lemma ram_send: "lc_send_all ram_net fd data k = Some (True, k(fd := k fd @ data))"
proof (cases "data = []")
  case True
  then show ?thesis unfolding lc_send_all_def by (subst lc_send_loop.simps) simp
next
  case False
  then show ?thesis unfolding lc_send_all_def
    by (subst lc_send_loop.simps, subst lc_send_loop.simps) (simp add: ram_net_def)
qed

lemma broadcast_whole_or_closed_witness:
  "let c = local_caster_init\<lparr>lc_slots := [(4, 1)]\<rparr> :: u8 list list local_caster
   in \<exists>c' k'. broadcast ram_net [7, 8] c (\<lambda>_. []) = Some (c', k') \<and> k' 4 = [7, 8]"
proof -
  let ?c = "local_caster_init\<lparr>lc_slots := [(4, 1)]\<rparr> :: u8 list list local_caster"
  obtain c' k' where b: "broadcast ram_net [7, 8] ?c (\<lambda>_. []) = Some (c', k')" "lc_slots c' = [(4, 1)]"
    by (simp add: broadcast_def ram_send)
  from broadcast_whole_or_closed [OF ram_net_laws(1) b(1), of 0 4 1] b show ?thesis
    by (simp add: Let_def)
qed

lemma local_send_all_returns_witness:
  "\<exists>ok k' m. lc_send_all ram_net 4 [1, 2, 3] (\<lambda>_. []) = Some (ok, k') \<and> m \<le> (3 :: nat) \<and> (ok \<longleftrightarrow> m = 3)"
  using local_send_all_returns [OF ram_net_laws(2,1), of 4 "[1, 2, 3]" "\<lambda>_. []"]
  by (auto simp: numeral_3_eq_3)

lemma batch_flush_fits_queue_witness:
  "let b = fst (batch_run (\<lambda>w d. w @ [d]) rtcm_batch_init [Publish [1, 2] 10, Publish [3] 20] []);
       c = local_caster_init\<lparr>lc_suspended := False, lc_queue := Some []\<rparr>
   in lc_queue (snd (flush_batch_frames (\<lambda>c f. lc_push (list_queue kQueueDepth) f c) b c)) = Some (batch_frames b)"
proof -
  have "publishable [Publish [1, 2] 10, Publish [3] 20]" by (simp add: kMaxRtcmFrame_def)
  from batch_run_conserves [OF batch_inv_init this, of "\<lambda>w d. w @ [d]" "[]"]
  have "batch_inv (fst (batch_run (\<lambda>w d. w @ [d]) rtcm_batch_init [Publish [1, 2] 10, Publish [3] 20] []))" by blast
  from batch_flush_fits_queue [OF list_queue_laws this, of "local_caster_init\<lparr>lc_suspended := False, lc_queue := Some []\<rparr>" "[]"]
  show ?thesis by (simp add: Let_def)
qed

lemma only_mount_request_gets_stream_witness:
  "let c = local_caster_init :: u8 list list local_caster; r = the (accept_client ram_net c (\<lambda>_. []))
   in snd r 4 = bytes_of (''ICY 200 OK'' @ crlf @ crlf) \<and> 4 \<in> set (map fst (lc_slots (fst r)))"
proof -
  let ?c = "local_caster_init :: u8 list list local_caster"
  have pre: "starts_with (map char8 (bytes_of ''GET /BASE0 HTTP/1.1'')) mount_prefix"
    by (simp add: bytes_of_def starts_with_def mount_prefix_def kLocalMountpoint_def)
  have nth: "free_slot (lc_slots ?c) = Some 0" by (simp add: local_caster_init_def kMaxClients_def numeral_eq_Suc)
  have acc: "net_accept ram_net l k = ((4, True, 0x0100A8C0), k)" for l k by (simp add: ram_net_def)
  have recv: "net_recv ram_net l n k = (Received (bytes_of ''GET /BASE0 HTTP/1.1''), k)" for l n k by (simp add: ram_net_def)
  obtain c' k' where r: "accept_client ram_net ?c (\<lambda>_. []) = Some (c', k')"
    "lc_slots c' = (lc_slots ?c)[0 := (4, 0x0100A8C0)]"
    using pre nth by (simp add: accept_client_def acc recv ram_send peer_ipv4_def)
  have "lc_slots c' \<noteq> lc_slots ?c" unfolding r(2) by (simp add: local_caster_init_def kMaxClients_def numeral_eq_Suc)
  from only_mount_request_gets_stream [OF ram_net_laws(1) r(1) this] r show ?thesis
    by (auto simp: acc recv Let_def)
qed

lemma suspended_caster_is_silent_witness:
  "\<exists>c' k'. lc_iteration ram_net (list_queue kQueueDepth)
      (lc_set_suspended True (local_caster_init\<lparr>lc_queue := Some [[1]]\<rparr>)) (\<lambda>_. []) = Some (c', k') \<and>
    lc_client_count c' = 0 \<and> pred_option (\<lambda>q. q = []) (lc_queue c')"
  using suspended_caster_is_silent [OF list_queue_laws, of "local_caster_init\<lparr>lc_queue := Some [[1]]\<rparr>" ram_net "\<lambda>_. []" "[]"]
  by (auto simp: local_caster_init_def)

lemma stalled_client_given_up_witness:
  "broadcast_slots stuck_net [1, 2] [(4, 9)] 0 = Some ([(-1, 0)], 1000)"
proof -
  have "\<exists>k1. net_send stuck_net 4 d k = (SendFailed EAGAIN, k1) \<and> k1 = k" for d k
    by (simp add: stuck_net_def)
  moreover have "\<exists>k1. net_select_write stuck_net 4 ms k = (SelectTimeout, k1) \<and> k1 = k + ms" for ms k
    by (simp add: stuck_net_def)
  ultimately have "\<exists>k'. k' = 0 + 1000 \<and>
      broadcast_slots stuck_net [1, 2] [(4, 9)] 0 = Some ([(-1, 0)], net_close stuck_net True 4 k')"
    by (rule stalled_client_given_up) simp_all
  then show ?thesis by (simp add: stuck_net_def)
qed

end
