(* ===== verification/NtripPush.thy ===== *)
theory NtripPush
  imports CText RtosQueue
begin

text \<open>
  An outbound NTRIP client of \<open>main/ntrip_push.cpp\<close>: the packet queue with its
  drop-oldest policy, the socket and handshake code for both protocol versions, the stall
  limit, the retry back-off, and one pass of the task loop.

  The atomics of the object can be changed by other tasks while this one waits in the
  kernel: \<open>meanwhile\<close> is what they did to it by the time the kernel is in a given state.
  Loops over the kernel give an option (\<open>None\<close> is not returning).
\<close>

subsection \<open>Back-off\<close>

definition kBaseRetryMs :: int where "kBaseRetryMs = 10000"
definition kMaxRetryMs :: int where "kMaxRetryMs = 120000"
definition kMaxSendStallSeconds :: nat where "kMaxSendStallSeconds = 8"
definition kLongBackoffThreshold :: int where "kLongBackoffThreshold = 8"
definition kLongBackoffMs :: int where "kLongBackoffMs = 600000"
definition kLongBackoffJitterMs :: u32 where "kLongBackoffJitterMs = 120000"
definition kHealthyStreakUs :: time_us where "kHealthyStreakUs = 5000000"
definition kPushQueueDepth :: nat where "kPushQueueDepth = 8"
definition kPushMaxPacket :: nat where "kPushMaxPacket = 1200"

lemmas retry_constants = kBaseRetryMs_def kMaxRetryMs_def kLongBackoffThreshold_def kLongBackoffMs_def
  kLongBackoffJitterMs_def

text \<open>\<open>retry_delay_ms\<close>, given what \<open>esp_random\<close> returned.\<close>

definition retry_delay_ms :: "u32 \<Rightarrow> int \<Rightarrow> int" where
  "retry_delay_ms r failures =
     (if kLongBackoffThreshold \<le> failures
      then kLongBackoffMs + uint (r mod kLongBackoffJitterMs)
      else
        let capped = (if failures < 1 then 1 else if 4 < failures then 4 else failures);
            base = min (push_bit (nat (capped - 1)) kBaseRetryMs) kMaxRetryMs;
            jitter = uint (r mod 5000)
        in min (base + jitter) kMaxRetryMs)"

subsection \<open>State and environment\<close>

datatype ntrip_protocol = NtripV1 | NtripV2

record ntrip_config =
  nc_host :: string
  nc_port :: u16
  nc_protocol :: ntrip_protocol
  nc_connect_stagger_ms :: u32

record 'q ntrip =
  np_queue :: "'q option"
  np_stopping :: bool
  np_suspended :: bool
  np_reconnect :: bool
  np_connected :: bool
  np_bytes_sent :: nat
  np_dropped_batches :: u32
  np_reconnects :: u32
  np_ever_connected :: bool
  np_connected_since_us :: time_us
  np_last_send_us :: time_us
  np_resumed_us :: time_us
  np_enabled :: bool
  np_mountpoint :: string
  np_password :: string
  np_message :: string
  np_last_error :: string
  np_socket :: int
  np_cached_addr :: u32
  np_cached_addr_valid :: bool

definition ntrip_init :: "'q ntrip" where
  "ntrip_init = \<lparr>np_queue = None, np_stopping = False, np_suspended = True, np_reconnect = False,
     np_connected = False, np_bytes_sent = 0, np_dropped_batches = 0, np_reconnects = 0,
     np_ever_connected = False, np_connected_since_us = 0, np_last_send_us = 0, np_resumed_us = 0,
     np_enabled = False, np_mountpoint = [], np_password = [], np_message = ''disabled'',
     np_last_error = [], np_socket = -1, np_cached_addr = 0, np_cached_addr_valid = False\<rparr>"

text \<open>
  The rest of the kernel: name resolution, \<open>connect\<close> (\<open>None\<close> for success), the pending socket
  error (\<open>None\<close> when \<open>getsockopt\<close> fails), the clocks, the random source, and the library
  functions whose text is not fixed here.
\<close>

record 'k wan = "'k net" +
  wan_resolve :: "string \<Rightarrow> string \<Rightarrow> 'k \<Rightarrow> u32 option \<times> 'k"
  wan_connect :: "int \<Rightarrow> u32 \<Rightarrow> u16 \<Rightarrow> 'k \<Rightarrow> errno option \<times> 'k"
  wan_so_error :: "int \<Rightarrow> 'k \<Rightarrow> int option \<times> 'k"
  wan_now :: "'k \<Rightarrow> time_us"
  wan_ticks :: "'k \<Rightarrow> u32"
  wan_tick_ms :: u32
  wan_random :: "'k \<Rightarrow> u32 \<times> 'k"
  wan_strerror :: "errno \<Rightarrow> string"
  wan_base64 :: "string \<Rightarrow> string"

type_synonym ('q, 'k) meanwhile = "'k \<Rightarrow> 'q ntrip \<Rightarrow> 'q ntrip"

fun errno_number :: "errno \<Rightarrow> int" where
  "errno_number EINTR = 4"
| "errno_number EAGAIN = 11"
| "errno_number EINPROGRESS = 119"
| "errno_number (EOTHER n) = n"

definition errno_message :: "'k wan \<Rightarrow> string \<Rightarrow> errno \<Rightarrow> string" where
  "errno_message w prefix e =
     take 95 (prefix @ '': errno '' @ dec_int (errno_number e) @ '' ('' @ wan_strerror w e @ '')'')"

subsection \<open>Operations of the other tasks\<close>

definition np_configure :: "bool \<Rightarrow> string \<Rightarrow> string \<Rightarrow> 'q ntrip \<Rightarrow> 'q ntrip" where
  "np_configure enabled mountpoint password p =
     (let on = enabled \<and> mountpoint \<noteq> []
      in p\<lparr>np_enabled := on, np_mountpoint := mountpoint, np_password := password,
           np_message := (if on then ''waiting'' else ''disabled''), np_reconnect := True\<rparr>)"

definition np_set_suspended :: "bool \<Rightarrow> time_us \<Rightarrow> 'q ntrip \<Rightarrow> 'q ntrip" where
  "np_set_suspended suspended now p =
     (let was_suspended = np_suspended p; p = p\<lparr>np_suspended := suspended\<rparr>
      in if suspended then p\<lparr>np_resumed_us := 0, np_reconnect := True\<rparr>
         else if was_suspended then p\<lparr>np_resumed_us := now\<rparr>
         else p)"

definition np_push :: "('q, u8 list) queue_ops \<Rightarrow> u8 list \<Rightarrow> 'q ntrip \<Rightarrow> bool \<times> 'q ntrip" where
  "np_push qo data p =
     (case np_queue p of
        None \<Rightarrow> (False, p)
      | Some q \<Rightarrow>
          if data = [] \<or> np_suspended p \<or> \<not> np_connected p then (False, p)
          else
            let packet = take kPushMaxPacket data; (ok, q) = q_send qo packet q in
            if ok then (True, p\<lparr>np_queue := Some q\<rparr>)
            else
              let q = snd (q_receive qo q);
                  p = p\<lparr>np_dropped_batches := np_dropped_batches p + 1\<rparr>;
                  q = snd (q_send qo packet q)
              in (True, p\<lparr>np_queue := Some q\<rparr>))"

text \<open>\<open>start\<close>, given the created queue and whether the task could be created.\<close>

definition np_start :: "'q option \<Rightarrow> bool \<Rightarrow> bool \<Rightarrow> string \<Rightarrow> string \<Rightarrow> 'q ntrip \<Rightarrow> esp_err \<times> 'q ntrip" where
  "np_start created task_ok enabled mountpoint password p =
     (let p = np_configure enabled mountpoint password (p\<lparr>np_stopping := False\<rparr>);
          p = p\<lparr>np_queue := created\<rparr>
      in if created = None then (ESP_ERR_NO_MEM, p)
         else if \<not> task_ok then (ESP_ERR_NO_MEM, p\<lparr>np_queue := None\<rparr>)
         else (ESP_OK, p))"

record ntrip_status =
  ns_enabled :: bool
  ns_connected :: bool
  ns_message :: string
  ns_bytes_sent :: nat
  ns_dropped_batches :: u32
  ns_reconnects :: u32
  ns_last_error :: string
  ns_connected_sec :: u32
  ns_last_send_age_sec :: u32
  ns_ever_sent :: bool

definition np_status :: "time_us \<Rightarrow> 'q ntrip \<Rightarrow> ntrip_status" where
  "np_status now p =
     \<lparr>ns_enabled = np_enabled p, ns_connected = np_connected p, ns_message = np_message p,
      ns_bytes_sent = np_bytes_sent p, ns_dropped_batches = np_dropped_batches p,
      ns_reconnects = np_reconnects p, ns_last_error = np_last_error p,
      ns_connected_sec = (if np_connected p \<and> 0 < np_connected_since_us p
                          then of_int ((now - np_connected_since_us p) div 1000000) else 0),
      ns_last_send_age_sec = (if 0 < np_last_send_us p
                              then of_int ((now - np_last_send_us p) div 1000000) else 0),
      ns_ever_sent = (0 < np_last_send_us p)\<rparr>"

subsection \<open>Socket helpers\<close>

definition np_set_message :: "string \<Rightarrow> bool \<Rightarrow> 'q ntrip \<Rightarrow> 'q ntrip" where
  "np_set_message message up p = p\<lparr>np_message := message, np_connected := up\<rparr>"

definition np_set_error :: "string \<Rightarrow> 'q ntrip \<Rightarrow> 'q ntrip" where
  "np_set_error e p = p\<lparr>np_last_error := e, np_message := e\<rparr>"

definition np_close_socket :: "'k wan \<Rightarrow> 'q ntrip \<Rightarrow> 'k \<Rightarrow> 'q ntrip \<times> 'k" where
  "np_close_socket w p k =
     (let p = p\<lparr>np_connected := False\<rparr>
      in if 0 \<le> np_socket p
         then (p\<lparr>np_socket := -1\<rparr>, net_close w True (np_socket p) k)
         else (p, k))"

text \<open>
  One turn of the loop of \<open>send_all\<close>: go round again with an offset and a stall count, or
  return (\<open>None\<close> is success, \<open>Some\<close> the failure reason).
\<close>

datatype ('p, 'k) send_turn =
    SendAgain nat nat 'p 'k
  | SendDone "string option" 'p 'k

definition np_send_turn ::
    "'k wan \<Rightarrow> ('q, 'k) meanwhile \<Rightarrow> u8 list \<Rightarrow> nat \<Rightarrow> nat \<Rightarrow> 'q ntrip \<Rightarrow> 'k \<Rightarrow> ('q ntrip, 'k) send_turn" where
  "np_send_turn w meanwhile data offset stalled p k =
     (if offset < length data \<and> 0 \<le> np_socket p \<and> \<not> np_suspended p \<and> \<not> np_stopping p then
        (case net_send w (np_socket p) (drop offset data) k of
           (Sent n, k) \<Rightarrow>
             (let p = meanwhile k p in
              if 0 < n then SendAgain (offset + n) 0 (p\<lparr>np_bytes_sent := np_bytes_sent p + n\<rparr>) k
              else SendDone (Some ''socket closed'') p k)
         | (SendFailed e, k) \<Rightarrow>
             (let p = meanwhile k p in
              if e = EINTR then SendAgain offset stalled p k
              else if e = EAGAIN then
                (case net_select_write w (np_socket p) 1000 k of (ready, k) \<Rightarrow>
                   (let p = meanwhile k p in
                    case ready of
                      SelectReady \<Rightarrow> SendAgain offset stalled p k
                    | SelectFailed e \<Rightarrow>
                        if e = EINTR then SendAgain offset stalled p k
                        else SendDone (Some (errno_message w ''select failed'' e)) p k
                    | SelectTimeout \<Rightarrow>
                        if stalled + 1 < kMaxSendStallSeconds then SendAgain offset (stalled + 1) p k
                        else SendDone (Some ''socket write stalled'') p k))
              else SendDone (Some (errno_message w ''send failed'' e)) p k))
      else
        SendDone (if offset = length data then None
                  else if np_suspended p then Some ''stream suspended''
                  else if np_stopping p then Some ''client stopping''
                  else Some ''socket closed'') p k)"

partial_function (option) np_send_loop ::
    "'k wan \<Rightarrow> ('q, 'k) meanwhile \<Rightarrow> u8 list \<Rightarrow> nat \<Rightarrow> nat \<Rightarrow> 'q ntrip \<Rightarrow> 'k \<Rightarrow>
     (string option \<times> 'q ntrip \<times> 'k) option" where
  "np_send_loop w meanwhile data offset stalled p k =
     (case np_send_turn w meanwhile data offset stalled p k of
        SendAgain offset stalled p k \<Rightarrow> np_send_loop w meanwhile data offset stalled p k
      | SendDone reason p k \<Rightarrow> Some (reason, p, k))"

definition np_send_all ::
    "'k wan \<Rightarrow> ('q, 'k) meanwhile \<Rightarrow> u8 list \<Rightarrow> 'q ntrip \<Rightarrow> 'k \<Rightarrow> (string option \<times> 'q ntrip \<times> 'k) option" where
  "np_send_all w meanwhile data p k = np_send_loop w meanwhile data 0 0 p k"

partial_function (option) np_read_loop ::
    "'k wan \<Rightarrow> int \<Rightarrow> u32 \<Rightarrow> u32 \<Rightarrow> string \<Rightarrow> 'k \<Rightarrow> (string \<times> 'k) option" where
  "np_read_loop w fd started timeout_ms line k =
     (if (wan_ticks w k - started) * wan_tick_ms w < timeout_ms then
        (case net_select_read w fd 100 k of (ready, k) \<Rightarrow>
           if ready = SelectTimeout then np_read_loop w fd started timeout_ms line k
           else if ready = SelectFailed EINTR then np_read_loop w fd started timeout_ms line k
           else if ready \<noteq> SelectReady then Some (line, k)
           else
             (case net_recv w fd 1 k of (received, k) \<Rightarrow>
                (case received of
                   RecvFailed e \<Rightarrow>
                     if e \<noteq> EAGAIN \<and> e \<noteq> EINTR then Some (line, k)
                     else np_read_loop w fd started timeout_ms line k
                 | Received bytes \<Rightarrow>
                     (case bytes of
                        [] \<Rightarrow> Some (line, k)
                      | b # _ \<Rightarrow>
                          if b = 10 then Some (line, k)
                          else np_read_loop w fd started timeout_ms
                                 (if b \<noteq> 13 \<and> length line < 255 then line @ [char8 b] else line) k))))
      else Some (line, k))"

definition np_read_line :: "'k wan \<Rightarrow> int \<Rightarrow> u32 \<Rightarrow> 'k \<Rightarrow> (string \<times> 'k) option" where
  "np_read_line w fd timeout_ms k = np_read_loop w fd (wan_ticks w k) timeout_ms [] k"

partial_function (option) np_drain_headers :: "'k wan \<Rightarrow> int \<Rightarrow> 'k \<Rightarrow> 'k option" where
  "np_drain_headers w fd k =
     (case np_read_line w fd 3000 k of
        None \<Rightarrow> None
      | Some (line, k) \<Rightarrow> if line = [] then Some k else np_drain_headers w fd k)"

definition np_connect_socket :: "'k wan \<Rightarrow> ntrip_config \<Rightarrow> 'q ntrip \<Rightarrow> 'k \<Rightarrow> bool \<times> 'q ntrip \<times> 'k" where
  "np_connect_socket w cfg p k =
     (let (resolved, p, k) =
        (if np_cached_addr_valid p then (True, p, k)
         else case wan_resolve w (nc_host cfg) (dec_nat (unat (nc_port cfg))) k of
                (None, k) \<Rightarrow> (False, p, k)
              | (Some a, k) \<Rightarrow> (True, p\<lparr>np_cached_addr := a, np_cached_addr_valid := True\<rparr>, k))
      in if \<not> resolved then (False, p, k)
         else
           let (fd, k) = net_socket w k; p = p\<lparr>np_socket := fd\<rparr> in
           if fd < 0 then (False, p\<lparr>np_cached_addr_valid := False\<rparr>, k)
           else
             let (failed, k) = wan_connect w fd (np_cached_addr p) (nc_port cfg) k in
             if failed \<noteq> None \<and> failed \<noteq> Some EINPROGRESS then
               let (p, k) = np_close_socket w p k in (False, p\<lparr>np_cached_addr_valid := False\<rparr>, k)
             else
               let (ready, k) = net_select_write w fd 4000 k in
               if ready \<noteq> SelectReady then
                 let (p, k) = np_close_socket w p k in (False, p, k)
               else
                 let (pending, k) = wan_so_error w fd k in
                 if pending \<noteq> Some 0 then
                   let (p, k) = np_close_socket w p k in (False, p, k)
                 else (True, p, k))"

subsection \<open>The handshake\<close>

definition handshake_request :: "'k wan \<Rightarrow> ntrip_config \<Rightarrow> string \<Rightarrow> string \<Rightarrow> string" where
  "handshake_request w cfg mountpoint password =
     (if nc_protocol cfg = NtripV1 then
        ''SOURCE '' @ password @ '' /'' @ mountpoint @ crlf @
        ''Source-Agent: NTRIP ESP32BaseStation/2.0'' @ crlf @ crlf
      else
        ''POST /'' @ mountpoint @ '' HTTP/1.1'' @ crlf @
        ''Host: '' @ nc_host cfg @ '':'' @ dec_nat (unat (nc_port cfg)) @ crlf @
        ''Ntrip-Version: Ntrip/2.0'' @ crlf @
        ''User-Agent: NTRIP ESP32BaseStation/2.0'' @ crlf @
        ''Authorization: Basic '' @ wan_base64 w (mountpoint @ '':'' @ password) @ crlf @
        ''Content-Type: application/octet-stream'' @ crlf @
        ''Connection: keep-alive'' @ crlf @ crlf)"

definition accepted_response :: "string \<Rightarrow> bool" where
  "accepted_response response \<longleftrightarrow>
     starts_with response ''ICY 200'' \<or> starts_with response ''HTTP/1.1 200'' \<or>
     starts_with response ''HTTP/1.0 200''"

text \<open>The part of \<open>connect_caster\<close> after the response line has been accepted.\<close>

definition np_connected_now :: "'k wan \<Rightarrow> ntrip_config \<Rightarrow> 'q ntrip \<Rightarrow> 'k \<Rightarrow> 'q ntrip" where
  "np_connected_now w cfg p k =
     (let p = (if np_ever_connected p then p\<lparr>np_reconnects := np_reconnects p + 1\<rparr> else p);
          p = p\<lparr>np_ever_connected := True, np_connected_since_us := wan_now w k\<rparr>
      in np_set_message (if nc_protocol cfg = NtripV2 then ''connected (v2)'' else ''connected (v1)'') True p)"

definition np_connect_caster ::
    "'k wan \<Rightarrow> ntrip_config \<Rightarrow> ('q, 'k) meanwhile \<Rightarrow> 'q ntrip \<Rightarrow> 'k \<Rightarrow> (bool \<times> 'q ntrip \<times> 'k) option" where
  "np_connect_caster w cfg meanwhile p k =
     (let mountpoint = np_mountpoint p; password = np_password p;
          (up, p, k) = np_connect_socket w cfg p k
      in if \<not> up then Some (False, np_set_error ''TCP connect failed'' p, k)
         else
           (case np_send_all w meanwhile (map byte8 (handshake_request w cfg mountpoint password)) p k of
              None \<Rightarrow> None
            | Some (Some reason, p, k) \<Rightarrow>
                let p = np_set_error (if reason = [] then ''handshake write failed''
                                      else ''handshake write failed: '' @ reason) p;
                    (p, k) = np_close_socket w p k
                in Some (False, p, k)
            | Some (None, p, k) \<Rightarrow>
                (case np_read_line w (np_socket p) 4000 k of
                   None \<Rightarrow> None
                 | Some (response, k) \<Rightarrow>
                     let p = meanwhile k p in
                     if \<not> accepted_response response then
                       let p = np_set_error (if response = [] then ''empty response''
                                             else ''rejected: '' @ response) p;
                           (p, k) = np_close_socket w p k
                       in Some (False, p, k)
                     else if starts_with response ''HTTP/'' then
                       (case np_drain_headers w (np_socket p) k of
                          None \<Rightarrow> None
                        | Some k \<Rightarrow> Some (True, np_connected_now w cfg (meanwhile k p) k, k))
                     else Some (True, np_connected_now w cfg p k, k))))"

subsection \<open>One pass of the task loop\<close>

text \<open>
  The locals of \<open>run\<close>: the failure count and the start of the healthy streak. A pass also gives
  the delay it ends with, in milliseconds.
\<close>

record np_task =
  nt_failures :: int
  nt_healthy_since_us :: time_us

definition np_reset_queue :: "('q, u8 list) queue_ops \<Rightarrow> 'q ntrip \<Rightarrow> 'q ntrip" where
  "np_reset_queue qo p = p\<lparr>np_queue := map_option (q_reset qo) (np_queue p)\<rparr>"

definition np_idle ::
    "'k wan \<Rightarrow> ('q, u8 list) queue_ops \<Rightarrow> 'q ntrip \<Rightarrow> 'k \<Rightarrow> 'q ntrip \<times> np_task \<times> 'k \<times> int" where
  "np_idle w qo p k =
     (let enabled = np_enabled p;
          (p, k) = np_close_socket w p k;
          p = np_set_message (if enabled then ''suspended'' else ''disabled'') False (np_reset_queue qo p)
      in (p, \<lparr>nt_failures = 0, nt_healthy_since_us = 0\<rparr>, k, 250))"

definition np_handle_reconnect ::
    "'k wan \<Rightarrow> ('q, u8 list) queue_ops \<Rightarrow> 'q ntrip \<Rightarrow> np_task \<Rightarrow> 'k \<Rightarrow> 'q ntrip \<times> np_task \<times> 'k" where
  "np_handle_reconnect w qo p t k =
     (if np_reconnect p then
        let (p, k) = np_close_socket w (p\<lparr>np_reconnect := False\<rparr>) k
        in (np_reset_queue qo p, \<lparr>nt_failures = 0, nt_healthy_since_us = 0\<rparr>, k)
      else (p, t, k))"

text \<open>Whether the connect stagger is still running.\<close>

definition np_staggered :: "ntrip_config \<Rightarrow> time_us \<Rightarrow> 'q ntrip \<Rightarrow> bool" where
  "np_staggered cfg now p \<longleftrightarrow> 0 < np_resumed_us p \<and> 0 < nc_connect_stagger_ms cfg \<and>
     now - np_resumed_us p < uint (nc_connect_stagger_ms cfg) * 1000"

definition np_end_stagger :: "ntrip_config \<Rightarrow> 'q ntrip \<Rightarrow> 'q ntrip" where
  "np_end_stagger cfg p =
     (if 0 < np_resumed_us p \<and> 0 < nc_connect_stagger_ms cfg then p\<lparr>np_resumed_us := 0\<rparr> else p)"

definition np_connect_failed ::
    "'k wan \<Rightarrow> 'q ntrip \<Rightarrow> np_task \<Rightarrow> 'k \<Rightarrow> 'q ntrip \<times> np_task \<times> 'k \<times> int" where
  "np_connect_failed w p t k =
     (let failures = nt_failures t + 1;
          p = (if failures = 3 then p\<lparr>np_cached_addr_valid := False\<rparr> else p);
          (r, k) = wan_random w k
      in (p, \<lparr>nt_failures = failures, nt_healthy_since_us = 0\<rparr>, k, retry_delay_ms r failures))"

text \<open>Take the next packet (the wait of up to a second is the kernel's) and send it.\<close>

definition np_transfer ::
    "'k wan \<Rightarrow> ('q, u8 list) queue_ops \<Rightarrow> ('q, 'k) meanwhile \<Rightarrow> 'q ntrip \<Rightarrow> np_task \<Rightarrow> 'k \<Rightarrow>
     ('q ntrip \<times> np_task \<times> 'k \<times> int) option" where
  "np_transfer w qo meanwhile p t k =
     (case np_queue p of
        None \<Rightarrow> Some (p, t, k, 0)
      | Some q \<Rightarrow>
          (case q_receive qo q of
             (None, q) \<Rightarrow> Some (p\<lparr>np_queue := Some q\<rparr>, t, k, 0)
           | (Some packet, q) \<Rightarrow>
               (case np_send_all w meanwhile packet (p\<lparr>np_queue := Some q\<rparr>) k of
                  None \<Rightarrow> None
                | Some (None, p, k) \<Rightarrow>
                    let now = wan_now w k;
                        p = p\<lparr>np_last_send_us := now\<rparr>;
                        healthy = (if nt_healthy_since_us t = 0 then now else nt_healthy_since_us t);
                        failures = (if kHealthyStreakUs \<le> now - healthy then 0 else nt_failures t)
                    in Some (p, \<lparr>nt_failures = failures, nt_healthy_since_us = healthy\<rparr>, k, 0)
                | Some (Some reason, p, k) \<Rightarrow>
                    let p = p\<lparr>np_reconnects := np_reconnects p + 1\<rparr>;
                        failures = nt_failures t + 1;
                        p = np_set_error (if reason = [] then ''write failed; reconnecting''
                              else ''write failed: '' @ reason @ ''; reconnecting'') p;
                        (p, k) = np_close_socket w p k;
                        p = np_set_message ''waiting to reconnect'' False p;
                        (r, k) = wan_random w k
                    in Some (p, \<lparr>nt_failures = failures, nt_healthy_since_us = 0\<rparr>, k,
                             retry_delay_ms r failures))))"

definition np_iteration ::
    "'k wan \<Rightarrow> ntrip_config \<Rightarrow> ('q, u8 list) queue_ops \<Rightarrow> ('q, 'k) meanwhile \<Rightarrow> 'q ntrip \<Rightarrow> np_task \<Rightarrow> 'k \<Rightarrow>
     ('q ntrip \<times> np_task \<times> 'k \<times> int) option" where
  "np_iteration w cfg qo meanwhile p t k =
     (if np_suspended p \<or> \<not> np_enabled p then Some (np_idle w qo p k)
      else
        let (p, t, k) = np_handle_reconnect w qo p t k in
        if np_staggered cfg (wan_now w k) p
        then Some (np_set_message ''waiting to connect'' False p, t, k, 250)
        else
          let p = np_end_stagger cfg p in
          if np_socket p < 0 then
            (case np_connect_caster w cfg meanwhile (np_set_message ''connecting'' False p) k of
               None \<Rightarrow> None
             | Some (up, p, k) \<Rightarrow>
                 if \<not> up then Some (np_connect_failed w p t k)
                 else np_transfer w qo meanwhile p t k)
          else np_transfer w qo meanwhile p t k)"

text \<open>\<open>stop\<close>, once the task has left its loop (the loop itself ends with \<open>close_socket\<close>).\<close>

definition np_stop :: "'k wan \<Rightarrow> 'q ntrip \<Rightarrow> 'k \<Rightarrow> 'q ntrip \<times> 'k" where
  "np_stop w p k =
     (let (p, k) = np_close_socket w (p\<lparr>np_stopping := True, np_reconnect := True\<rparr>) k
      in (p\<lparr>np_queue := None\<rparr>, k))"

subsection \<open>What a send leaves behind\<close>

text \<open>
  The fields only the client's own task writes; what the other tasks do meanwhile keeps them.
\<close>

definition same_link :: "'q ntrip \<Rightarrow> 'q ntrip \<Rightarrow> bool" where
  "same_link p p' \<longleftrightarrow> np_socket p' = np_socket p \<and> np_connected p' = np_connected p"

definition other_tasks_quiet :: "('q, 'k) meanwhile \<Rightarrow> bool" where
  "other_tasks_quiet meanwhile \<longleftrightarrow>
     (\<forall>k p. same_link p (meanwhile k p) \<and> np_bytes_sent (meanwhile k p) = np_bytes_sent p)"

lemma same_link_refl [simp]: "same_link p p"
  by (simp add: same_link_def)

lemma same_link_trans: "same_link p p' \<Longrightarrow> same_link p' p'' \<Longrightarrow> same_link p p''"
  by (simp add: same_link_def)

lemma same_link_update [simp]:
  "same_link p (p'\<lparr>np_bytes_sent := b\<rparr>) = same_link p p'"
  "same_link p (p'\<lparr>np_queue := q\<rparr>) = same_link p p'"
  "same_link p (p'\<lparr>np_suspended := s\<rparr>) = same_link p p'"
  by (simp_all add: same_link_def)

lemma quiet_link [simp]: "other_tasks_quiet m \<Longrightarrow> same_link p (m k p)"
  by (simp add: other_tasks_quiet_def)

lemma quiet_link2 [simp]: "other_tasks_quiet m \<Longrightarrow> same_link p (m k' (m k p))"
  by (rule same_link_trans [OF quiet_link quiet_link])

lemma quiet_fields [simp]:
  "other_tasks_quiet m \<Longrightarrow> np_socket (m k p) = np_socket p"
  "other_tasks_quiet m \<Longrightarrow> np_bytes_sent (m k p) = np_bytes_sent p"
  "other_tasks_quiet m \<Longrightarrow> np_connected (m k p) = np_connected p"
  by (simp_all add: other_tasks_quiet_def same_link_def)

lemma other_operations_quiet:
  "same_link p (np_configure e mp pw p)" "same_link p (np_set_suspended b now p)" "same_link p (snd (np_push qo d p))"
  "np_bytes_sent (np_configure e mp pw p) = np_bytes_sent p"
  "np_bytes_sent (np_set_suspended b now p) = np_bytes_sent p" "np_bytes_sent (snd (np_push qo d p)) = np_bytes_sent p"
  by (simp_all add: same_link_def np_configure_def np_set_suspended_def np_push_def Let_def split: option.splits prod.splits)

text \<open>\<open>n\<close> more bytes of the data went out on the client's socket, and were counted.\<close>

definition sent_more :: "('k \<Rightarrow> int \<Rightarrow> u8 list) \<Rightarrow> u8 list \<Rightarrow> nat \<Rightarrow> 'q ntrip \<Rightarrow> 'k \<Rightarrow> nat \<Rightarrow> 'q ntrip \<Rightarrow> 'k \<Rightarrow> bool" where
  "sent_more stream data offset p k n p' k' \<longleftrightarrow>
     offset + n \<le> length data \<and> np_socket p' = np_socket p \<and> np_bytes_sent p' = np_bytes_sent p + n \<and>
     stream k' = (stream k)(np_socket p := stream k (np_socket p) @ take n (drop offset data))"

lemma sent_more_trans:
  assumes "sent_more stream data offset p k n p' k'" "sent_more stream data (offset + n) p' k' m p'' k''"
  shows "sent_more stream data offset p k (n + m) p'' k''"
  using assms take_add [of n m "drop offset data"] add.commute [of n offset]
  by (simp add: sent_more_def add.assoc)

lemma sent_more_0:
  "sent_more stream data offset p k 0 p' k' \<longleftrightarrow> offset \<le> length data \<and> np_socket p' = np_socket p \<and>
     np_bytes_sent p' = np_bytes_sent p \<and> stream k' = stream k"
  by (auto simp: sent_more_def)

lemma np_send_turn_Again:
  assumes "np_send_turn w m data offset stalled p k = SendAgain offset' stalled' p' k'"
    and "net_laws w stream" and "other_tasks_quiet m"
  shows "\<exists>n. offset' = offset + n \<and> sent_more stream data offset p k n p' k'"
proof -
  obtain res k1 where s: "net_send w (np_socket p) (drop offset data) k = (res, k1)" by (rule prod.exhaust)
  have more: "offset < length data" using assms(1) by (auto simp: np_send_turn_def split: if_splits)
  show ?thesis
  proof (cases res)
    case (Sent n)
    note law = net_send_Sent [OF assms(2) s [unfolded Sent]]
    have "offset' = offset + n \<and> p' = (m k1 p)\<lparr>np_bytes_sent := np_bytes_sent p + n\<rparr> \<and> k' = k1"
      using assms(1,3) s Sent more by (auto simp: np_send_turn_def Let_def split: if_splits)
    then show ?thesis using law more assms(3) by (auto simp: sent_more_def)
  next
    case (SendFailed e)
    obtain sel k2 where sel: "net_select_write w (np_socket p) 1000 k1 = (sel, k2)" by (rule prod.exhaust)
    have st: "stream k1 = stream k" "stream k2 = stream k1"
      using net_send_SendFailed [OF assms(2)] net_select_stream [OF assms(2) sel] s SendFailed by simp_all
    have "offset' = offset \<and> (p' = m k1 p \<and> k' = k1 \<or> p' = m k2 (m k1 p) \<and> k' = k2)"
      using assms(1,3) s SendFailed more sel
      by (auto simp: np_send_turn_def Let_def split: if_splits select_result.splits)
    then show ?thesis using st more assms(3) by (auto simp: sent_more_0 intro!: exI [of _ 0])
  qed
qed

lemma np_send_turn_Done:
  assumes "np_send_turn w m data offset stalled p k = SendDone reason p' k'"
    and "net_laws w stream" and "other_tasks_quiet m" and "offset \<le> length data"
  shows "sent_more stream data offset p k 0 p' k' \<and> (reason = None \<longleftrightarrow> offset = length data)"
proof (cases "offset < length data \<and> 0 \<le> np_socket p \<and> \<not> np_suspended p \<and> \<not> np_stopping p")
  case True
  obtain res k1 where s: "net_send w (np_socket p) (drop offset data) k = (res, k1)" by (rule prod.exhaust)
  show ?thesis
  proof (cases res)
    case (Sent n)
    note law = net_send_Sent [OF assms(2) s [unfolded Sent]]
    have "n = 0 \<and> p' = m k1 p \<and> k' = k1 \<and> reason \<noteq> None"
      using assms(1) s Sent True by (auto simp: np_send_turn_def Let_def split: if_splits)
    then show ?thesis using law True assms(3) by (auto simp: sent_more_0)
  next
    case (SendFailed e)
    obtain sel k2 where sel: "net_select_write w (np_socket p) 1000 k1 = (sel, k2)" by (rule prod.exhaust)
    have st: "stream k1 = stream k" "stream k2 = stream k1"
      using net_send_SendFailed [OF assms(2)] net_select_stream [OF assms(2) sel] s SendFailed by simp_all
    have "reason \<noteq> None \<and> (p' = m k1 p \<and> k' = k1 \<or> p' = m k2 (m k1 p) \<and> k' = k2)"
      using assms(1,3) s SendFailed True sel
      by (auto simp: np_send_turn_def Let_def split: if_splits select_result.splits)
    then show ?thesis using st True assms(3) by (auto simp: sent_more_0)
  qed
next
  case False
  then show ?thesis using assms(1,4) by (auto simp: np_send_turn_def sent_more_0 split: if_splits)
qed

lemma np_send_loop_sent:
  assumes "np_send_loop w m data offset stalled p k = Some r"
  shows "net_laws w stream \<longrightarrow> other_tasks_quiet m \<longrightarrow> offset \<le> length data \<longrightarrow>
    (\<exists>n. sent_more stream data offset p k n (fst (snd r)) (snd (snd r)) \<and>
       (fst r = None \<longleftrightarrow> offset + n = length data))"
    (is "?P w m data offset stalled p k r")
proof (rule np_send_loop.raw_induct [where P = ?P, OF _ assms], goal_cases)
  case (1 loop w m data offset stalled p k r)
  show ?case
  proof (intro impI)
    assume laws: "net_laws w stream" and quiet: "other_tasks_quiet m" and off: "offset \<le> length data"
    show "\<exists>n. sent_more stream data offset p k n (fst (snd r)) (snd (snd r)) \<and>
       (fst r = None \<longleftrightarrow> offset + n = length data)"
    proof (cases "np_send_turn w m data offset stalled p k")
      case (SendAgain offset' stalled' p' k')
      obtain n where n: "offset' = offset + n" "sent_more stream data offset p k n p' k'"
        using np_send_turn_Again [OF SendAgain laws quiet] by blast
      have more: "loop w m data offset' stalled' p' k' = Some r" using 1(2) SendAgain by simp
      have le: "offset' \<le> length data" using n by (simp add: sent_more_def)
      obtain j where j: "sent_more stream data offset' p' k' j (fst (snd r)) (snd (snd r))"
        "fst r = None \<longleftrightarrow> offset' + j = length data"
        using 1(1) [OF more, THEN mp, THEN mp, THEN mp, OF laws quiet le] by (elim exE conjE)
      show ?thesis using sent_more_trans [OF n(2) j(1) [unfolded n(1)]] j(2) n(1)
        by (intro exI [of _ "n + j"]) (simp add: add.assoc)
    next
      case (SendDone reason p' k')
      then show ?thesis using np_send_turn_Done [OF SendDone laws quiet off] 1(2)
        by (intro exI [of _ 0]) auto
    qed
  qed
qed

lemma np_send_turn_link:
  assumes "other_tasks_quiet m"
  shows "case np_send_turn w m data offset stalled p k of
           SendAgain _ _ p' _ \<Rightarrow> same_link p p' | SendDone _ p' _ \<Rightarrow> same_link p p'"
proof -
  obtain res k1 where s: "net_send w (np_socket p) (drop offset data) k = (res, k1)" by (rule prod.exhaust)
  obtain sel k2 where sel: "net_select_write w (np_socket p) 1000 k1 = (sel, k2)" by (rule prod.exhaust)
  note link = quiet_link [OF assms, of p] quiet_link2 [OF assms, of p]
  show ?thesis
  proof (cases res)
    case (Sent n)
    then show ?thesis using link by (simp add: np_send_turn_def Let_def s)
  next
    case (SendFailed e)
    then show ?thesis using link sel assms by (cases sel) (simp_all add: np_send_turn_def Let_def s)
  qed
qed

lemma np_send_loop_link:
  assumes "np_send_loop w m data offset stalled p k = Some r"
  shows "other_tasks_quiet m \<longrightarrow> same_link p (fst (snd r))"
    (is "?P w m data offset stalled p k r")
proof (rule np_send_loop.raw_induct [where P = ?P, OF _ assms], goal_cases)
  case (1 loop w m data offset stalled p k r)
  show ?case
  proof
    assume quiet: "other_tasks_quiet m"
    show "same_link p (fst (snd r))"
    proof (cases "np_send_turn w m data offset stalled p k")
      case (SendAgain offset' stalled' p' k')
      then have "loop w m data offset' stalled' p' k' = Some r" using 1(2) by simp
      from 1(1) [OF this] quiet have "same_link p' (fst (snd r))" by blast
      with np_send_turn_link [OF quiet, of p w data offset stalled k] SendAgain show ?thesis
        by (auto intro: same_link_trans)
    next
      case (SendDone reason p' k')
      then show ?thesis using np_send_turn_link [OF quiet, of p w data offset stalled k] 1(2) by auto
    qed
  qed
qed

lemma np_send_all_link:
  "np_send_all w m data p k = Some (reason, p', k') \<Longrightarrow> other_tasks_quiet m \<Longrightarrow> same_link p p'"
  using np_send_loop_link [of w m data 0 0 p k "(reason, p', k')"] by (simp add: np_send_all_def)

subsection \<open>The connection flag\<close>

text \<open>The client says it is connected only while it holds a socket.\<close>

definition np_inv :: "'q ntrip \<Rightarrow> bool" where
  "np_inv p \<longleftrightarrow> np_connected p \<longrightarrow> 0 \<le> np_socket p"

lemma np_inv_link: "np_inv p \<Longrightarrow> same_link p p' \<Longrightarrow> np_inv p'"
  by (simp add: np_inv_def same_link_def)

lemma np_inv_simps [simp]:
  "np_inv (np_set_message msg False p)"
  "np_inv (np_set_error msg p) = np_inv p"
  "np_inv (fst (np_close_socket w p k))"
  "np_inv (p\<lparr>np_cached_addr_valid := b\<rparr>) = np_inv p"
  "np_inv (p\<lparr>np_resumed_us := t\<rparr>) = np_inv p"
  "np_inv (p\<lparr>np_last_send_us := t\<rparr>) = np_inv p"
  "np_inv (p\<lparr>np_reconnects := n\<rparr>) = np_inv p"
  "np_inv (p\<lparr>np_queue := q\<rparr>) = np_inv p"
  "np_inv (np_reset_queue qo p) = np_inv p"
  by (auto simp: np_inv_def np_set_message_def np_set_error_def np_close_socket_def np_reset_queue_def Let_def)

lemma np_close_socket_down:
  "np_close_socket w p k = (p', k') \<Longrightarrow> \<not> np_connected p' \<and> np_socket p' < 0"
  by (auto simp: np_close_socket_def Let_def split: if_splits)

lemma np_connect_socket_up:
  assumes "np_connect_socket w cfg p k = (up, p', k')" "\<not> np_connected p"
  shows "\<not> np_connected p' \<and> (up \<longrightarrow> 0 \<le> np_socket p')"
  using assms
  by (auto simp: np_connect_socket_def np_close_socket_def Let_def not_less split: if_splits prod.splits option.splits)

lemma np_connected_now_link:
  "np_socket (np_connected_now w cfg p k) = np_socket p" "np_connected (np_connected_now w cfg p k)"
  by (simp_all add: np_connected_now_def np_set_message_def Let_def)

text \<open>\<open>connect_caster\<close> ends connected with an open socket, or not connected.\<close>

lemma np_connect_caster_up:
  assumes "np_connect_caster w cfg m p k = Some (up, p', k')" and quiet: "other_tasks_quiet m"
    and "\<not> np_connected p"
  shows "np_connected p' = up \<and> np_inv p'"
proof -
  obtain sup q k1 where sock: "np_connect_socket w cfg p k = (sup, q, k1)" by (rule prod_cases3)
  note up = np_connect_socket_up [OF sock assms(3)]
  show ?thesis
  proof (cases sup)
    case False
    then show ?thesis using assms(1) sock up
      by (auto simp: np_connect_caster_def np_set_error_def np_inv_def)
  next
    case True
    let ?req = "map byte8 (handshake_request w cfg (np_mountpoint p) (np_password p))"
    obtain reason q2 k2 where sent: "np_send_all w m ?req q k1 = Some (reason, q2, k2)"
      using assms(1) sock True by (auto simp: np_connect_caster_def Let_def split: option.splits)
    have link: "np_socket q2 = np_socket q" "np_connected q2 = np_connected q"
      using np_send_all_link [OF sent quiet] by (simp_all add: same_link_def)
    show ?thesis
    proof (cases reason)
      case (Some e)
      obtain q3 k3 where cl: "np_close_socket w (np_set_error (if e = [] then ''handshake write failed''
          else ''handshake write failed: '' @ e) q2) k2 = (q3, k3)" by (rule prod.exhaust)
      have "up = False \<and> p' = q3"
        using assms(1) sock True sent Some cl by (simp add: np_connect_caster_def)
      then show ?thesis using np_close_socket_down [OF cl] by (simp add: np_inv_def)
    next
      case None
      obtain response k3 where line: "np_read_line w (np_socket q2) 4000 k2 = Some (response, k3)"
        using assms(1) sock True sent None by (auto simp: np_connect_caster_def Let_def split: option.splits)
      note run = assms(1) [unfolded np_connect_caster_def Let_def sock prod.case, simplified True sent None line option.case prod.case simp_thms if_True if_False]
      obtain q4 k4 where cl: "np_close_socket w (np_set_error (if response = [] then ''empty response''
          else ''rejected: '' @ response) (m k3 q2)) k3 = (q4, k4)" by (rule prod.exhaust)
      show ?thesis
      proof (cases "accepted_response response")
        case False
        have "up = False \<and> p' = q4" using run cl False by (simp add: True None sent line)
        then show ?thesis using np_close_socket_down [OF cl] by (simp add: np_inv_def)
      next
        case acc: True
        have "np_connected p' \<and> up \<and> np_socket p' = np_socket q2"
          using run acc quiet by (auto simp: True None sent line np_connected_now_link split: if_splits option.splits)
        then show ?thesis using up True link by (auto simp: np_inv_def)
      qed
    qed
  qed
qed

lemma np_handle_reconnect_inv:
  assumes "np_handle_reconnect w qo p t k = (p', t', k')" "np_inv p"
  shows "np_inv p'"
proof -
  obtain q k1 where "np_close_socket w (p\<lparr>np_reconnect := False\<rparr>) k = (q, k1)" by (rule prod.exhaust)
  then show ?thesis using assms np_close_socket_down [of w "p\<lparr>np_reconnect := False\<rparr>" k q k1]
    by (auto simp: np_handle_reconnect_def np_reset_queue_def np_inv_def split: if_splits)
qed

lemma np_transfer_inv:
  assumes "np_transfer w qo m p t k = Some (p', t', k', d)" "np_inv p" and quiet: "other_tasks_quiet m"
  shows "np_inv p'"
proof (cases "np_queue p")
  case None
  then show ?thesis using assms by (auto simp: np_transfer_def)
next
  case (Some q)
  obtain packet q' where r: "q_receive qo q = (packet, q')" by (rule prod.exhaust)
  show ?thesis
  proof (cases packet)
    case None
    then show ?thesis using assms Some r by (auto simp: np_transfer_def)
  next
    case (Some data)
    obtain reason p1 k1 where sent: "np_send_all w m data (p\<lparr>np_queue := Some q'\<rparr>) k = Some (reason, p1, k1)"
      using assms(1) \<open>np_queue p = _\<close> r Some by (auto simp: np_transfer_def split: option.splits)
    have "np_inv (p\<lparr>np_queue := Some q'\<rparr>)" using assms(2) by simp
    then have p1: "np_inv p1" using np_inv_link np_send_all_link [OF sent quiet] by blast
    show ?thesis
    proof (cases reason)
      case None
      then show ?thesis using assms(1) \<open>np_queue p = _\<close> r Some sent p1 by (auto simp: np_transfer_def Let_def)
    next
      case r2: (Some e)
      then have "\<exists>q msg. p' = np_set_message msg False q"
        using assms(1) \<open>np_queue p = _\<close> r Some sent
        by (simp add: np_transfer_def Let_def split: prod.splits) blast
      then show ?thesis by auto
    qed
  qed
qed

lemma np_iteration_inv:
  assumes "np_iteration w cfg qo m p t k = Some (p', t', k', d)" "np_inv p" and quiet: "other_tasks_quiet m"
  shows "np_inv p'"
proof (cases "np_suspended p \<or> \<not> np_enabled p")
  case True
  then show ?thesis using assms(1) by (auto simp: np_iteration_def np_idle_def Let_def split: prod.splits)
next
  case False
  obtain p1 t1 k1 where r: "np_handle_reconnect w qo p t k = (p1, t1, k1)" by (rule prod_cases3)
  have p1: "np_inv p1" using np_handle_reconnect_inv [OF r assms(2)] .
  show ?thesis
  proof (cases "np_staggered cfg (wan_now w k1) p1")
    case True
    then show ?thesis using assms(1) False r by (auto simp: np_iteration_def)
  next
    case nostag: False
    let ?p = "np_end_stagger cfg p1"
    have p2: "np_inv ?p" using p1 by (simp add: np_end_stagger_def)
    show ?thesis
    proof (cases "np_socket ?p < 0")
      case False
      then show ?thesis using assms(1) \<open>\<not> (np_suspended p \<or> _)\<close> r nostag np_transfer_inv [OF _ p2 quiet]
        by (simp add: np_iteration_def Let_def)
    next
      case True
      obtain up p3 k3 where c: "np_connect_caster w cfg m (np_set_message ''connecting'' False ?p) k1 = Some (up, p3, k3)"
        using assms(1) False r nostag True by (auto simp: np_iteration_def Let_def split: option.splits)
      have "\<not> np_connected (np_set_message ''connecting'' False ?p)" by (simp add: np_set_message_def)
      note p3 = np_connect_caster_up [OF c quiet this]
      show ?thesis
      proof (cases up)
        case False
        then have "Some (np_connect_failed w p3 t1 k3) = Some (p', t', k', d)"
          using assms(1) \<open>\<not> (np_suspended p \<or> _)\<close> r nostag True c by (simp add: np_iteration_def Let_def)
        then show ?thesis using p3 by (auto simp: np_connect_failed_def Let_def split: prod.splits if_splits)
      next
        case up: True
        then have "np_transfer w qo m p3 t1 k3 = Some (p', t', k', d)"
          using assms(1) \<open>\<not> (np_suspended p \<or> _)\<close> r nostag True c by (simp add: np_iteration_def Let_def)
        from np_transfer_inv [OF this _ quiet] p3 show ?thesis by blast
      qed
    qed
  qed
qed

text \<open>The tasks that share a client: its own loop, the base station and the user interface.\<close>

inductive np_step :: "'k wan \<Rightarrow> ntrip_config \<Rightarrow> ('q, u8 list) queue_ops \<Rightarrow>
    'q ntrip \<times> np_task \<times> 'k \<Rightarrow> 'q ntrip \<times> np_task \<times> 'k \<Rightarrow> bool" for w cfg qo where
  Configure: "np_step w cfg qo (p, t, k) (np_configure e mountpoint password p, t, k)"
| Suspend: "np_step w cfg qo (p, t, k) (np_set_suspended b now p, t, k)"
| Push: "np_step w cfg qo (p, t, k) (snd (np_push qo data p), t, k)"
| Iterate: "other_tasks_quiet m \<Longrightarrow> np_iteration w cfg qo m p t k = Some (p', t', k', d) \<Longrightarrow>
    np_step w cfg qo (p, t, k) (p', t', k')"
| Stop: "np_stop w p k = (p', k') \<Longrightarrow> np_step w cfg qo (p, t, k) (p', t, k')"
| Start: "np_step w cfg qo (p, t, k)
    (snd (np_start created ok e mountpoint password p), \<lparr>nt_failures = 0, nt_healthy_since_us = 0\<rparr>, k)"

inductive_cases np_stepE: "np_step w cfg qo s t"

interpretation np_tasks: transition_system "np_step w cfg qo" "\<lambda>s. np_inv (fst s)" for w cfg qo
proof
  fix s t
  assume inv: "np_inv (fst s)" and "np_step w cfg qo s t"
  from this(2) show "np_inv (fst t)"
  proof cases
    case (Configure p t k e mountpoint password)
    then show ?thesis using inv np_inv_link other_operations_quiet(1) by fastforce
  next
    case (Suspend p t k b now)
    then show ?thesis using inv np_inv_link other_operations_quiet(2) by fastforce
  next
    case (Push p t k data)
    then show ?thesis using inv np_inv_link other_operations_quiet(3) by fastforce
  next
    case (Iterate m p t k p' t' k' d)
    then show ?thesis using inv np_iteration_inv by fastforce
  next
    case (Stop p k p' k' t)
    then show ?thesis
      by (auto simp: np_stop_def np_inv_def Let_def split: prod.splits dest!: np_close_socket_down)
  next
    case (Start p t k created ok e mountpoint password)
    then show ?thesis using inv by (simp add: np_start_def np_configure_def np_inv_def Let_def)
  qed
qed

subsection \<open>Properties\<close>

lemma np_inv_init: "np_inv ntrip_init"
  by (simp add: np_inv_def ntrip_init_def)

text \<open>
  However the other tasks reconfigure, suspend, push and stop between and during the passes
  of its loop, a client reports a connection only while it holds an open socket.
\<close>

theorem connected_has_socket:
  assumes "rtranclp (np_step w cfg qo) (ntrip_init, t0, k0) (p, t, k)" and "ns_connected (np_status now p)"
  shows "0 \<le> np_socket p"
proof -
  have "np_inv p" using np_tasks.reachable_inv [OF assms(1)] np_inv_init by simp
  then show ?thesis using assms(2) by (simp add: np_inv_def np_status_def)
qed

text \<open>
  The retry delay: 10, 20, 40, 80, 80, 80, 80 seconds for the first seven failures in a row,
  each plus less than 5 seconds of jitter, then 10 to 12 minutes; the cap of two minutes on the
  short delays never takes effect.
\<close>

theorem retry_delay_schedule:
  assumes "1 \<le> failures"
  shows "if failures < 8
    then retry_delay_ms r failures = 10000 * 2 ^ nat (min failures 4 - 1) + uint (r mod 5000) \<and>
      retry_delay_ms r failures < 85000
    else 600000 \<le> retry_delay_ms r failures \<and> retry_delay_ms r failures < 720000"
proof -
  have jit: "0 \<le> uint (r mod 5000)" "uint (r mod 5000) < 5000"
    by (simp_all add: uint_mod)
  have long: "0 \<le> uint (r mod 120000)" "uint (r mod 120000) < 120000"
    by (simp_all add: uint_mod)
  consider "failures = 1" | "failures = 2" | "failures = 3" | "4 \<le> failures" "failures < 8" | "8 \<le> failures"
    using assms by linarith
  then show ?thesis
    by cases (use jit long in \<open>simp_all add: retry_delay_ms_def retry_constants Let_def min_def push_bit_eq_mult\<close>)
qed

text \<open>
  C9. \<open>push\<close> never waits and keeps the newest data: when the client is not connected it reports
  failure and changes nothing; otherwise the packet ends up last in the queue, and only when
  all eight places were taken is the oldest packet given up, and counted.
\<close>

theorem push_keeps_newest:
  assumes "queue_laws kPushQueueDepth qo contents" and "np_queue p = Some q"
    and "length (contents q) \<le> 8"
  shows "if data = [] \<or> np_suspended p \<or> \<not> np_connected p then np_push qo data p = (False, p)
    else \<exists>q' lost. np_push qo data p =
        (True, p\<lparr>np_queue := Some q', np_dropped_batches := np_dropped_batches p + of_nat (length lost)\<rparr>) \<and>
      lost @ contents q' = contents q @ [take 1200 data] \<and> length (contents q') \<le> 8 \<and>
      length lost = (if length (contents q) = 8 then 1 else 0)"
proof (cases "data = [] \<or> np_suspended p \<or> \<not> np_connected p")
  case True
  then show ?thesis using assms(2) by (auto simp: np_push_def)
next
  case False
  let ?d = "take 1200 data"
  obtain ok q1 where s: "q_send qo ?d q = (ok, q1)" by (rule prod.exhaust)
  show ?thesis
  proof (cases "length (contents q) < 8")
    case True
    then have "ok" "contents q1 = contents q @ [?d]"
      using queue_send(1) [OF assms(1), of q ?d] s by (simp_all add: kPushQueueDepth_def)
    moreover from this(1) have "np_push qo data p = (True, p\<lparr>np_queue := Some q1\<rparr>)"
      using False s assms(2) by (simp add: np_push_def kPushMaxPacket_def)
    ultimately show ?thesis using False True
      by (simp only: if_False) (rule exI [of _ q1], rule exI [of _ "[]"], simp)
  next
    case full: False
    then have len: "length (contents q) = 8" using assms(3) by simp
    then obtain old rest where q: "contents q = old # rest" by (cases "contents q") auto
    have nok: "\<not> ok" "contents q1 = old # rest"
      using queue_send(2) [OF assms(1), of q ?d] s len q by (simp_all add: kPushQueueDepth_def)
    let ?q2 = "snd (q_receive qo q1)" and ?q3 = "snd (q_send qo ?d (snd (q_receive qo q1)))"
    have "contents ?q2 = rest" using queue_receive(2) [OF assms(1) nok(2)] by simp
    then have q3: "contents ?q3 = rest @ [?d]"
      using queue_send(1) [OF assms(1), of ?q2 ?d] len q by (simp add: kPushQueueDepth_def)
    have "np_push qo data p = (True, p\<lparr>np_queue := Some ?q3, np_dropped_batches := np_dropped_batches p + 1\<rparr>)"
      using False s nok assms(2) by (simp add: np_push_def kPushMaxPacket_def Let_def)
    then show ?thesis using False len q q3
      by (simp only: if_False) (rule exI [of _ ?q3], rule exI [of _ "[old]"], simp)
  qed
qed

text \<open>
  Sending to the caster is honest: on a socket that appends what it accepts, whatever the
  other tasks do meanwhile, the bytes counted as sent are the bytes the socket took, they are a
  prefix of the data, and success is reported exactly when that prefix is all of it.
\<close>

theorem push_send_all_honest:
  assumes "net_laws w stream" and "other_tasks_quiet m"
    and "np_send_all w m data p k = Some (reason, p', k')"
  shows "\<exists>n \<le> length data. (reason = None \<longleftrightarrow> n = length data) \<and>
    np_bytes_sent p' = np_bytes_sent p + n \<and>
    stream k' = (stream k)(np_socket p := stream k (np_socket p) @ take n data)"
proof -
  have "np_send_loop w m data 0 0 p k = Some (reason, p', k')" using assms(3) by (simp add: np_send_all_def)
  from np_send_loop_sent [OF this, of stream] assms(1,2) show ?thesis
    by (auto simp: sent_more_def)
qed

lemma np_transfer_failures:
  assumes "np_transfer w qo m p t k = Some (p', t', k', d)"
  shows "nt_failures t' = nt_failures t \<or>
    nt_failures t' = nt_failures t + 1 \<and> (\<exists>r. d = retry_delay_ms r (nt_failures t')) \<or>
    nt_failures t' = 0 \<and> kHealthyStreakUs \<le> np_last_send_us p' - nt_healthy_since_us t'"
  using assms
  by (auto simp: np_transfer_def Let_def split: option.splits prod.splits if_splits)


subsection \<open>A caster in memory, for concrete runs\<close>

text \<open>
  The state is what was sent and what is still to be read; the socket accepts everything, time
  stands still, and the random source gives zero.
\<close>

definition ram_wan :: "(u8 list \<times> u8 list) wan" where
  "ram_wan = \<lparr>net_socket = (\<lambda>k. (3, k)), net_bind = (\<lambda>_ _ k. (0, k)), net_listen = (\<lambda>_ _ k. (0, k)),
     net_accept = (\<lambda>_ k. ((-1, False, 0), k)),
     net_recv = (\<lambda>_ _ k. (Received (take 1 (snd k)), (fst k, drop 1 (snd k)))),
     net_send = (\<lambda>_ d k. (Sent (length d), (fst k @ d, snd k))),
     net_select_write = (\<lambda>_ _ k. (SelectReady, k)), net_select_read = (\<lambda>_ _ k. (SelectReady, k)),
     net_close = (\<lambda>_ _ k. k),
     wan_resolve = (\<lambda>_ _ k. (Some 1, k)), wan_connect = (\<lambda>_ _ _ k. (None, k)),
     wan_so_error = (\<lambda>_ k. (Some 0, k)), wan_now = (\<lambda>_. 1000), wan_ticks = (\<lambda>_. 0), wan_tick_ms = 10,
     wan_random = (\<lambda>k. (0, k)), wan_strerror = (\<lambda>_. []), wan_base64 = (\<lambda>s. s)\<rparr>"

lemma ram_wan_simps [simp]:
  "net_socket ram_wan k = (3, k)" "net_send ram_wan fd d k = (Sent (length d), (fst k @ d, snd k))"
  "net_select_write ram_wan fd ms k = (SelectReady, k)" "net_select_read ram_wan fd ms k = (SelectReady, k)"
  "net_recv ram_wan fd n k = (Received (take 1 (snd k)), (fst k, drop 1 (snd k)))"
  "wan_resolve ram_wan h s k = (Some 1, k)" "wan_connect ram_wan fd a port k = (None, k)"
  "wan_so_error ram_wan fd k = (Some 0, k)" "wan_now ram_wan k = 1000" "wan_ticks ram_wan k = 0"
  "wan_tick_ms ram_wan = 10" "wan_random ram_wan k = (0, k)" "net_close ram_wan ab fd k = k"
  by (simp_all add: ram_wan_def)

lemma ram_wan_read:
  assumes "10 \<notin> set bs" "13 \<notin> set bs" "length line + length bs \<le> 255"
  shows "np_read_loop ram_wan fd 0 4000 line (sent, bs @ 10 # rest) = Some (line @ map char8 bs, (sent, rest))"
  using assms
proof (induction bs arbitrary: line)
  case Nil
  then show ?case by (subst np_read_loop.simps) simp
next
  case (Cons b bs)
  then show ?case by (subst np_read_loop.simps) simp
qed

lemma ram_wan_send:
  assumes "0 \<le> np_socket p" "\<not> np_suspended p" "\<not> np_stopping p" "data \<noteq> []"
  shows "np_send_all ram_wan (\<lambda>_ p. p) data p (sent, inp) =
    Some (None, p\<lparr>np_bytes_sent := np_bytes_sent p + length data\<rparr>, (sent @ data, inp))"
  using assms unfolding np_send_all_def
  by (subst np_send_loop.simps, simp add: np_send_turn_def, subst np_send_loop.simps, simp add: np_send_turn_def)

definition ram_cfg :: ntrip_config where
  "ram_cfg = \<lparr>nc_host = ''caster'', nc_port = 2101, nc_protocol = NtripV1, nc_connect_stagger_ms = 0\<rparr>"

lemma ram_cfg_simps [simp]:
  "nc_port ram_cfg = 2101" "nc_protocol ram_cfg = NtripV1" "nc_connect_stagger_ms ram_cfg = 0"
  by (simp_all add: ram_cfg_def)

definition ram_client :: "u8 list list ntrip" where
  "ram_client = np_set_suspended False 7 (snd (np_start (Some []) True True ''BASE'' ''pw'' ntrip_init))"

text \<open>One pass against a caster that answers \<open>ICY 200 OK\<close>.\<close>

definition ram_input :: "u8 list" where
  "ram_input = map byte8 ''ICY 200 OK'' @ [10]"

lemma ram_input_read:
  "np_read_line ram_wan fd 4000 (sent, ram_input) = Some (''ICY 200 OK'', (sent, []))"
proof -
  have "10 \<notin> set (map byte8 ''ICY 200 OK'')" "13 \<notin> set (map byte8 ''ICY 200 OK'')"
    by (simp_all add: byte8_def)
  from ram_wan_read [OF this, of "[]" fd sent "[]"] show ?thesis
    by (simp add: np_read_line_def ram_input_def comp_def)
qed

lemma ram_connects:
  "\<exists>p t k. np_iteration ram_wan ram_cfg (list_queue 8) (\<lambda>_ p. p) ram_client
      \<lparr>nt_failures = 0, nt_healthy_since_us = 0\<rparr> ([], ram_input) = Some (p, t, k, 0) \<and> np_connected p"
proof -
  have accepted: "accepted_response ''ICY 200 OK''" "\<not> starts_with ''ICY 200 OK'' ''HTTP/''"
    by (simp_all add: accepted_response_def starts_with_def)
  have req: "handshake_request ram_wan ram_cfg mp pw \<noteq> []" for mp pw
    by (simp add: handshake_request_def)
  show ?thesis
    by (simp add: np_iteration_def ram_client_def np_start_def np_configure_def np_set_suspended_def ntrip_init_def Let_def
        np_handle_reconnect_def np_close_socket_def np_reset_queue_def list_queue_def np_staggered_def
        np_end_stagger_def np_set_message_def np_connect_caster_def np_connect_socket_def ram_wan_send req
        ram_input_read accepted np_connected_now_def np_transfer_def)
qed

lemma connected_has_socket_witness:
  "\<exists>p t k. np_iteration ram_wan ram_cfg (list_queue 8) (\<lambda>_ p. p) ram_client
      \<lparr>nt_failures = 0, nt_healthy_since_us = 0\<rparr> ([], ram_input) = Some (p, t, k, 0) \<and> 0 \<le> np_socket p"
proof -
  let ?t0 = "\<lparr>nt_failures = 0, nt_healthy_since_us = 0\<rparr> :: np_task" and ?k0 = "([], ram_input)"
  let ?started = "snd (np_start (Some []) True True ''BASE'' ''pw'' ntrip_init) :: u8 list list ntrip"
  let ?step = "np_step ram_wan ram_cfg (list_queue 8)"
  obtain p t k where it: "np_iteration ram_wan ram_cfg (list_queue 8) (\<lambda>_ p. p) ram_client ?t0 ?k0 = Some (p, t, k, 0)"
    "np_connected p"
    using ram_connects by blast
  have quiet: "other_tasks_quiet (\<lambda>_ p. p)" by (simp add: other_tasks_quiet_def)
  have "?step (ntrip_init, ?t0, ?k0) (?started, ?t0, ?k0)" by (rule np_step.Start)
  moreover have "?step (?started, ?t0, ?k0) (ram_client, ?t0, ?k0)"
    unfolding ram_client_def by (rule np_step.Suspend)
  moreover have "?step (ram_client, ?t0, ?k0) (p, t, k)" by (rule np_step.Iterate [OF quiet it(1)])
  ultimately have "rtranclp ?step (ntrip_init, ?t0, ?k0) (p, t, k)"
    by (blast intro: rtranclp.rtrancl_into_rtrancl rtranclp.rtrancl_refl)
  from connected_has_socket [OF this, of 0] it show ?thesis by (auto simp: np_status_def)
qed

lemma retry_delay_schedule_witness:
  "retry_delay_ms 7 3 = 40007 \<and> retry_delay_ms 4999 7 < 85000 \<and> 600000 \<le> retry_delay_ms 0 8"
  using retry_delay_schedule [of 3 7] retry_delay_schedule [of 7 4999] retry_delay_schedule [of 8 0]
  by simp

lemma push_keeps_newest_witness:
  "let p = ntrip_init\<lparr>np_queue := Some (replicate 8 [1]), np_suspended := False, np_connected := True\<rparr>
   in np_dropped_batches (snd (np_push (list_queue 8) [2, 3] p)) = 1"
proof -
  let ?p = "ntrip_init\<lparr>np_queue := Some (replicate 8 [1]), np_suspended := False, np_connected := True\<rparr> :: u8 list list ntrip"
  have laws: "queue_laws kPushQueueDepth (list_queue 8 :: (u8 list list, u8 list) queue_ops) (\<lambda>q. q)"
    unfolding kPushQueueDepth_def by (rule list_queue_laws)
  have p: "np_queue ?p = Some (replicate 8 [1])" "\<not> np_suspended ?p" "np_connected ?p" "np_dropped_batches ?p = 0"
    by (simp_all add: ntrip_init_def)
  from push_keeps_newest [OF laws p(1), of "[2, 3]"] p(2-4) show ?thesis by (auto simp: Let_def)
qed

definition ram_stream :: "u8 list \<times> u8 list \<Rightarrow> int \<Rightarrow> u8 list" where
  "ram_stream k fd = (if fd = 3 then fst k else [])"

text \<open>The in-memory socket accepts only what is sent on it.\<close>

definition strict_wan :: "(u8 list \<times> u8 list) wan" where
  "strict_wan = ram_wan\<lparr>net_send := (\<lambda>fd d k. if fd = 3 then (Sent (min 2 (length d)), (fst k @ take (min 2 (length d)) d, snd k))
     else (SendFailed (EOTHER 9), k))\<rparr>"

lemma strict_wan_laws: "net_laws strict_wan ram_stream"
  by (auto simp: net_laws_def strict_wan_def ram_stream_def ram_wan_def fun_eq_iff)

lemma push_send_all_honest_witness:
  "\<exists>p' k'. np_send_all strict_wan (\<lambda>_ p. p) [1, 2, 3] (ntrip_init\<lparr>np_suspended := False, np_socket := 3\<rparr> :: u8 list list ntrip) ([], [])
     = Some (None, p', k') \<and> np_bytes_sent p' = 3 \<and> fst k' = [1, 2, 3]"
proof -
  let ?p = "ntrip_init\<lparr>np_suspended := False, np_socket := 3\<rparr> :: u8 list list ntrip"
  have p: "np_socket ?p = 3" "\<not> np_suspended ?p" "\<not> np_stopping ?p" "np_bytes_sent ?p = 0"
    by (simp_all add: ntrip_init_def)
  have send: "net_send strict_wan 3 d k = (Sent (min 2 (length d)), (fst k @ take (min 2 (length d)) d, snd k))" for d k
    by (simp add: strict_wan_def)
  obtain p' k' where r: "np_send_all strict_wan (\<lambda>_ p. p) [1, 2, 3] ?p ([], []) = Some (None, p', k')"
    by (simp add: np_send_all_def np_send_turn_def send ntrip_init_def numeral_2_eq_2 np_send_loop.simps [where offset = 0]
        np_send_loop.simps [where offset = "Suc (Suc 0)"] np_send_loop.simps [where offset = "Suc (Suc (Suc 0))"])
  have "other_tasks_quiet (\<lambda>_ p. p)" by (simp add: other_tasks_quiet_def)
  from push_send_all_honest [OF strict_wan_laws this r] r p show ?thesis
    by (auto simp: ram_stream_def fun_upd_def split: if_splits dest: fun_cong [of _ _ 3])
qed


end
