(* ===== verification/Wifi.thy ===== *)
theory Wifi
  imports Storage CText
begin

text \<open>
  The station and SoftAP state machine of \<open>main/wifi_manager.cpp\<close>: the radio mode changes, the
  event handler, the recovery task with its retry and fallback timers, the cached link
  information and the network scan.

  The WiFi driver (a coprocessor behind RPCs) is a parameter: a record of the calls the class
  makes. Its event task runs \<open>handle_event\<close> concurrently with the recovery task:
  \<open>drv_events\<close> lists the events delivered while a call was running, and they are handled when
  the call returns.
\<close>

subsection \<open>State and driver\<close>

definition kRetryIntervalMs :: int where "kRetryIntervalMs = 15000"
definition kApFallbackMs :: int where "kApFallbackMs = 120000"
definition kApInfoRefreshMs :: int where "kApInfoRefreshMs = 5000"
definition kAccessPointSsid :: string where "kAccessPointSsid = ''GPS-BaseStation''"
definition kDefaultApPassword :: string where "kDefaultApPassword = ''gpsbase-rtk''"

datatype wifi_mode = ModeNull | ModeSta | ModeAp | ModeApSta
datatype wifi_if = IfSta | IfAp
datatype auth_mode = AuthOpen | AuthWpa2Psk

datatype wifi_state = WifiDisconnected | WifiConnected | WifiAccessPoint

datatype wifi_event = GotIp | LostIp | StaDisconnected | ApStart | ApStaConnected | OtherWifiEvent

record wifi_network =
  wn_ssid :: string
  wn_rssi :: int
  wn_secured :: bool

text \<open>The fields of \<open>wifi_config_t\<close> the class sets.\<close>

record wifi_conf =
  cf_ssid :: string
  cf_password :: string
  cf_auth :: auth_mode
  cf_ssid_len :: nat
  cf_channel :: nat
  cf_max_connection :: nat

record ap_record =
  ar_ssid :: string
  ar_rssi :: int
  ar_auth :: auth_mode

record wifi =
  wm_events :: bool
  wm_station_netif :: bool
  wm_access_point_netif :: bool
  wm_recovery_task :: bool
  wm_connected :: bool
  wm_access_point_active :: bool
  wm_disable_ap_pending :: bool
  wm_disconnected_at_ms :: int
  wm_last_retry_ms :: int
  wm_connected_bit :: bool
  wm_cached_ssid :: string
  wm_cached_rssi :: int
  wm_cached_valid :: bool
  wm_ap_info_last_ms :: int

definition wifi_init :: wifi where
  "wifi_init = \<lparr>wm_events = False, wm_station_netif = False, wm_access_point_netif = False,
     wm_recovery_task = False, wm_connected = False, wm_access_point_active = False,
     wm_disable_ap_pending = False, wm_disconnected_at_ms = 0, wm_last_retry_ms = 0,
     wm_connected_bit = False, wm_cached_ssid = [], wm_cached_rssi = -127, wm_cached_valid = False,
     wm_ap_info_last_ms = 0\<rparr>"

record 'k wifi_driver =
  drv_now :: "'k \<Rightarrow> time_us"
  drv_events :: "'k \<Rightarrow> wifi_event list"
  drv_create_group :: "'k \<Rightarrow> bool \<times> 'k"
  drv_netif_init :: "'k \<Rightarrow> esp_err \<times> 'k"
  drv_event_loop :: "'k \<Rightarrow> esp_err \<times> 'k"
  drv_create_netif :: "wifi_if \<Rightarrow> 'k \<Rightarrow> bool \<times> 'k"
  drv_hosted_init :: "'k \<Rightarrow> esp_err \<times> 'k"
  drv_hosted_connect :: "'k \<Rightarrow> esp_err \<times> 'k"
  drv_wifi_init :: "'k \<Rightarrow> esp_err \<times> 'k"
  drv_storage_ram :: "'k \<Rightarrow> esp_err \<times> 'k"
  drv_register :: "nat \<Rightarrow> 'k \<Rightarrow> esp_err \<times> 'k"
  drv_create_task :: "'k \<Rightarrow> bool \<times> 'k"
  drv_get_mode :: "'k \<Rightarrow> esp_err \<times> wifi_mode \<times> 'k"
  drv_set_mode :: "wifi_mode \<Rightarrow> 'k \<Rightarrow> esp_err \<times> 'k"
  drv_set_config :: "wifi_if \<Rightarrow> wifi_conf \<Rightarrow> 'k \<Rightarrow> esp_err \<times> 'k"
  drv_efuse_mac :: "u8 list"
  drv_set_mac :: "wifi_if \<Rightarrow> u8 list \<Rightarrow> 'k \<Rightarrow> esp_err \<times> 'k"
  drv_start :: "'k \<Rightarrow> esp_err \<times> 'k"
  drv_stop :: "'k \<Rightarrow> esp_err \<times> 'k"
  drv_ps_none :: "'k \<Rightarrow> esp_err \<times> 'k"
  drv_connect :: "'k \<Rightarrow> esp_err \<times> 'k"
  drv_disconnect :: "'k \<Rightarrow> esp_err \<times> 'k"
  drv_sta_info :: "'k \<Rightarrow> (ap_record option) \<times> 'k"
  drv_ip :: "wifi_if \<Rightarrow> 'k \<Rightarrow> u32 option"
  drv_scan_start :: "'k \<Rightarrow> esp_err \<times> 'k"
  drv_scan_count :: "'k \<Rightarrow> esp_err \<times> u16 \<times> 'k"
  drv_scan_records :: "nat \<Rightarrow> 'k \<Rightarrow> esp_err \<times> ap_record list \<times> 'k"

definition now_ms :: "'k wifi_driver \<Rightarrow> 'k \<Rightarrow> int" where
  "now_ms d k = drv_now d k div 1000"

subsection \<open>Events\<close>

definition handle_event :: "int \<Rightarrow> wifi_event \<Rightarrow> wifi \<Rightarrow> wifi" where
  "handle_event now ev p =
     (case ev of
        GotIp \<Rightarrow>
          let p = p\<lparr>wm_connected := True, wm_disconnected_at_ms := 0, wm_connected_bit := True\<rparr>
          in if wm_access_point_active p then p\<lparr>wm_disable_ap_pending := True\<rparr> else p
      | LostIp \<Rightarrow>
          let p = p\<lparr>wm_connected := False, wm_disable_ap_pending := False, wm_connected_bit := False\<rparr>;
              p = (if wm_disconnected_at_ms p = 0 then p\<lparr>wm_disconnected_at_ms := now\<rparr> else p)
          in p\<lparr>wm_last_retry_ms := now - kRetryIntervalMs\<rparr>
      | StaDisconnected \<Rightarrow>
          let was_connected = wm_connected p;
              p = p\<lparr>wm_connected := False, wm_disable_ap_pending := False, wm_connected_bit := False\<rparr>;
              p = (if wm_disconnected_at_ms p = 0 then p\<lparr>wm_disconnected_at_ms := now\<rparr> else p)
          in if was_connected then p\<lparr>wm_last_retry_ms := now - kRetryIntervalMs\<rparr> else p
      | ApStart \<Rightarrow> p
      | ApStaConnected \<Rightarrow> p
      | OtherWifiEvent \<Rightarrow> p)"

text \<open>What the event task did while the driver reached state \<open>k\<close>.\<close>

definition deliver :: "'k wifi_driver \<Rightarrow> 'k \<Rightarrow> wifi \<Rightarrow> wifi" where
  "deliver d k p = foldl (\<lambda>p ev. handle_event (now_ms d k) ev p) p (drv_events d k)"

definition on_radio :: "'k wifi_driver \<Rightarrow> ('k \<Rightarrow> esp_err \<times> 'k) \<Rightarrow> wifi \<times> 'k \<Rightarrow> esp_err \<times> wifi \<times> 'k" where
  "on_radio d f s = (case f (snd s) of (e, k) \<Rightarrow> (e, deliver d k (fst s), k))"

text \<open>\<open>ESP_ERROR_CHECK_WITHOUT_ABORT\<close>: the error is only logged.\<close>

definition log_only :: "(wifi \<times> 'k \<Rightarrow> esp_err \<times> wifi \<times> 'k) \<Rightarrow> wifi \<times> 'k \<Rightarrow> esp_err \<times> wifi \<times> 'k" where
  "log_only f s = (ESP_OK, snd (f s))"

definition set_fields :: "(wifi \<Rightarrow> wifi) \<Rightarrow> wifi \<times> 'k \<Rightarrow> esp_err \<times> wifi \<times> 'k" where
  "set_fields f s = (ESP_OK, f (fst s), snd s)"

subsection \<open>Radio configuration\<close>

definition efuse_mac :: "'k wifi_driver \<Rightarrow> wifi_if \<Rightarrow> u8 list" where
  "efuse_mac d iface =
     (let base = drv_efuse_mac d; base = base[0 := (base ! 0 AND 0xFE) OR 0x02]
      in if iface = IfAp then base[5 := base ! 5 XOR 0x01] else base)"

definition set_wifi_mac_from_efuse :: "'k wifi_driver \<Rightarrow> wifi_if \<Rightarrow> wifi \<times> 'k \<Rightarrow> esp_err \<times> wifi \<times> 'k" where
  "set_wifi_mac_from_efuse d iface = log_only (on_radio d (drv_set_mac d iface (efuse_mac d iface)))"

definition station_config :: "wifi_credentials \<Rightarrow> wifi_conf" where
  "station_config credentials =
     \<lparr>cf_ssid = strlcpy (wc_ssid credentials) 32, cf_password = strlcpy (wc_password credentials) 64,
      cf_auth = AuthOpen, cf_ssid_len = 0, cf_channel = 0, cf_max_connection = 0\<rparr>"

definition configure_station :: "'k wifi_driver \<Rightarrow> wifi_credentials \<Rightarrow> wifi \<times> 'k \<Rightarrow> esp_err \<times> wifi \<times> 'k" where
  "configure_station d credentials = on_radio d (drv_set_config d IfSta (station_config credentials))"

text \<open>\<open>storage_\<close>: the settings the object points to, if any.\<close>

type_synonym 'n settings = "('n nvs \<times> 'n storage) option"

definition fill_ap_config :: "'n settings \<Rightarrow> wifi_conf" where
  "fill_ap_config st =
     (let password = (case st of Some (ops, s) \<Rightarrow> ap_password ops s | None \<Rightarrow> []);
          password = (if length password < 8 \<or> 63 < length password then kDefaultApPassword else password)
      in \<lparr>cf_ssid = strlcpy kAccessPointSsid 32, cf_password = strlcpy password 64, cf_auth = AuthWpa2Psk,
          cf_ssid_len = length kAccessPointSsid, cf_channel = 1, cf_max_connection = 4\<rparr>)"

definition request_connect :: "'k wifi_driver \<Rightarrow> wifi \<times> 'k \<Rightarrow> wifi \<times> 'k" where
  "request_connect d s =
     (let s = ((fst s)\<lparr>wm_last_retry_ms := now_ms d (snd s)\<rparr>, snd s);
          (result, s) = on_radio d (drv_connect d) s
      in if result = ESP_ERR_WIFI_CONN
         then snd (on_radio d (drv_connect d) (snd (on_radio d (drv_disconnect d) s)))
         else s)"

definition connecting :: "'k wifi_driver \<Rightarrow> wifi \<times> 'k \<Rightarrow> esp_err \<times> wifi \<times> 'k" where
  "connecting d s = (ESP_OK, request_connect d s)"

text \<open>\<open>esp_wifi_get_mode\<close>, and \<open>esp_wifi_stop\<close> when the radio is running.\<close>

definition radio_idle :: "'k wifi_driver \<Rightarrow> wifi \<times> 'k \<Rightarrow> esp_err \<times> wifi \<times> 'k" where
  "radio_idle d s =
     (case drv_get_mode d (snd s) of (e, mode, k) \<Rightarrow>
        return_on_error (e, deliver d k (fst s), k)
          (\<lambda>s. if mode \<noteq> ModeNull then log_only (on_radio d (drv_stop d)) s else (ESP_OK, s)))"

definition enable_access_point :: "'k wifi_driver \<Rightarrow> 'n settings \<Rightarrow> wifi \<times> 'k \<Rightarrow> esp_err \<times> wifi \<times> 'k" where
  "enable_access_point d st = try_all
     [radio_idle d, on_radio d (drv_set_mode d ModeAp),
      on_radio d (drv_set_config d IfAp (fill_ap_config st)),
      set_wifi_mac_from_efuse d IfAp, on_radio d (drv_start d),
      (\<lambda>s. set_fields (\<lambda>p. p\<lparr>wm_access_point_active := True, wm_connected := False,
          wm_last_retry_ms := now_ms d (snd s)\<rparr>) s)]"

definition enable_station_only :: "'k wifi_driver \<Rightarrow> wifi_credentials \<Rightarrow> wifi \<times> 'k \<Rightarrow> esp_err \<times> wifi \<times> 'k" where
  "enable_station_only d credentials = try_all
     [radio_idle d, on_radio d (drv_set_mode d ModeSta), configure_station d credentials,
      set_wifi_mac_from_efuse d IfSta, on_radio d (drv_start d), log_only (on_radio d (drv_ps_none d)),
      set_fields (\<lambda>p. p\<lparr>wm_access_point_active := False, wm_disable_ap_pending := False, wm_connected := False,
          wm_disconnected_at_ms := 0, wm_last_retry_ms := 0\<rparr>),
      connecting d]"

definition disable_access_point :: "'k wifi_driver \<Rightarrow> wifi \<times> 'k \<Rightarrow> esp_err \<times> wifi \<times> 'k" where
  "disable_access_point d = try_all
     [radio_idle d, on_radio d (drv_set_mode d ModeSta), set_wifi_mac_from_efuse d IfSta,
      on_radio d (drv_start d), log_only (on_radio d (drv_ps_none d)),
      set_fields (\<lambda>p. p\<lparr>wm_access_point_active := False, wm_disconnected_at_ms := 0\<rparr>),
      connecting d]"

definition enable_ap_sta :: "'k wifi_driver \<Rightarrow> 'n settings \<Rightarrow> wifi_credentials \<Rightarrow> wifi \<times> 'k \<Rightarrow> esp_err \<times> wifi \<times> 'k" where
  "enable_ap_sta d st credentials = try_all
     [radio_idle d, on_radio d (drv_set_mode d ModeApSta),
      on_radio d (drv_set_config d IfAp (fill_ap_config st)), configure_station d credentials,
      set_wifi_mac_from_efuse d IfAp, set_wifi_mac_from_efuse d IfSta,
      on_radio d (drv_start d), log_only (on_radio d (drv_ps_none d)),
      set_fields (\<lambda>p. p\<lparr>wm_access_point_active := True, wm_connected := False,
          wm_disconnected_at_ms := 0, wm_last_retry_ms := 0\<rparr>),
      connecting d]"

definition update_credentials :: "'k wifi_driver \<Rightarrow> wifi_credentials \<Rightarrow> wifi \<times> 'k \<Rightarrow> esp_err \<times> wifi \<times> 'k" where
  "update_credentials d credentials s = enable_station_only d credentials (snd (on_radio d (drv_disconnect d) s))"

definition apply_ap_settings :: "'k wifi_driver \<Rightarrow> 'n settings \<Rightarrow> wifi \<times> 'k \<Rightarrow> esp_err \<times> wifi \<times> 'k" where
  "apply_ap_settings d st = on_radio d (drv_set_config d IfAp (fill_ap_config st))"

subsection \<open>Start\<close>

definition check_created :: "bool \<Rightarrow> esp_err" where
  "check_created ok = (if ok then ESP_OK else ESP_ERR_NO_MEM)"

definition create_group :: "'k wifi_driver \<Rightarrow> wifi \<times> 'k \<Rightarrow> esp_err \<times> wifi \<times> 'k" where
  "create_group d s = (case drv_create_group d (snd s) of
     (ok, k) \<Rightarrow> (check_created ok, (fst s)\<lparr>wm_events := ok\<rparr>, k))"

definition create_event_loop :: "'k wifi_driver \<Rightarrow> wifi \<times> 'k \<Rightarrow> esp_err \<times> wifi \<times> 'k" where
  "create_event_loop d s = (case on_radio d (drv_event_loop d) s of
     (e, s) \<Rightarrow> (if e = ESP_ERR_INVALID_STATE then ESP_OK else e, s))"

definition create_netifs :: "'k wifi_driver \<Rightarrow> wifi \<times> 'k \<Rightarrow> esp_err \<times> wifi \<times> 'k" where
  "create_netifs d s =
     (let (sta, k) = drv_create_netif d IfSta (snd s); (ap, k) = drv_create_netif d IfAp k
      in (check_created (sta \<and> ap), (fst s)\<lparr>wm_station_netif := sta, wm_access_point_netif := ap\<rparr>, k))"

definition create_recovery_task :: "'k wifi_driver \<Rightarrow> wifi \<times> 'k \<Rightarrow> esp_err \<times> wifi \<times> 'k" where
  "create_recovery_task d s = (case drv_create_task d (snd s) of
     (ok, k) \<Rightarrow> (check_created ok, (fst s)\<lparr>wm_recovery_task := ok\<rparr>, k))"

text \<open>Without stored credentials the radio starts as an access point, otherwise as a station.\<close>

definition initial_mode :: "'k wifi_driver \<Rightarrow> 'n nvs \<Rightarrow> 'n storage \<Rightarrow> wifi \<times> 'k \<Rightarrow> esp_err \<times> wifi \<times> 'k" where
  "initial_mode d ops store =
     (let credentials = load_wifi ops store
      in if \<not> wc_valid credentials then enable_access_point d (Some (ops, store))
         else enable_station_only d credentials)"

definition wifi_start :: "'k wifi_driver \<Rightarrow> 'n nvs \<Rightarrow> 'n storage \<Rightarrow> wifi \<times> 'k \<Rightarrow> esp_err \<times> wifi \<times> 'k" where
  "wifi_start d ops store = try_all
     [create_group d, on_radio d (drv_netif_init d), create_event_loop d, create_netifs d,
      on_radio d (drv_hosted_init d), on_radio d (drv_hosted_connect d), on_radio d (drv_wifi_init d),
      log_only (on_radio d (drv_storage_ram d)),
      on_radio d (drv_register d 0), on_radio d (drv_register d 1), on_radio d (drv_register d 2),
      initial_mode d ops store, create_recovery_task d]"

subsection \<open>Status\<close>

definition wifi_state_of :: "wifi \<Rightarrow> wifi_state" where
  "wifi_state_of p =
     (if wm_connected p then WifiConnected
      else if wm_access_point_active p then WifiAccessPoint
      else WifiDisconnected)"

definition wifi_rssi :: "wifi \<Rightarrow> int" where
  "wifi_rssi p = (if \<not> wm_connected p then -127 else if wm_cached_valid p then wm_cached_rssi p else -127)"

definition wifi_ssid :: "wifi \<Rightarrow> string" where
  "wifi_ssid p =
     (if \<not> wm_connected p then (if wm_access_point_active p then kAccessPointSsid else [])
      else if wm_cached_valid p then wm_cached_ssid p else [])"

text \<open>\<open>IPSTR\<close> of an address in network order, as the lwIP macros take it apart.\<close>

definition ip_text :: "u32 \<Rightarrow> string" where
  "ip_text a =
     (let octet = (\<lambda>i. dec_nat (unat (drop_bit (8 * i) a AND 0xFF)))
      in take 15 (octet 0 @ ''.'' @ octet 1 @ ''.'' @ octet 2 @ ''.'' @ octet 3))"

definition ip_address :: "'k wifi_driver \<Rightarrow> wifi \<times> 'k \<Rightarrow> string" where
  "ip_address d s =
     (if \<not> wm_connected (fst s) \<or> \<not> wm_station_netif (fst s) then []
      else case drv_ip d IfSta (snd s) of None \<Rightarrow> [] | Some a \<Rightarrow> ip_text a)"

definition access_point_ssid :: "wifi \<Rightarrow> string" where
  "access_point_ssid p = (if wm_access_point_active p then kAccessPointSsid else [])"

definition access_point_ip :: "'k wifi_driver \<Rightarrow> wifi \<times> 'k \<Rightarrow> string" where
  "access_point_ip d s =
     (if \<not> wm_access_point_active (fst s) \<or> \<not> wm_access_point_netif (fst s) then []
      else case drv_ip d IfAp (snd s) of None \<Rightarrow> [] | Some a \<Rightarrow> ip_text a)"

subsection \<open>The recovery task\<close>

definition refresh_ap_info :: "'k wifi_driver \<Rightarrow> wifi \<times> 'k \<Rightarrow> wifi \<times> 'k" where
  "refresh_ap_info d s =
     (let (p, k) = s in
      if \<not> wm_connected p then (p\<lparr>wm_ap_info_last_ms := 0, wm_cached_valid := False\<rparr>, k)
      else
        let now = now_ms d k; last = wm_ap_info_last_ms p in
        if last \<noteq> 0 \<and> now - last < kApInfoRefreshMs then (p, k)
        else
          let p = p\<lparr>wm_ap_info_last_ms := now\<rparr>; (info, k) = drv_sta_info d k; p = deliver d k p in
          (case info of
             Some r \<Rightarrow> (p\<lparr>wm_cached_rssi := ar_rssi r, wm_cached_ssid := c_str (take 32 (ar_ssid r)),
                          wm_cached_valid := True\<rparr>, k)
           | None \<Rightarrow> (p, k)))"

definition have_credentials :: "'n settings \<Rightarrow> bool" where
  "have_credentials st = (case st of Some (ops, s) \<Rightarrow> wc_valid (load_wifi ops s) | None \<Rightarrow> False)"

text \<open>Raising the SoftAP next to the station; the credentials are loaded again.\<close>

definition raise_fallback :: "'k wifi_driver \<Rightarrow> 'n settings \<Rightarrow> int \<Rightarrow> wifi \<times> 'k \<Rightarrow> wifi \<times> 'k" where
  "raise_fallback d st now s =
     (case st of
        None \<Rightarrow> s
      | Some (ops, store) \<Rightarrow>
          if wc_valid (load_wifi ops store) then
            (case enable_ap_sta d st (load_wifi ops store) s of
               (e, p, k) \<Rightarrow> (if e = ESP_OK then p\<lparr>wm_last_retry_ms := now\<rparr> else p, k))
          else s)"

text \<open>One pass of \<open>recovery_loop\<close>; every pass ends with a delay of a second.\<close>

definition recovery_pass :: "'k wifi_driver \<Rightarrow> 'n settings \<Rightarrow> wifi \<times> 'k \<Rightarrow> wifi \<times> 'k" where
  "recovery_pass d st s =
     (let now = now_ms d (snd s); s = refresh_ap_info d s in
      if wm_disable_ap_pending (fst s) then
        (case disable_access_point d ((fst s)\<lparr>wm_disable_ap_pending := False\<rparr>, snd s) of
           (e, p, k) \<Rightarrow> (if e \<noteq> ESP_OK then p\<lparr>wm_disable_ap_pending := True\<rparr> else p, k))
      else if have_credentials st \<and> \<not> wm_connected (fst s) then
        let offline_ms = (if 0 < wm_disconnected_at_ms (fst s) then now - wm_disconnected_at_ms (fst s) else 0) in
        if kApFallbackMs \<le> offline_ms \<and> \<not> wm_access_point_active (fst s) \<and> \<not> wm_connected (fst s)
        then raise_fallback d st now s
        else if kRetryIntervalMs \<le> now - wm_last_retry_ms (fst s)
        then request_connect d ((fst s)\<lparr>wm_last_retry_ms := now\<rparr>, snd s)
        else s
      else s)"

subsection \<open>Scanning\<close>

text \<open>One scan record folded into the list: a new name, or a stronger record of a known one.\<close>

definition merge_network :: "wifi_network list \<Rightarrow> ap_record \<Rightarrow> wifi_network list" where
  "merge_network networks r =
     (let ssid = c_str (ar_ssid r); secured = (ar_auth r \<noteq> AuthOpen) in
      if ssid = [] then networks
      else if ssid \<notin> set (map wn_ssid networks)
      then networks @ [\<lparr>wn_ssid = ssid, wn_rssi = ar_rssi r, wn_secured = secured\<rparr>]
      else map (\<lambda>n. if wn_ssid n = ssid \<and> wn_rssi n < ar_rssi r
                    then n\<lparr>wn_rssi := ar_rssi r, wn_secured := secured\<rparr> else n) networks)"

text \<open>\<open>std::sort\<close> by falling strength; the order among equals is not fixed by the library.\<close>

definition scan_networks :: "'k wifi_driver \<Rightarrow> 'k \<Rightarrow> wifi_network list \<times> 'k" where
  "scan_networks d k =
     (let (e, k) = drv_scan_start d k in
      if e \<noteq> ESP_OK then ([], k)
      else
        let (e, count, k) = drv_scan_count d k in
        if e \<noteq> ESP_OK \<or> count = 0 then ([], k)
        else
          let (e, records, k) = drv_scan_records d (min (unat count) 24) k in
          if e \<noteq> ESP_OK then ([], k)
          else (sort_key (\<lambda>n. - wn_rssi n) (foldl merge_network [] records), k))"

subsection \<open>What every operation keeps\<close>

text \<open>
  The requirement a driver state may carry: every call keeps \<open>safe\<close>, the SoftAP configuration
  only when it is secured with a password WPA2 accepts.
\<close>

definition secured :: "wifi_conf \<Rightarrow> bool" where
  "secured conf \<longleftrightarrow> cf_auth conf = AuthWpa2Psk \<and> 8 \<le> length (cf_password conf) \<and> length (cf_password conf) \<le> 63"

definition call_keeps :: "('k \<Rightarrow> bool) \<Rightarrow> ('k \<Rightarrow> 'r \<times> 'k) \<Rightarrow> bool" where
  "call_keeps safe f \<longleftrightarrow> (\<forall>k. safe k \<longrightarrow> safe (snd (f k)))"

definition driver_keeps :: "'k wifi_driver \<Rightarrow> ('k \<Rightarrow> bool) \<Rightarrow> bool" where
  "driver_keeps d safe \<longleftrightarrow>
     call_keeps safe (drv_create_group d) \<and> call_keeps safe (drv_netif_init d) \<and>
     call_keeps safe (drv_event_loop d) \<and> (\<forall>i. call_keeps safe (drv_create_netif d i)) \<and>
     call_keeps safe (drv_hosted_init d) \<and> call_keeps safe (drv_hosted_connect d) \<and>
     call_keeps safe (drv_wifi_init d) \<and> call_keeps safe (drv_storage_ram d) \<and>
     (\<forall>n. call_keeps safe (drv_register d n)) \<and> call_keeps safe (drv_create_task d) \<and>
     (\<forall>k. safe k \<longrightarrow> safe (snd (snd (drv_get_mode d k)))) \<and> (\<forall>m. call_keeps safe (drv_set_mode d m)) \<and>
     (\<forall>i m. call_keeps safe (drv_set_mac d i m)) \<and> call_keeps safe (drv_start d) \<and> call_keeps safe (drv_stop d) \<and>
     call_keeps safe (drv_ps_none d) \<and> call_keeps safe (drv_connect d) \<and> call_keeps safe (drv_disconnect d) \<and>
     call_keeps safe (drv_sta_info d) \<and> call_keeps safe (drv_scan_start d) \<and>
     (\<forall>k. safe k \<longrightarrow> safe (snd (snd (drv_scan_count d k)))) \<and>
     (\<forall>n k. safe k \<longrightarrow> safe (snd (snd (drv_scan_records d n k)))) \<and>
     (\<forall>conf. call_keeps safe (drv_set_config d IfSta conf)) \<and>
     (\<forall>conf. secured conf \<longrightarrow> call_keeps safe (drv_set_config d IfAp conf))"

lemma fill_ap_config_secured [simp]: "secured (fill_ap_config st)"
proof -
  define pw where "pw = (case st of Some (ops, s) \<Rightarrow> ap_password ops s | None \<Rightarrow> [])"
  define pw' where "pw' = (if length pw < 8 \<or> 63 < length pw then kDefaultApPassword else pw)"
  have "CHR 0x00 \<notin> set pw"
    by (auto simp: pw_def ap_password_def get_string_def c_str_no_nul split: option.splits sum.splits)
  then have nul: "CHR 0x00 \<notin> set pw'" by (simp add: pw'_def kDefaultApPassword_def)
  have len: "8 \<le> length pw'" "length pw' \<le> 63" by (auto simp: pw'_def kDefaultApPassword_def)
  have "strlcpy pw' 64 = pw'" using strlcpy_id [OF nul] len by simp
  then show ?thesis using len by (simp add: secured_def fill_ap_config_def pw_def [symmetric] pw'_def [symmetric] Let_def)
qed

text \<open>The clock of the SoftAP fallback runs only while the station is down.\<close>

definition timer_ok :: "wifi \<Rightarrow> bool" where
  "timer_ok p \<longleftrightarrow> (wm_connected p \<longrightarrow> wm_disconnected_at_ms p = 0)"

definition wifi_inv :: "'k wifi_driver \<Rightarrow> ('k \<Rightarrow> bool) \<Rightarrow> wifi \<times> 'k \<Rightarrow> bool" where
  "wifi_inv d safe s \<longleftrightarrow> timer_ok (fst s) \<and> (driver_keeps d safe \<longrightarrow> safe (snd s))"

lemma handle_event_timer: "timer_ok p \<Longrightarrow> timer_ok (handle_event now ev p)"
  by (cases ev) (auto simp: handle_event_def timer_ok_def Let_def)

lemma deliver_timer: "timer_ok p \<Longrightarrow> timer_ok (deliver d k p)"
proof -
  have "timer_ok p \<Longrightarrow> timer_ok (foldl (\<lambda>p ev. handle_event now ev p) p evs)" for now evs
    by (induction evs arbitrary: p) (auto intro: handle_event_timer)
  then show "timer_ok p \<Longrightarrow> timer_ok (deliver d k p)" by (simp add: deliver_def)
qed

text \<open>An operation of the manager that keeps the requirement and the invariant of the clock.\<close>

definition op_keeps :: "'k wifi_driver \<Rightarrow> ('k \<Rightarrow> bool) \<Rightarrow> (wifi \<times> 'k \<Rightarrow> esp_err \<times> wifi \<times> 'k) \<Rightarrow> bool" where
  "op_keeps d safe f \<longleftrightarrow> (\<forall>s. wifi_inv d safe s \<longrightarrow> wifi_inv d safe (snd (f s)))"

lemma driver_calls_keep:
  assumes "driver_keeps d safe"
  shows "call_keeps safe (drv_netif_init d)" "call_keeps safe (drv_event_loop d)"
    "call_keeps safe (drv_hosted_init d)" "call_keeps safe (drv_hosted_connect d)" "call_keeps safe (drv_wifi_init d)"
    "call_keeps safe (drv_storage_ram d)" "call_keeps safe (drv_register d n)" "call_keeps safe (drv_set_mode d m)"
    "call_keeps safe (drv_set_mac d i mac)" "call_keeps safe (drv_start d)" "call_keeps safe (drv_stop d)"
    "call_keeps safe (drv_ps_none d)" "call_keeps safe (drv_connect d)" "call_keeps safe (drv_disconnect d)"
    "call_keeps safe (drv_set_config d IfSta conf)" "secured conf \<Longrightarrow> call_keeps safe (drv_set_config d IfAp conf)"
    "call_keeps safe (drv_create_group d)" "call_keeps safe (drv_create_netif d i)" "call_keeps safe (drv_create_task d)"
    "call_keeps safe (drv_sta_info d)" "call_keeps safe (drv_scan_start d)"
  using assms by (simp_all add: driver_keeps_def)

lemma on_radio_keeps: "(driver_keeps d safe \<Longrightarrow> call_keeps safe f) \<Longrightarrow> op_keeps d safe (on_radio d f)"
  by (auto simp: op_keeps_def call_keeps_def on_radio_def wifi_inv_def deliver_timer split: prod.splits)
    (metis snd_conv)

lemma log_only_keeps: "op_keeps d safe f \<Longrightarrow> op_keeps d safe (log_only f)"
  by (simp add: op_keeps_def log_only_def)

lemma set_fields_keeps:
  "(\<And>p. timer_ok p \<Longrightarrow> timer_ok (f p)) \<Longrightarrow> op_keeps d safe (set_fields f)"
  by (simp add: op_keeps_def wifi_inv_def set_fields_def)

lemma try_all_keeps: "(\<And>f. f \<in> set fs \<Longrightarrow> op_keeps d safe f) \<Longrightarrow> op_keeps d safe (try_all fs)"
  unfolding op_keeps_def by (blast intro: try_all_invariant)

lemma radio_idle_keeps: "op_keeps d safe (radio_idle d)"
  unfolding op_keeps_def
proof (intro allI impI)
  fix s assume inv: "wifi_inv d safe s"
  obtain e mode k where g: "drv_get_mode d (snd s) = (e, mode, k)" by (rule prod_cases3)
  have "driver_keeps d safe \<Longrightarrow> safe (snd s) \<Longrightarrow> safe (snd (snd (drv_get_mode d (snd s))))"
    by (simp add: driver_keeps_def)
  then have "wifi_inv d safe (deliver d k (fst s), k)"
    using inv g by (simp add: wifi_inv_def deliver_timer)
  moreover have "op_keeps d safe (log_only (on_radio d (drv_stop d)))"
    by (intro log_only_keeps on_radio_keeps driver_calls_keep)
  ultimately show "wifi_inv d safe (snd (radio_idle d s))"
    by (simp add: radio_idle_def g return_on_error_def op_keeps_def)
qed

lemma mac_keeps: "op_keeps d safe (set_wifi_mac_from_efuse d i)"
  unfolding set_wifi_mac_from_efuse_def by (intro log_only_keeps on_radio_keeps driver_calls_keep)

lemma configure_station_keeps: "op_keeps d safe (configure_station d c)"
  unfolding configure_station_def by (intro on_radio_keeps driver_calls_keep)

lemma request_connect_inv:
  assumes "wifi_inv d safe s" shows "wifi_inv d safe (request_connect d s)"
proof -
  let ?s = "((fst s)\<lparr>wm_last_retry_ms := now_ms d (snd s)\<rparr>, snd s)"
  have s: "wifi_inv d safe ?s" using assms by (simp add: wifi_inv_def timer_ok_def)
  have con: "op_keeps d safe (on_radio d (drv_connect d))" by (intro on_radio_keeps driver_calls_keep)
  have dis: "op_keeps d safe (on_radio d (drv_disconnect d))" by (intro on_radio_keeps driver_calls_keep)
  have keep: "wifi_inv d safe (snd (on_radio d f r))" if "op_keeps d safe (on_radio d f)" "wifi_inv d safe r" for f r
    using that unfolding op_keeps_def by blast
  show ?thesis unfolding request_connect_def Let_def split_beta
    by (simp add: keep [OF con] keep [OF dis] s)
qed

lemma connecting_keeps: "op_keeps d safe (connecting d)"
  by (simp add: op_keeps_def connecting_def request_connect_inv)

lemmas radio_ops_keep = radio_idle_keeps mac_keeps configure_station_keeps connecting_keeps
  log_only_keeps on_radio_keeps driver_calls_keep fill_ap_config_secured

lemma enable_ops_keep:
  "op_keeps d safe (enable_access_point d st)" "op_keeps d safe (enable_station_only d c)"
  "op_keeps d safe (disable_access_point d)" "op_keeps d safe (enable_ap_sta d st c)"
proof -
  have last: "op_keeps d safe (\<lambda>s. set_fields (\<lambda>p. p\<lparr>wm_access_point_active := True, wm_connected := False,
      wm_last_retry_ms := now_ms d (snd s)\<rparr>) s)"
    by (simp add: op_keeps_def set_fields_def wifi_inv_def timer_ok_def)
  show "op_keeps d safe (enable_access_point d st)"
    unfolding enable_access_point_def
    by (rule try_all_keeps) (auto intro: radio_ops_keep last)
  show "op_keeps d safe (enable_station_only d c)"
    unfolding enable_station_only_def
    by (rule try_all_keeps) (auto intro!: radio_ops_keep set_fields_keeps simp: timer_ok_def)
  show "op_keeps d safe (disable_access_point d)"
    unfolding disable_access_point_def
    by (rule try_all_keeps) (auto intro!: radio_ops_keep set_fields_keeps simp: timer_ok_def)
  show "op_keeps d safe (enable_ap_sta d st c)"
    unfolding enable_ap_sta_def
    by (rule try_all_keeps) (auto intro!: radio_ops_keep set_fields_keeps simp: timer_ok_def)
qed

lemma op_keepsD: "op_keeps d safe f \<Longrightarrow> wifi_inv d safe s \<Longrightarrow> f s = (e, t) \<Longrightarrow> wifi_inv d safe t"
  unfolding op_keeps_def by (metis snd_conv)

lemma update_credentials_keeps: "op_keeps d safe (update_credentials d c)"
proof -
  have "op_keeps d safe (on_radio d (drv_disconnect d))" by (intro radio_ops_keep)
  then show ?thesis using enable_ops_keep(2) [of d safe c] unfolding op_keeps_def update_credentials_def by blast
qed

lemma apply_ap_settings_keeps: "op_keeps d safe (apply_ap_settings d st)"
  unfolding apply_ap_settings_def by (intro radio_ops_keep)

lemma refresh_ap_info_inv:
  assumes "wifi_inv d safe s" shows "wifi_inv d safe (refresh_ap_info d s)"
proof -
  obtain p k where s: "s = (p, k)" by (rule prod.exhaust)
  obtain info k1 where i: "drv_sta_info d k = (info, k1)" by (rule prod.exhaust)
  have safe: "driver_keeps d safe \<Longrightarrow> safe k1"
    using assms driver_calls_keep(20) [of d safe] i by (auto simp: wifi_inv_def call_keeps_def s dest: spec [of _ k])
  have "timer_ok (deliver d k1 (p\<lparr>wm_ap_info_last_ms := n\<rparr>))" for n
    using assms by (intro deliver_timer) (simp add: wifi_inv_def s timer_ok_def)
  then show ?thesis using assms safe
    by (auto simp: refresh_ap_info_def wifi_inv_def timer_ok_def s i Let_def split: option.splits)
qed

lemma wifi_inv_update [simp]:
  "wifi_inv d safe (p\<lparr>wm_disable_ap_pending := b\<rparr>, k) = wifi_inv d safe (p, k)"
  "wifi_inv d safe (p\<lparr>wm_last_retry_ms := t\<rparr>, k) = wifi_inv d safe (p, k)"
  by (simp_all add: wifi_inv_def timer_ok_def)

lemma raise_fallback_inv:
  assumes "wifi_inv d safe s" shows "wifi_inv d safe (raise_fallback d st now s)"
proof -
  have "wifi_inv d safe t" if "enable_ap_sta d st c s = (e, t)" for c e t
    using op_keepsD [OF enable_ops_keep(4) assms that] .
  then show ?thesis using assms by (auto simp: raise_fallback_def split: option.splits prod.splits)
qed

lemma recovery_pass_inv:
  assumes "wifi_inv d safe s" shows "wifi_inv d safe (recovery_pass d st s)"
proof -
  obtain p k where r: "refresh_ap_info d s = (p, k)" by (rule prod.exhaust)
  have inv: "wifi_inv d safe (p, k)" using refresh_ap_info_inv [OF assms] r by simp
  have dis: "wifi_inv d safe t" if "disable_access_point d (p\<lparr>wm_disable_ap_pending := False\<rparr>, k) = (e, t)" for e t
    using op_keepsD [OF enable_ops_keep(3) _ that] inv by simp
  have req: "wifi_inv d safe (request_connect d (p\<lparr>wm_last_retry_ms := n\<rparr>, k))" for n
    using inv by (intro request_connect_inv) simp
  show ?thesis using inv dis req raise_fallback_inv [OF inv]
    by (auto simp: recovery_pass_def r Let_def split: prod.splits)
qed

lemma scan_networks_safe:
  assumes keeps: "driver_keeps d safe" and "safe k" shows "safe (snd (scan_networks d k))"
proof -
  obtain e1 k1 where a: "drv_scan_start d k = (e1, k1)" by (rule prod.exhaust)
  obtain e2 n k2 where b: "drv_scan_count d k1 = (e2, n, k2)" by (rule prod_cases3)
  obtain e3 rs k3 where c: "drv_scan_records d (min (unat n) 24) k2 = (e3, rs, k3)" by (rule prod_cases3)
  have s1: "safe k1" using driver_calls_keep(21) [OF keeps] assms(2) a unfolding call_keeps_def by (metis snd_conv)
  have s2: "safe k2" using keeps s1 b unfolding driver_keeps_def by (metis snd_conv)
  have s3: "safe k3" using keeps s2 c unfolding driver_keeps_def by (metis snd_conv)
  show ?thesis using s1 s2 s3 by (simp add: scan_networks_def a b c Let_def)
qed

lemma create_steps_keep:
  "op_keeps d safe (create_group d)" "op_keeps d safe (create_event_loop d)" "op_keeps d safe (create_netifs d)"
  "op_keeps d safe (create_recovery_task d)" "op_keeps d safe (initial_mode d ops store)"
proof -
  have call: "safe k'" if "c k = (r, k')" "driver_keeps d safe \<longrightarrow> safe k" "driver_keeps d safe"
    "call_keeps safe c" for c :: "'a \<Rightarrow> bool \<times> 'a" and k r k'
    using that unfolding call_keeps_def by (metis snd_conv)
  show "op_keeps d safe (create_group d)"
    using call [OF _ _ _ driver_calls_keep(17)]
    by (auto simp: op_keeps_def create_group_def wifi_inv_def timer_ok_def split: prod.splits)
  show "op_keeps d safe (create_recovery_task d)"
    using call [OF _ _ _ driver_calls_keep(19)]
    by (auto simp: op_keeps_def create_recovery_task_def wifi_inv_def timer_ok_def split: prod.splits)
  show "op_keeps d safe (create_netifs d)"
    using call [OF _ _ _ driver_calls_keep(18)]
    by (auto simp: op_keeps_def create_netifs_def wifi_inv_def timer_ok_def split: prod.splits)
  have "op_keeps d safe (on_radio d (drv_event_loop d))" by (intro radio_ops_keep)
  from op_keepsD [OF this] show "op_keeps d safe (create_event_loop d)"
    by (auto simp: op_keeps_def create_event_loop_def split: prod.splits)
  show "op_keeps d safe (initial_mode d ops store)"
    by (auto simp: initial_mode_def Let_def intro: enable_ops_keep)
qed

lemma wifi_start_keeps: "op_keeps d safe (wifi_start d ops store)"
  unfolding wifi_start_def
  by (rule try_all_keeps) (auto intro: radio_ops_keep create_steps_keep)

text \<open>
  The tasks that use the manager: the event task, the recovery task, the web server and the user
  interface. The settings may change between the steps.
\<close>

inductive wifi_step :: "'k wifi_driver \<Rightarrow> 'n nvs \<Rightarrow> wifi \<times> 'k \<Rightarrow> wifi \<times> 'k \<Rightarrow> bool" for d ops where
  Event: "wifi_step d ops (p, k) (handle_event (now_ms d k) ev p, k)"
| Start: "wifi_start d ops store s = (e, s') \<Longrightarrow> wifi_step d ops s s'"
| Pass: "wifi_step d ops s (recovery_pass d (Some (ops, store)) s)"
| Update: "update_credentials d c s = (e, s') \<Longrightarrow> wifi_step d ops s s'"
| Apply: "apply_ap_settings d (Some (ops, store)) s = (e, s') \<Longrightarrow> wifi_step d ops s s'"
| Scan: "scan_networks d k = (ns, k') \<Longrightarrow> wifi_step d ops (p, k) (p, k')"

inductive_cases wifi_stepE: "wifi_step d ops s t"

interpretation wifi_tasks: transition_system "wifi_step d ops" "wifi_inv d safe" for d ops safe
proof
  fix s t
  assume inv: "wifi_inv d safe s" and "wifi_step d ops s t"
  from this(2) show "wifi_inv d safe t"
  proof cases
    case (Event p k ev)
    then show ?thesis using inv handle_event_timer by (auto simp: wifi_inv_def)
  next
    case (Start store e)
    then show ?thesis using inv op_keepsD [OF wifi_start_keeps] by blast
  next
    case (Pass store)
    then show ?thesis using inv recovery_pass_inv by blast
  next
    case (Update c e)
    then show ?thesis using inv op_keepsD [OF update_credentials_keeps] by blast
  next
    case (Apply store e)
    then show ?thesis using inv op_keepsD [OF apply_ap_settings_keeps] by blast
  next
    case (Scan k ns k' p)
    then show ?thesis using inv scan_networks_safe [of d safe k] by (auto simp: wifi_inv_def)
  qed
qed

subsection \<open>The fallback\<close>

text \<open>
  A driver whose mode changes succeed; \<open>mode\<close> is the radio mode it is in.
\<close>

definition radio_works :: "'k wifi_driver \<Rightarrow> ('k \<Rightarrow> wifi_mode) \<Rightarrow> bool" where
  "radio_works d mode \<longleftrightarrow>
     (\<forall>k. fst (drv_get_mode d k) = ESP_OK) \<and>
     (\<forall>m k. fst (drv_set_mode d m k) = ESP_OK \<and> mode (snd (drv_set_mode d m k)) = m) \<and>
     (\<forall>i conf k. fst (drv_set_config d i conf k) = ESP_OK \<and> mode (snd (drv_set_config d i conf k)) = mode k) \<and>
     (\<forall>i m k. mode (snd (drv_set_mac d i m k)) = mode k) \<and>
     (\<forall>k. fst (drv_start d k) = ESP_OK \<and> mode (snd (drv_start d k)) = mode k) \<and>
     (\<forall>k. mode (snd (drv_ps_none d k)) = mode k) \<and>
     (\<forall>k. mode (snd (drv_connect d k)) = mode k) \<and> (\<forall>k. mode (snd (drv_disconnect d k)) = mode k) \<and>
     (\<forall>k. mode (snd (drv_sta_info d k)) = mode k)"

lemma deliver_ap_active [simp]: "wm_access_point_active (deliver d k p) = wm_access_point_active p"
proof -
  have "wm_access_point_active (foldl (\<lambda>p ev. handle_event now ev p) p evs) = wm_access_point_active p" for now evs
    by (induction evs arbitrary: p) (auto simp: handle_event_def Let_def split: wifi_event.splits)
  then show ?thesis by (simp add: deliver_def)
qed

lemma request_connect_ap [simp]:
  "wm_access_point_active (fst (request_connect d s)) = wm_access_point_active (fst s)"
  by (simp add: request_connect_def on_radio_def Let_def split_beta)

lemma request_connect_mode:
  "radio_works d mode \<Longrightarrow> mode (snd (request_connect d s)) = mode (snd s)"
  by (simp add: request_connect_def on_radio_def radio_works_def Let_def split_beta)

lemma radio_idle_works:
  "radio_works d mode \<Longrightarrow> \<exists>p' k'. radio_idle d s = (ESP_OK, p', k') \<and>
    wm_access_point_active p' = wm_access_point_active (fst s)"
  by (auto simp: radio_idle_def radio_works_def log_only_def on_radio_def return_on_error_def split: prod.splits)
    (metis fst_conv)+

lemma on_radio_works:
  "fst (f (snd s)) = ESP_OK \<Longrightarrow> on_radio d f s = (ESP_OK, deliver d (snd (f (snd s))) (fst s), snd (f (snd s)))"
  by (simp add: on_radio_def split_beta)

lemma enable_ap_sta_works:
  assumes "radio_works d mode"
  shows "fst (enable_ap_sta d st c s) = ESP_OK \<and> wm_access_point_active (fst (snd (enable_ap_sta d st c s))) \<and>
    mode (snd (snd (enable_ap_sta d st c s))) = ModeApSta"
proof -
  obtain p1 k1 where idle: "radio_idle d s = (ESP_OK, p1, k1)" using radio_idle_works [OF assms] by blast
  note w = assms [unfolded radio_works_def]
  show ?thesis
    by (simp add: enable_ap_sta_def idle on_radio_works w configure_station_def set_wifi_mac_from_efuse_def log_only_def
        on_radio_def split_beta set_fields_def connecting_def request_connect_mode [OF assms])
qed

lemma disable_access_point_works:
  assumes "radio_works d mode"
  shows "fst (disable_access_point d s) = ESP_OK \<and> \<not> wm_access_point_active (fst (snd (disable_access_point d s))) \<and>
    mode (snd (snd (disable_access_point d s))) = ModeSta"
proof -
  obtain p1 k1 where idle: "radio_idle d s = (ESP_OK, p1, k1)" using radio_idle_works [OF assms] by blast
  note w = assms [unfolded radio_works_def]
  show ?thesis
    by (simp add: disable_access_point_def idle on_radio_works w set_wifi_mac_from_efuse_def log_only_def
        on_radio_def split_beta set_fields_def connecting_def request_connect_mode [OF assms])
qed

text \<open>Off line since \<open>t\<close>, or with the SoftAP up.\<close>

definition offline_since :: "int \<Rightarrow> wifi \<times> 'k \<Rightarrow> bool" where
  "offline_since t s \<longleftrightarrow> \<not> wm_connected (fst s) \<and> \<not> wm_disable_ap_pending (fst s) \<and>
     (wm_access_point_active (fst s) \<or> wm_disconnected_at_ms (fst s) = t)"

definition no_connection :: "'k wifi_driver \<Rightarrow> bool" where
  "no_connection d \<longleftrightarrow> (\<forall>k. GotIp \<notin> set (drv_events d k))"

lemma deliver_offline:
  assumes "no_connection d" "0 < t" "offline_since t (p, k0)"
  shows "offline_since t (deliver d k p, k)"
proof -
  have "GotIp \<notin> set evs \<Longrightarrow> offline_since t (p, k0) \<Longrightarrow> offline_since t (foldl (\<lambda>p ev. handle_event now ev p) p evs, k)"
    for now evs p
  proof (induction evs arbitrary: p)
    case (Cons ev evs)
    have "offline_since t (handle_event now ev p, k0)"
      using Cons.prems assms(2) by (cases ev) (auto simp: handle_event_def offline_since_def Let_def)
    then show ?case using Cons by simp
  qed (simp add: offline_since_def)
  then show ?thesis using assms by (simp add: deliver_def no_connection_def)
qed

definition op_offline :: "int \<Rightarrow> (wifi \<times> 'k \<Rightarrow> esp_err \<times> wifi \<times> 'k) \<Rightarrow> bool" where
  "op_offline t f \<longleftrightarrow> (\<forall>s. offline_since t s \<longrightarrow> offline_since t (snd (f s)))"

lemma on_radio_offline: "no_connection d \<Longrightarrow> 0 < t \<Longrightarrow> op_offline t (on_radio d f)"
  using deliver_offline by (auto simp: op_offline_def on_radio_def split: prod.splits)

lemma log_only_offline: "op_offline t f \<Longrightarrow> op_offline t (log_only f)"
  by (simp add: op_offline_def log_only_def)

lemma radio_idle_offline:
  assumes "no_connection d" "0 < t" shows "op_offline t (radio_idle d)"
  unfolding op_offline_def
proof (intro allI impI)
  fix s :: "wifi \<times> 'a" assume off: "offline_since t s"
  obtain e mode k where g: "drv_get_mode d (snd s) = (e, mode, k)" by (rule prod_cases3)
  have "offline_since t (deliver d k (fst s), k)"
    using off deliver_offline [OF assms, of "fst s" "snd s" k] by simp
  then show "offline_since t (snd (radio_idle d s))"
    using log_only_offline [OF on_radio_offline [OF assms, of "drv_stop d"]]
    by (simp add: radio_idle_def g return_on_error_def op_offline_def)
qed

lemma request_connect_offline:
  assumes "no_connection d" "0 < t" "offline_since t s" shows "offline_since t (request_connect d s)"
proof -
  have s: "offline_since t ((fst s)\<lparr>wm_last_retry_ms := n\<rparr>, snd s)" for n
    using assms(3) by (simp add: offline_since_def)
  have "offline_since t (snd (on_radio d f r))" if "offline_since t r" for f r
    using on_radio_offline [OF assms(1,2), of f] that unfolding op_offline_def by blast
  then show ?thesis by (simp add: request_connect_def Let_def split_beta s)
qed

lemma enable_ap_sta_offline:
  assumes "no_connection d" "0 < t" shows "op_offline t (enable_ap_sta d st c)"
proof -
  note [intro] = on_radio_offline [OF assms] radio_idle_offline [OF assms] log_only_offline
  have "op_offline t f" if "f \<in> set [radio_idle d, on_radio d (drv_set_mode d ModeApSta),
      on_radio d (drv_set_config d IfAp (fill_ap_config st)), configure_station d c,
      set_wifi_mac_from_efuse d IfAp, set_wifi_mac_from_efuse d IfSta,
      on_radio d (drv_start d), log_only (on_radio d (drv_ps_none d)),
      set_fields (\<lambda>p. p\<lparr>wm_access_point_active := True, wm_connected := False,
          wm_disconnected_at_ms := 0, wm_last_retry_ms := 0\<rparr>),
      connecting d]" for f
    using that request_connect_offline [OF assms]
    by (auto simp: configure_station_def set_wifi_mac_from_efuse_def)
      (auto simp: op_offline_def set_fields_def connecting_def offline_since_def)
  then show ?thesis unfolding enable_ap_sta_def op_offline_def by (blast intro: try_all_invariant)
qed

lemma recovery_pass_offline:
  assumes works: "radio_works d mode" and quiet: "no_connection d" and "0 < t"
    and creds: "have_credentials st" and off: "offline_since t s"
  shows "offline_since t (recovery_pass d st s) \<and>
    (wm_access_point_active (fst (recovery_pass d st s)) \<longleftrightarrow>
      wm_access_point_active (fst s) \<or> t + 120000 \<le> now_ms d (snd s))"
proof -
  obtain p k where s: "s = (p, k)" by (rule prod.exhaust)
  have r: "refresh_ap_info d s = (p\<lparr>wm_ap_info_last_ms := 0, wm_cached_valid := False\<rparr>, k)"
    using off by (simp add: refresh_ap_info_def s offline_since_def)
  let ?p = "p\<lparr>wm_ap_info_last_ms := 0, wm_cached_valid := False\<rparr>"
  have off': "offline_since t (?p, k)" using off by (simp add: offline_since_def s)
  have retry: "offline_since t (?p\<lparr>wm_last_retry_ms := n\<rparr>, k)" for n using off' by (simp add: offline_since_def)
  obtain ops store where st: "st = Some (ops, store)" "wc_valid (load_wifi ops store)"
    using creds by (auto simp: have_credentials_def split: option.splits)
  obtain e q l where en: "enable_ap_sta d st (load_wifi ops store) (?p, k) = (e, q, l)" by (rule prod_cases3)
  have raised: "e = ESP_OK" "wm_access_point_active q"
    using enable_ap_sta_works [OF works, of st "load_wifi ops store" "(?p, k)"] en by simp_all
  have "offline_since t (snd (enable_ap_sta d st (load_wifi ops store) (?p, k)))"
    using enable_ap_sta_offline [OF quiet \<open>0 < t\<close>, of st "load_wifi ops store"] off' unfolding op_offline_def by blast
  then have qoff: "offline_since t (q\<lparr>wm_last_retry_ms := n\<rparr>, l)" for n
    using en by (simp add: offline_since_def)
  have fall: "raise_fallback d st n (?p, k) = (q\<lparr>wm_last_retry_ms := n\<rparr>, l)" for n
    using st en raised by (simp add: raise_fallback_def)
  have dn: "wm_access_point_active p \<or> wm_disconnected_at_ms p = t" "\<not> wm_connected p" "\<not> wm_disable_ap_pending p"
    using off by (auto simp: offline_since_def s)
  show ?thesis
    using request_connect_offline [OF quiet \<open>0 < t\<close> retry] off' qoff raised dn \<open>0 < t\<close> creds
    unfolding recovery_pass_def r Let_def fst_conv snd_conv
    by (simp add: fall kApFallbackMs_def s) (auto simp: offline_since_def)
qed

subsection \<open>Properties\<close>

text \<open>
  C32. The fallback: with stored credentials, a driver whose mode changes succeed and a station
  that stays off line since \<open>t\<close>, the SoftAP is up after \<open>n\<close> passes of the recovery task
  exactly when one of them started two minutes or more after \<open>t\<close>, whatever disconnect events
  arrive in between; repeated failed attempts neither hurry nor postpone it.
\<close>

theorem fallback_after_two_minutes:
  assumes "radio_works d mode" and "no_connection d" and "have_credentials st" and "0 < t"
    and "\<not> wm_connected p" and "\<not> wm_access_point_active p" and "\<not> wm_disable_ap_pending p"
    and "wm_disconnected_at_ms p = t"
  shows "wm_access_point_active (fst ((recovery_pass d st ^^ n) (p, k))) \<longleftrightarrow>
    (\<exists>i<n. t + 120000 \<le> now_ms d (snd ((recovery_pass d st ^^ i) (p, k))))"
proof -
  let ?run = "\<lambda>n. (recovery_pass d st ^^ n) (p, k)"
  have off: "offline_since t (?run n)" for n
  proof (induction n)
    case 0
    then show ?case using assms(5-8) by (simp add: offline_since_def)
  next
    case (Suc n)
    then show ?case using recovery_pass_offline [OF assms(1,2,4,3) Suc] by simp
  qed
  show ?thesis
  proof (induction n)
    case 0
    then show ?case using assms(6) by simp
  next
    case (Suc n)
    have "wm_access_point_active (fst (?run (Suc n))) \<longleftrightarrow>
        wm_access_point_active (fst (?run n)) \<or> t + 120000 \<le> now_ms d (snd (?run n))"
      using recovery_pass_offline [OF assms(1,2,4,3) off [of n]] by simp
    then show ?case using Suc by (auto simp: less_Suc_eq)
  qed
qed

text \<open>
  Back on line: when the station gets an address while the SoftAP is up and no further event
  arrives, the next pass of the recovery task, on a driver whose mode changes succeed, leaves
  the radio in station mode, the SoftAP down and no teardown pending.
\<close>

theorem reconnect_takes_hotspot_down:
  assumes "radio_works d mode" and "\<forall>k. drv_events d k = []" and "wm_access_point_active p"
    and "recovery_pass d st (handle_event now GotIp p, k) = (q, l)"
  shows "\<not> wm_access_point_active q \<and> \<not> wm_disable_ap_pending q \<and> mode l = ModeSta"
proof -
  have quiet [simp]: "deliver d k p = p" for k p using assms(2) by (simp add: deliver_def)
  obtain p1 k1 where r: "refresh_ap_info d (handle_event now GotIp p, k) = (p1, k1)" by (rule prod.exhaust)
  have p1: "wm_disable_ap_pending p1"
    using r assms(3) by (auto simp: refresh_ap_info_def handle_event_def Let_def split: if_splits prod.splits option.splits)
  have pend: "wm_disable_ap_pending (fst (request_connect d s)) = wm_disable_ap_pending (fst s)" for s
    by (simp add: request_connect_def on_radio_def Let_def split_beta)
  have keep: "wm_disable_ap_pending (fst (snd (disable_access_point d s))) = wm_disable_ap_pending (fst s)"
    if "fst (disable_access_point d s) = ESP_OK" for s
    using that by (auto simp: disable_access_point_def radio_idle_def log_only_def on_radio_def set_fields_def
        set_wifi_mac_from_efuse_def connecting_def pend return_on_error_def split_beta split: if_splits)
  show ?thesis
    using assms(4) p1 disable_access_point_works [OF assms(1), of "(p1\<lparr>wm_disable_ap_pending := False\<rparr>, k1)"]
      keep [of "(p1\<lparr>wm_disable_ap_pending := False\<rparr>, k1)"]
    by (auto simp: recovery_pass_def r Let_def split: prod.splits if_splits)
qed

text \<open>
  C11. The SoftAP is never open: a requirement on the driver that survives every call, and the
  configuration of the SoftAP whenever that asks for WPA2 with a password of 8 to 63
  characters, holds in every state the tasks can reach, whatever is stored as the password.
  And the fallback clock runs only while the station is down.
\<close>

theorem hotspot_always_secured:
  assumes "rtranclp (wifi_step d ops) (wifi_init, k0) (p, k)" and "driver_keeps d safe" and "safe k0"
  shows "safe k \<and> (wm_connected p \<longrightarrow> wm_disconnected_at_ms p = 0)"
proof -
  have "wifi_inv d safe (wifi_init, k0)" using assms(3) by (simp add: wifi_inv_def timer_ok_def wifi_init_def)
  then have "wifi_inv d safe (p, k)" using wifi_tasks.reachable_inv [OF assms(1)] by blast
  then show ?thesis using assms(2) by (simp add: wifi_inv_def timer_ok_def)
qed

text \<open>
  The credentials reach the driver unchanged when the network name has at most 31
  characters and the password at most 63, and only then: the last character of a name of the
  full 32 bytes that 802.11 allows is cut off.
\<close>

theorem station_config_faithful:
  assumes "CHR 0x00 \<notin> set (wc_ssid c)" and "CHR 0x00 \<notin> set (wc_password c)"
  shows "(cf_ssid (station_config c) = wc_ssid c \<longleftrightarrow> length (wc_ssid c) \<le> 31) \<and>
    (cf_password (station_config c) = wc_password c \<longleftrightarrow> length (wc_password c) \<le> 63)"
proof -
  have "strlcpy s n = s \<longleftrightarrow> length s \<le> n - 1" if "CHR 0x00 \<notin> set s" for s n
    using that by (simp add: strlcpy_def c_str_id)
  then show ?thesis using assms by (simp add: station_config_def)
qed

text \<open>What the merged list says about the records seen so far.\<close>

definition strongest_in :: "ap_record list \<Rightarrow> wifi_network \<Rightarrow> bool" where
  "strongest_in rs n \<longleftrightarrow> (\<forall>r \<in> set rs. c_str (ar_ssid r) = wn_ssid n \<longrightarrow> ar_rssi r \<le> wn_rssi n) \<and>
     (\<exists>r \<in> set rs. c_str (ar_ssid r) = wn_ssid n \<and> ar_rssi r = wn_rssi n \<and> (wn_secured n \<longleftrightarrow> ar_auth r \<noteq> AuthOpen))"

definition merged :: "ap_record list \<Rightarrow> wifi_network list \<Rightarrow> bool" where
  "merged rs ns \<longleftrightarrow> distinct (map wn_ssid ns) \<and>
     set (map wn_ssid ns) = (\<lambda>r. c_str (ar_ssid r)) ` set rs - {[]} \<and> (\<forall>n \<in> set ns. strongest_in rs n)"

lemma strongest_in_other:
  "strongest_in rs n \<Longrightarrow> c_str (ar_ssid r) \<noteq> wn_ssid n \<or> ar_rssi r \<le> wn_rssi n \<Longrightarrow> strongest_in (rs @ [r]) n"
  by (auto simp: strongest_in_def)

lemma merge_network_merged:
  assumes "merged rs ns" shows "merged (rs @ [r]) (merge_network ns r)"
proof -
  let ?s = "c_str (ar_ssid r)"
  have old: "distinct (map wn_ssid ns)" "set (map wn_ssid ns) = (\<lambda>r. c_str (ar_ssid r)) ` set rs - {[]}"
    "\<And>n. n \<in> set ns \<Longrightarrow> strongest_in rs n" "\<And>n. n \<in> set ns \<Longrightarrow> wn_ssid n \<noteq> []"
    using assms by (auto simp: merged_def)
  consider "?s = []" | "?s \<noteq> []" "?s \<notin> set (map wn_ssid ns)" | "?s \<noteq> []" "?s \<in> set (map wn_ssid ns)" by blast
  then show ?thesis
  proof cases
    case 1
    then have "strongest_in (rs @ [r]) n" if "n \<in> set ns" for n
      using strongest_in_other [OF old(3) [OF that], of r] old(4) [OF that] by auto
    then show ?thesis using 1 old(1,2) by (auto simp: merged_def merge_network_def)
  next
    case 2
    have "c_str (ar_ssid q) \<noteq> ?s" if "q \<in> set rs" for q
      using 2 old(2) imageI [OF that, of "\<lambda>r. c_str (ar_ssid r)"] by auto
    then have "strongest_in (rs @ [r]) \<lparr>wn_ssid = ?s, wn_rssi = ar_rssi r, wn_secured = (ar_auth r \<noteq> AuthOpen)\<rparr>"
      by (auto simp: strongest_in_def)
    moreover have "strongest_in (rs @ [r]) n" if "n \<in> set ns" for n
      using strongest_in_other [OF old(3) [OF that], of r] 2 that by force
    ultimately show ?thesis using 2 old(1,2) by (auto simp: merged_def merge_network_def Let_def)
  next
    case 3
    let ?u = "\<lambda>n. if wn_ssid n = ?s \<and> wn_rssi n < ar_rssi r
        then n\<lparr>wn_rssi := ar_rssi r, wn_secured := (ar_auth r \<noteq> AuthOpen)\<rparr> else n"
    have m: "merge_network ns r = map ?u ns" using 3 by (simp add: merge_network_def Let_def)
    have names: "map wn_ssid (map ?u ns) = map wn_ssid ns" by simp
    have one: "strongest_in (rs @ [r]) (?u n)" if "n \<in> set ns" for n
    proof (cases "wn_ssid n = ?s \<and> wn_rssi n < ar_rssi r")
      case True
      then show ?thesis using old(3) [OF that] by (fastforce simp: strongest_in_def)
    next
      case False
      then show ?thesis using strongest_in_other [OF old(3) [OF that], of r] by auto
    qed
    have set: "set (map wn_ssid ns) = (\<lambda>r. c_str (ar_ssid r)) ` set (rs @ [r]) - {[]}"
      using 3 old(2) by auto
    have "strongest_in (rs @ [r]) n" if "n \<in> ?u ` set ns" for n
      using that by (elim imageE) (simp only: one)
    then have "\<forall>n \<in> set (map ?u ns). strongest_in (rs @ [r]) n" unfolding set_map by blast
    then show ?thesis unfolding m merged_def names using old(1) set by blast
  qed
qed

lemma merge_networks_merged: "merged rs (foldl merge_network [] rs)"
  by (induction rs rule: rev_induct) (simp add: merged_def, simp add: merge_network_merged)

text \<open>
  A scan lists each named network once, strongest first, with the best signal strength among
  its records and the security of a record of that strength.
\<close>

theorem scan_lists_strongest:
  assumes "drv_scan_start d k = (ESP_OK, k1)" and "drv_scan_count d k1 = (ESP_OK, n, k2)" and "n \<noteq> 0"
    and "drv_scan_records d (min (unat n) 24) k2 = (ESP_OK, rs, k3)"
    and "scan_networks d k = (ns, k')"
  shows "distinct (map wn_ssid ns) \<and> sorted (map (\<lambda>x. - wn_rssi x) ns) \<and>
    set (map wn_ssid ns) = (\<lambda>r. c_str (ar_ssid r)) ` set rs - {[]} \<and>
    (\<forall>x \<in> set ns. wn_rssi x = Max (ar_rssi ` {r \<in> set rs. c_str (ar_ssid r) = wn_ssid x}) \<and>
       (\<exists>r \<in> set rs. c_str (ar_ssid r) = wn_ssid x \<and> ar_rssi r = wn_rssi x \<and> (wn_secured x \<longleftrightarrow> ar_auth r \<noteq> AuthOpen)))"
proof -
  let ?m = "foldl merge_network [] rs"
  have ns: "ns = sort_key (\<lambda>x. - wn_rssi x) ?m" using assms by (simp add: scan_networks_def Let_def)
  have m: "merged rs ?m" by (rule merge_networks_merged)
  have "distinct (map wn_ssid ns)"
    using m by (simp add: ns merged_def distinct_map)
  moreover have "wn_rssi x = Max (ar_rssi ` {r \<in> set rs. c_str (ar_ssid r) = wn_ssid x})" if "x \<in> set ns" for x
  proof -
    have x: "x \<in> set ?m" using that by (simp add: ns)
    obtain r where "r \<in> set rs" "c_str (ar_ssid r) = wn_ssid x" "ar_rssi r = wn_rssi x"
      using m x unfolding merged_def strongest_in_def by blast
    then have "wn_rssi x \<in> ar_rssi ` {r \<in> set rs. c_str (ar_ssid r) = wn_ssid x}"
      by (intro image_eqI [of _ _ r]) simp_all
    then show ?thesis using m x by (intro Max_eqI [symmetric]) (auto simp: merged_def strongest_in_def)
  qed
  moreover have "set (map wn_ssid ns) = (\<lambda>r. c_str (ar_ssid r)) ` set rs - {[]}"
    using m by (simp add: ns merged_def)
  moreover have "\<exists>r \<in> set rs. c_str (ar_ssid r) = wn_ssid x \<and> ar_rssi r = wn_rssi x \<and> (wn_secured x \<longleftrightarrow> ar_auth r \<noteq> AuthOpen)"
    if "x \<in> set ns" for x
    using m that by (simp add: ns merged_def strongest_in_def)
  ultimately show ?thesis by (simp add: ns)
qed

subsection \<open>A driver in memory, for concrete runs\<close>

text \<open>
  Every call succeeds; the state is the clock in microseconds, which each start of the radio
  advances by a minute, the mode, and the SoftAP configurations given so far.
\<close>

definition ram_driver :: "(int \<times> wifi_mode \<times> wifi_conf list) wifi_driver" where
  "ram_driver = \<lparr>drv_now = fst, drv_events = (\<lambda>_. []), drv_create_group = Pair True, drv_netif_init = Pair ESP_OK,
     drv_event_loop = Pair ESP_OK, drv_create_netif = (\<lambda>_. Pair True), drv_hosted_init = Pair ESP_OK,
     drv_hosted_connect = Pair ESP_OK, drv_wifi_init = Pair ESP_OK, drv_storage_ram = Pair ESP_OK,
     drv_register = (\<lambda>_. Pair ESP_OK), drv_create_task = Pair True,
     drv_get_mode = (\<lambda>(t, m, cs). (ESP_OK, m, (t, m, cs))),
     drv_set_mode = (\<lambda>m (t, _, cs). (ESP_OK, (t, m, cs))),
     drv_set_config = (\<lambda>i c (t, m, cs). (ESP_OK, (t, m, if i = IfAp then cs @ [c] else cs))),
     drv_efuse_mac = [0, 1, 2, 3, 4, 5], drv_set_mac = (\<lambda>_ _. Pair ESP_OK),
     drv_start = (\<lambda>(t, m, cs). (ESP_OK, (t + 60000000, m, cs))), drv_stop = Pair ESP_OK, drv_ps_none = Pair ESP_OK,
     drv_connect = Pair ESP_OK, drv_disconnect = Pair ESP_OK, drv_sta_info = Pair None, drv_ip = (\<lambda>_ _. None),
     drv_scan_start = Pair ESP_OK, drv_scan_count = (\<lambda>k. (ESP_OK, 3, k)),
     drv_scan_records = (\<lambda>_ k. (ESP_OK,
        [\<lparr>ar_ssid = ''home'', ar_rssi = -70, ar_auth = AuthOpen\<rparr>,
         \<lparr>ar_ssid = ''cafe'', ar_rssi = -60, ar_auth = AuthOpen\<rparr>,
         \<lparr>ar_ssid = ''home'', ar_rssi = -50, ar_auth = AuthWpa2Psk\<rparr>], k))\<rparr>"

lemma ram_driver_works: "radio_works ram_driver (\<lambda>k. fst (snd k))"
  by (simp add: radio_works_def ram_driver_def split_beta)

lemma ram_driver_quiet: "no_connection ram_driver" "drv_events ram_driver k = []"
  by (simp_all add: no_connection_def ram_driver_def)

definition ram_home :: "(string \<Rightarrow> nvs_value option) storage" where
  "ram_home = \<lparr>st_nvs = [''wifi_ssid'' \<mapsto> NvStr ''home''], st_open = True\<rparr>"

lemma ram_home_credentials: "have_credentials (Some (ram_nvs, ram_home))"
  by (simp add: have_credentials_def load_wifi_def get_string_def ram_nvs_def ram_home_def)

lemma fallback_after_two_minutes_witness:
  "wm_access_point_active (fst (recovery_pass ram_driver (Some (ram_nvs, ram_home))
     (wifi_init\<lparr>wm_disconnected_at_ms := 5000\<rparr>, 125000000, ModeSta, [])))"
  using fallback_after_two_minutes [OF ram_driver_works ram_driver_quiet(1) ram_home_credentials,
      of 5000 "wifi_init\<lparr>wm_disconnected_at_ms := 5000\<rparr>" 1 "(125000000, ModeSta, [])"]
  by (simp add: wifi_init_def now_ms_def ram_driver_def)

lemma reconnect_takes_hotspot_down_witness:
  "fst (snd (snd (recovery_pass ram_driver (None :: nat settings) (handle_event 9 GotIp (wifi_init\<lparr>wm_access_point_active := True\<rparr>),
     (0, ModeApSta, []))))) = ModeSta"
proof -
  obtain q l where r: "recovery_pass ram_driver (None :: nat settings) (handle_event 9 GotIp (wifi_init\<lparr>wm_access_point_active := True\<rparr>),
     (0, ModeApSta, [])) = (q, l)" by (rule prod.exhaust)
  from reconnect_takes_hotspot_down [OF ram_driver_works _ _ r] ram_driver_quiet(2)
  have "fst (snd l) = ModeSta" by simp
  then show ?thesis using r by simp
qed

lemma hotspot_always_secured_witness:
  "list_all secured (snd (snd (snd (snd (wifi_start ram_driver ram_nvs \<lparr>st_nvs = Map.empty, st_open = True\<rparr>
     (wifi_init, (0, ModeNull, []))))))) "
proof -
  let ?safe = "\<lambda>k :: int \<times> wifi_mode \<times> wifi_conf list. list_all secured (snd (snd k))"
  obtain e p k where r: "wifi_start ram_driver ram_nvs \<lparr>st_nvs = Map.empty, st_open = True\<rparr>
     (wifi_init, (0, ModeNull, [])) = (e, p, k)" by (rule prod_cases3)
  have keeps: "driver_keeps ram_driver ?safe"
    by (simp add: driver_keeps_def call_keeps_def ram_driver_def)
  have "rtranclp (wifi_step ram_driver ram_nvs) (wifi_init, (0, ModeNull, [])) (p, k)"
    by (rule r_into_rtranclp, rule wifi_step.Start, rule r)
  from hotspot_always_secured [OF this keeps] r show ?thesis by simp
qed

lemma station_config_faithful_witness:
  "cf_ssid (station_config \<lparr>wc_ssid = replicate 32 (CHR ''a''), wc_password = ''secret99'', wc_valid = True\<rparr>)
    \<noteq> replicate 32 (CHR ''a'')"
  using station_config_faithful [of "\<lparr>wc_ssid = replicate 32 (CHR ''a''), wc_password = ''secret99'', wc_valid = True\<rparr>"]
  by simp

lemma scan_lists_strongest_witness:
  "distinct (map wn_ssid (fst (scan_networks ram_driver (0, ModeSta, [])))) \<and>
   set (map wn_ssid (fst (scan_networks ram_driver (0, ModeSta, [])))) = {''home'', ''cafe''}"
proof -
  let ?k = "(0, ModeSta, []) :: int \<times> wifi_mode \<times> wifi_conf list"
  obtain ns k' where r: "scan_networks ram_driver ?k = (ns, k')" by (rule prod.exhaust)
  have d: "drv_scan_start ram_driver ?k = (ESP_OK, ?k)" "drv_scan_count ram_driver ?k = (ESP_OK, 3, ?k)"
    by (simp_all add: ram_driver_def)
  obtain rs where rs: "drv_scan_records ram_driver n ?k = (ESP_OK, rs, ?k)"
    "(\<lambda>r. c_str (ar_ssid r)) ` set rs = {''home'', ''cafe''}" for n
    by (simp add: ram_driver_def) auto
  from scan_lists_strongest [OF d _ rs(1) r] rs(2) r show ?thesis by auto
qed

end
