(* ===== verification/SdManager.thy ===== *)
theory SdManager
  imports CText "HOL-Library.Sublist"
begin

text \<open>
  The SD card component of \<open>main/sd_manager.cpp\<close>: mounting, the path guards, the directory
  listing with its growing buffer, and the recursive preview and deletion.

  The file system is a parameter: a record of the POSIX calls the class makes, on a card state
  of any type. \<open>vfs_laws\<close> states what the deletion relies on, in terms of the components of a
  path, which is how the file system reads it (repeated slashes and \<open>.\<close> do not matter, and
  names are compared up to \<open>cf\<close>, as FAT compares them up to case).
\<close>

subsection \<open>The file system\<close>

datatype d_type = DtDir | DtReg | DtUnknown

text \<open>
  \<open>fs_stat\<close> gives whether the entry is a directory and its size; \<open>fs_readdir\<close> the entries between
  \<open>opendir\<close> and \<open>closedir\<close>; the failures are errno values.
\<close>

record 'f vfs =
  fs_stat :: "string \<Rightarrow> 'f \<Rightarrow> int + (bool \<times> u64)"
  fs_readdir :: "string \<Rightarrow> 'f \<Rightarrow> int + (string \<times> d_type) list"
  fs_unlink :: "string \<Rightarrow> 'f \<Rightarrow> int option \<times> 'f"
  fs_rmdir :: "string \<Rightarrow> 'f \<Rightarrow> int option \<times> 'f"
  fs_mkdir :: "string \<Rightarrow> 'f \<Rightarrow> int option \<times> 'f"
  fs_rename :: "string \<Rightarrow> string \<Rightarrow> 'f \<Rightarrow> int option \<times> 'f"
  fs_info :: "'f \<Rightarrow> (u64 \<times> u64) option"
  fs_bus_init :: "'f \<Rightarrow> esp_err \<times> 'f"
  fs_bus_free :: "'f \<Rightarrow> 'f"
  fs_mount :: "'f \<Rightarrow> esp_err \<times> 'f"
  fs_unmount :: "'f \<Rightarrow> 'f"

definition slash :: char where "slash = CHR ''/''"

fun split_on :: "char \<Rightarrow> string \<Rightarrow> string list" where
  "split_on c [] = [[]]"
| "split_on c (x # xs) =
     (if x = c then [] # split_on c xs
      else case split_on c xs of w # ws \<Rightarrow> (x # w) # ws | [] \<Rightarrow> [[x]])"

definition components :: "string \<Rightarrow> string list" where
  "components p = filter (\<lambda>w. w \<noteq> [] \<and> w \<noteq> ''.'') (split_on slash p)"

definition entry :: "(string \<Rightarrow> string) \<Rightarrow> string \<Rightarrow> string list" where
  "entry cf p = map cf (components p)"

definition vfs_laws :: "(string \<Rightarrow> string) \<Rightarrow> 'f vfs \<Rightarrow> bool" where
  "vfs_laws cf v \<longleftrightarrow>
     (\<forall>p q f. ''..'' \<notin> set (components p) \<and> ''..'' \<notin> set (components q) \<and> entry cf p \<noteq> entry cf q \<longrightarrow>
        fs_stat v q (snd (fs_unlink v p f)) = fs_stat v q f \<and>
        fs_stat v q (snd (fs_rmdir v p f)) = fs_stat v q f) \<and>
     (\<forall>p q f. ''..'' \<notin> set (components p) \<and> ''..'' \<notin> set (components q) \<and> entry cf p = entry cf q \<longrightarrow>
        fs_stat v p f = fs_stat v q f) \<and>
     (\<forall>p f f'. fs_unlink v p f = (None, f') \<or> fs_rmdir v p f = (None, f') \<longrightarrow> (\<exists>e. fs_stat v p f' = Inl e)) \<and>
     (\<forall>p f es n d. fs_readdir v p f = Inr es \<and> (n, d) \<in> set es \<longrightarrow> n \<noteq> [] \<and> slash \<notin> set n)"

lemma split_on_nonempty [simp]: "split_on c xs \<noteq> []"
  by (induction xs) (auto split: list.splits)

lemma split_on_append: "split_on c (xs @ c # ys) = split_on c xs @ split_on c ys"
  by (induction xs) (auto split: list.splits)

lemma split_on_no: "c \<notin> set xs \<Longrightarrow> split_on c xs = [xs]"
  by (induction xs) auto

lemma components_child:
  "components (p @ slash # name) = components p @ components name"
  by (simp add: components_def split_on_append)

lemma components_name: "slash \<notin> set name \<Longrightarrow> name \<noteq> [] \<Longrightarrow> name \<noteq> ''.'' \<Longrightarrow> components name = [name]"
  by (simp add: components_def split_on_no)

subsection \<open>Paths\<close>

definition kMountPoint :: string where "kMountPoint = ''/sdcard''"

definition contains_dotdot :: "string \<Rightarrow> bool" where
  "contains_dotdot p \<longleftrightarrow> list_ex (\<lambda>s. starts_with s ''..'') (suffixes p)"

text \<open>A path as the C++ code has it: a pointer that may be null, to a C string.\<close>

definition safe_path :: "string option \<Rightarrow> string option" where
  "safe_path path =
     (case path of
        None \<Rightarrow> None
      | Some p \<Rightarrow>
          if p = [] then None
          else if take (length kMountPoint) p \<noteq> kMountPoint then None
          else if length p \<noteq> length kMountPoint \<and> p ! length kMountPoint \<noteq> slash then None
          else if contains_dotdot p then None
          else Some p)"

datatype delete_guard = GuardAllowed | GuardBadPath | GuardMountRoot | GuardManagedDir

definition check_deletable :: "string option \<Rightarrow> delete_guard" where
  "check_deletable path =
     (case safe_path path of
        None \<Rightarrow> GuardBadPath
      | Some p \<Rightarrow>
          let norm = take 259 p;
              norm = (if length kMountPoint < length norm \<and> last norm = slash then butlast norm else norm)
          in if norm = kMountPoint then GuardMountRoot
             else if norm = kMountPoint @ ''/logs'' then GuardManagedDir
             else if norm = kMountPoint @ ''/rawdata'' then GuardManagedDir
             else GuardAllowed)"

subsection \<open>Mounting\<close>

record 'f sd_manager =
  sd_fs :: 'f
  sd_mounted :: bool
  sd_bus_initialized :: bool

record disk_stats_info =
  ds_total_bytes :: u64
  ds_used_bytes :: u64
  ds_valid :: bool

definition sd_mount :: "'f vfs \<Rightarrow> 'f sd_manager \<Rightarrow> esp_err \<times> 'f sd_manager" where
  "sd_mount v s =
     (if sd_mounted s then (ESP_OK, s)
      else
        let (ret, f) = fs_bus_init v (sd_fs s); s = s\<lparr>sd_fs := f\<rparr> in
        if ret \<noteq> ESP_OK then (ret, s)
        else
          let s = s\<lparr>sd_bus_initialized := True\<rparr>; (ret, f) = fs_mount v (sd_fs s); s = s\<lparr>sd_fs := f\<rparr> in
          if ret \<noteq> ESP_OK
          then (ret, s\<lparr>sd_fs := fs_bus_free v (sd_fs s), sd_bus_initialized := False\<rparr>)
          else (ESP_OK, s\<lparr>sd_mounted := True\<rparr>))"

definition sd_unmount :: "'f vfs \<Rightarrow> 'f sd_manager \<Rightarrow> 'f sd_manager" where
  "sd_unmount v s =
     (if \<not> sd_mounted s then s
      else
        let s = s\<lparr>sd_fs := fs_unmount v (sd_fs s), sd_mounted := False\<rparr>
        in if sd_bus_initialized s
           then s\<lparr>sd_fs := fs_bus_free v (sd_fs s), sd_bus_initialized := False\<rparr> else s)"

definition disk_stats :: "'f vfs \<Rightarrow> 'f sd_manager \<Rightarrow> disk_stats_info" where
  "disk_stats v s =
     (let none = \<lparr>ds_total_bytes = 0, ds_used_bytes = 0, ds_valid = False\<rparr> in
      if \<not> sd_mounted s then none
      else case fs_info v (sd_fs s) of
             None \<Rightarrow> none
           | Some (total_bytes, free_bytes) \<Rightarrow>
               \<lparr>ds_total_bytes = total_bytes, ds_used_bytes = total_bytes - free_bytes, ds_valid = True\<rparr>)"

subsection \<open>Single entries\<close>

text \<open>The operations on the card give their result and the new card state.\<close>

definition delete_entry :: "'f vfs \<Rightarrow> bool \<Rightarrow> string option \<Rightarrow> 'f \<Rightarrow> bool \<times> 'f" where
  "delete_entry v mounted path f =
     (case path of
        None \<Rightarrow> (False, f)
      | Some p \<Rightarrow>
          if \<not> mounted then (False, f)
          else if check_deletable path \<noteq> GuardAllowed then (False, f)
          else (case fs_stat v p f of
                  Inl _ \<Rightarrow> (False, f)
                | Inr (is_dir, _) \<Rightarrow>
                    let (r, f) = (if is_dir then fs_rmdir v p f else fs_unlink v p f) in (r = None, f)))"

definition rename_entry :: "'f vfs \<Rightarrow> bool \<Rightarrow> string option \<Rightarrow> string option \<Rightarrow> 'f \<Rightarrow> bool \<times> 'f" where
  "rename_entry v mounted path_from path_to f =
     (case (path_from, path_to) of
        (Some a, Some b) \<Rightarrow> if \<not> mounted then (False, f) else let (r, f) = fs_rename v a b f in (r = None, f)
      | _ \<Rightarrow> (False, f))"

definition ensure_dir :: "'f vfs \<Rightarrow> string \<Rightarrow> 'f \<Rightarrow> 'f" where
  "ensure_dir v name f =
     (let path = kMountPoint @ ''/'' @ name in
      case fs_stat v path f of Inr _ \<Rightarrow> f | Inl _ \<Rightarrow> snd (fs_mkdir v path f))"

definition ensure_dirs :: "'f vfs \<Rightarrow> bool \<Rightarrow> 'f \<Rightarrow> 'f" where
  "ensure_dirs v mounted f =
     (if \<not> mounted then f else ensure_dir v ''rawdata'' (ensure_dir v ''logs'' f))"

definition is_deletable :: "'f vfs \<Rightarrow> bool \<Rightarrow> string option \<Rightarrow> 'f \<Rightarrow> bool" where
  "is_deletable v mounted path f =
     (if \<not> mounted then False
      else if check_deletable path \<noteq> GuardAllowed then False
      else case path of None \<Rightarrow> False | Some p \<Rightarrow> (case fs_stat v p f of Inl _ \<Rightarrow> False | Inr _ \<Rightarrow> True))"

subsection \<open>Listing\<close>

text \<open>
  The text buffer: the \<open>len\<close> bytes in use and the allocated size, which always keeps a byte for
  the terminator. \<open>realloc\<close> may fail: \<open>alloc\<close> says whether a block of a size can be had.
\<close>

record text_buffer =
  tb_text :: string
  tb_cap :: nat

definition buf_append :: "(nat \<Rightarrow> bool) \<Rightarrow> string \<Rightarrow> text_buffer \<Rightarrow> text_buffer option" where
  "buf_append alloc s b =
     (if tb_cap b < length (tb_text b) + length s + 1 then
        let new_cap = tb_cap b + length s + 256 in
        if \<not> alloc new_cap then None
        else Some \<lparr>tb_text = tb_text b @ s, tb_cap = new_cap\<rparr>
      else Some (b\<lparr>tb_text := tb_text b @ s\<rparr>))"

definition json_escape :: "char \<Rightarrow> string" where
  "json_escape c =
     (if c = CHR 0x22 then [CHR 0x5C, CHR 0x22]
      else if c = CHR 0x5C then [CHR 0x5C, CHR 0x5C]
      else if c = CHR 0x0A then [CHR 0x5C, CHR ''n'']
      else if c = CHR 0x0D then [CHR 0x5C, CHR ''r'']
      else if c = CHR 0x09 then [CHR 0x5C, CHR ''t'']
      else [c])"

fun buf_append_json_str :: "(nat \<Rightarrow> bool) \<Rightarrow> string \<Rightarrow> text_buffer \<Rightarrow> text_buffer option" where
  "buf_append_json_str alloc [] b = Some b"
| "buf_append_json_str alloc (c # cs) b =
     Option.bind (buf_append alloc (json_escape c) b) (buf_append_json_str alloc cs)"

fun buf_append_all :: "(nat \<Rightarrow> bool) \<Rightarrow> string list \<Rightarrow> text_buffer \<Rightarrow> text_buffer option" where
  "buf_append_all alloc [] b = Some b"
| "buf_append_all alloc (s # ss) b = Option.bind (buf_append alloc s b) (buf_append_all alloc ss)"

text \<open>Whether an entry is a directory, and the size to show.\<close>

definition dir_entry_info :: "'f vfs \<Rightarrow> string \<Rightarrow> d_type \<Rightarrow> 'f \<Rightarrow> bool \<times> int" where
  "dir_entry_info v fp t f =
     (let st = fs_stat v fp f in
      case t of
        DtDir \<Rightarrow> (True, 0)
      | DtReg \<Rightarrow> (False, case st of Inr (_, n) \<Rightarrow> sint n | Inl _ \<Rightarrow> 0)
      | DtUnknown \<Rightarrow>
          (case st of Inr (is_dir, n) \<Rightarrow> (is_dir, if is_dir then 0 else sint n) | Inl _ \<Rightarrow> (False, 0)))"

definition list_dir_entry ::
    "(nat \<Rightarrow> bool) \<Rightarrow> bool \<Rightarrow> string \<Rightarrow> string \<Rightarrow> bool \<times> int \<Rightarrow> text_buffer \<Rightarrow> text_buffer option" where
  "list_dir_entry alloc first name fp info b =
     Option.bind (if first then Some b else buf_append alloc '','' b) (\<lambda>b.
     Option.bind (buf_append alloc (''{'' @ [CHR 0x22] @ ''name'' @ [CHR 0x22, CHR '':'', CHR 0x22]) b) (\<lambda>b.
     Option.bind (buf_append_json_str alloc name b) (\<lambda>b.
     Option.bind (buf_append alloc ([CHR 0x22] @ '','' @ [CHR 0x22] @ ''path'' @ [CHR 0x22, CHR '':'', CHR 0x22]) b) (\<lambda>b.
     Option.bind (buf_append_json_str alloc fp b)
       (buf_append_all alloc
         [[CHR 0x22] @ '','' @ [CHR 0x22] @ ''is_dir'' @ [CHR 0x22] @ '':'',
          if fst info then ''true'' else ''false'',
          '','' @ [CHR 0x22] @ ''size'' @ [CHR 0x22] @ '':'', dec_int (snd info), ''}''])))))"

fun list_dir_entries ::
    "'f vfs \<Rightarrow> (nat \<Rightarrow> bool) \<Rightarrow> string \<Rightarrow> 'f \<Rightarrow> bool \<Rightarrow> (string \<times> d_type) list \<Rightarrow> text_buffer \<Rightarrow> text_buffer option" where
  "list_dir_entries v alloc path f first [] b = Some b"
| "list_dir_entries v alloc path f first ((name, t) # es) b =
     (if name = ''.'' \<or> name = ''..'' then list_dir_entries v alloc path f first es b
      else
        let fp = take 319 (path @ ''/'' @ name) in
        Option.bind (list_dir_entry alloc first name fp (dir_entry_info v fp t f) b)
          (list_dir_entries v alloc path f False es))"

definition list_dir :: "'f vfs \<Rightarrow> (nat \<Rightarrow> bool) \<Rightarrow> bool \<Rightarrow> string option \<Rightarrow> 'f \<Rightarrow> string option" where
  "list_dir v alloc mounted path f =
     (case path of
        None \<Rightarrow> None
      | Some p \<Rightarrow>
          if \<not> mounted then None
          else (case fs_readdir v p f of
                  Inl _ \<Rightarrow> None
                | Inr es \<Rightarrow>
                    if \<not> alloc 512 then None
                    else map_option tb_text
                      (Option.bind (buf_append alloc ''['' \<lparr>tb_text = [], tb_cap = 512\<rparr>) (\<lambda>b.
                       Option.bind (list_dir_entries v alloc p f True es b) (buf_append alloc '']'')))))"

subsection \<open>Bulk delete\<close>

record delete_result =
  dr_requested :: u32
  dr_deleted :: u32
  dr_failed :: u32
  dr_skipped :: u32
  dr_first_error :: string

definition delete_result_init :: delete_result where
  "delete_result_init = \<lparr>dr_requested = 0, dr_deleted = 0, dr_failed = 0, dr_skipped = 0, dr_first_error = []\<rparr>"

record delete_preview =
  dp_ok :: bool
  dp_files :: u32
  dp_dirs :: u32
  dp_bytes :: u64
  dp_truncated :: bool

definition delete_preview_init :: delete_preview where
  "delete_preview_init = \<lparr>dp_ok = False, dp_files = 0, dp_dirs = 0, dp_bytes = 0, dp_truncated = False\<rparr>"

definition kPreviewWalkCap :: u32 where "kPreviewWalkCap = 4096"

definition note_fail :: "string \<Rightarrow> int \<Rightarrow> delete_result \<Rightarrow> delete_result" where
  "note_fail path errno res =
     (let res = res\<lparr>dr_failed := dr_failed res + 1\<rparr>
      in if dr_first_error res = []
         then res\<lparr>dr_first_error := take 95 (path @ '': errno '' @ dec_int errno)\<rparr> else res)"

text \<open>The names \<open>readdir\<close> gives, without \<open>.\<close> and \<open>..\<close>.\<close>

definition child_names :: "(string \<times> d_type) list \<Rightarrow> string list" where
  "child_names es = filter (\<lambda>n. n \<noteq> ''.'' \<and> n \<noteq> ''..'') (map fst es)"

text \<open>
  The recursion descends the directory tree; \<open>fuel\<close> bounds its depth, \<open>None\<close> is running out of
  it. (\<open>tree_ranked\<close> below says how much is enough.)
\<close>

fun preview_walk :: "nat \<Rightarrow> 'f vfs \<Rightarrow> 'f \<Rightarrow> string \<Rightarrow> delete_preview \<Rightarrow> delete_preview option"
  and preview_children :: "nat \<Rightarrow> 'f vfs \<Rightarrow> 'f \<Rightarrow> string \<Rightarrow> string list \<Rightarrow> delete_preview \<Rightarrow> delete_preview option" where
  "preview_walk 0 v f path pv = None"
| "preview_walk (Suc fuel) v f path pv =
     (if kPreviewWalkCap \<le> dp_files pv + dp_dirs pv then Some (pv\<lparr>dp_truncated := True\<rparr>)
      else case fs_stat v path f of
        Inl _ \<Rightarrow> Some pv
      | Inr (is_dir, n) \<Rightarrow>
          if is_dir then
            (case fs_readdir v path f of
               Inl _ \<Rightarrow> Some pv
             | Inr es \<Rightarrow> map_option (\<lambda>pv. pv\<lparr>dp_dirs := dp_dirs pv + 1\<rparr>)
                 (preview_children fuel v f path (child_names es) pv))
          else Some (pv\<lparr>dp_files := dp_files pv + 1, dp_bytes := dp_bytes pv + n\<rparr>))"
| "preview_children fuel v f path [] pv = Some pv"
| "preview_children fuel v f path (name # names) pv =
     (if kPreviewWalkCap \<le> dp_files pv + dp_dirs pv then Some (pv\<lparr>dp_truncated := True\<rparr>)
      else Option.bind (preview_walk fuel v f (path @ slash # name) pv)
             (preview_children fuel v f path names))"

definition preview_delete :: "nat \<Rightarrow> 'f vfs \<Rightarrow> bool \<Rightarrow> string \<Rightarrow> 'f \<Rightarrow> delete_preview option" where
  "preview_delete fuel v mounted path f =
     (if \<not> mounted then Some delete_preview_init
      else case fs_stat v path f of
        Inl _ \<Rightarrow> Some delete_preview_init
      | Inr (is_dir, _) \<Rightarrow>
          map_option (\<lambda>pv.
              (if is_dir \<and> check_deletable (Some path) = GuardManagedDir \<and> 0 < dp_dirs pv
               then pv\<lparr>dp_dirs := dp_dirs pv - 1\<rparr> else pv)\<lparr>dp_ok := True\<rparr>)
            (preview_walk fuel v f path delete_preview_init))"

fun preview_many :: "nat \<Rightarrow> 'f vfs \<Rightarrow> 'f \<Rightarrow> string option list \<Rightarrow> delete_preview \<Rightarrow> delete_preview option" where
  "preview_many fuel v f [] pv = Some pv"
| "preview_many fuel v f (path # paths) pv =
     (case path of
        None \<Rightarrow> preview_many fuel v f paths pv
      | Some p \<Rightarrow>
          if kPreviewWalkCap \<le> dp_files pv + dp_dirs pv then Some (pv\<lparr>dp_truncated := True\<rparr>)
          else Option.bind (preview_delete fuel v True p f) (\<lambda>one.
            if \<not> dp_ok one then preview_many fuel v f paths pv
            else
              let pv = pv\<lparr>dp_files := dp_files pv + dp_files one, dp_dirs := dp_dirs pv + dp_dirs one,
                          dp_bytes := dp_bytes pv + dp_bytes one\<rparr>
              in preview_many fuel v f paths (if dp_truncated one then pv\<lparr>dp_truncated := True\<rparr> else pv)))"

definition preview_delete_many ::
    "nat \<Rightarrow> 'f vfs \<Rightarrow> bool \<Rightarrow> string option list \<Rightarrow> 'f \<Rightarrow> delete_preview option" where
  "preview_delete_many fuel v mounted paths f =
     (if \<not> mounted then Some delete_preview_init
      else map_option (\<lambda>pv. pv\<lparr>dp_ok := True\<rparr>) (preview_many fuel v f paths delete_preview_init))"

text \<open>The result being filled in, the progress counter, and the card.\<close>

type_synonym 'f deleting = "delete_result \<times> u32 \<times> 'f"

definition remove_one :: "string \<Rightarrow> int option \<Rightarrow> delete_result \<Rightarrow> u32 \<Rightarrow> delete_result \<times> u32" where
  "remove_one path r res progress =
     (case r of
        None \<Rightarrow> (res\<lparr>dr_deleted := dr_deleted res + 1\<rparr>, progress + 1)
      | Some errno \<Rightarrow> (note_fail path errno res, progress))"

fun remove_tree :: "nat \<Rightarrow> 'f vfs \<Rightarrow> string \<Rightarrow> bool \<Rightarrow> 'f deleting \<Rightarrow> 'f deleting option"
  and remove_children :: "nat \<Rightarrow> 'f vfs \<Rightarrow> string \<Rightarrow> string list \<Rightarrow> 'f deleting \<Rightarrow> 'f deleting option" where
  "remove_tree 0 v path keep_shell s = None"
| "remove_tree (Suc fuel) v path keep_shell (res, progress, f) =
     (case fs_stat v path f of
        Inl errno \<Rightarrow> Some (note_fail path errno res, progress, f)
      | Inr (is_dir, _) \<Rightarrow>
          if is_dir then
            if safe_path (Some path) = None then Some (res\<lparr>dr_skipped := dr_skipped res + 1\<rparr>, progress, f)
            else (case fs_readdir v path f of
                Inl errno \<Rightarrow> Some (note_fail path errno res, progress, f)
              | Inr es \<Rightarrow>
                  Option.bind (remove_children fuel v path (child_names es) (res, progress, f)) (\<lambda>(res, progress, f).
                    if keep_shell then Some (res\<lparr>dr_skipped := dr_skipped res + 1\<rparr>, progress, f)
                    else
                      let (r, f) = fs_rmdir v path f; (res, progress) = remove_one path r res progress
                      in Some (res, progress, f)))
          else
            let (r, f) = fs_unlink v path f; (res, progress) = remove_one path r res progress
            in Some (res, progress, f))"
| "remove_children fuel v path [] s = Some s"
| "remove_children fuel v path (name # names) s =
     Option.bind (remove_tree fuel v (path @ slash # name) False s) (remove_children fuel v path names)"

definition delete_recursive ::
    "nat \<Rightarrow> 'f vfs \<Rightarrow> bool \<Rightarrow> string option \<Rightarrow> u32 \<times> 'f \<Rightarrow> 'f deleting option" where
  "delete_recursive fuel v mounted path s =
     (let res = delete_result_init\<lparr>dr_requested := 1\<rparr> in
      case path of
        None \<Rightarrow> Some (res\<lparr>dr_skipped := 1, dr_first_error := ''SD not mounted''\<rparr>, s)
      | Some p \<Rightarrow>
          if \<not> mounted then Some (res\<lparr>dr_skipped := 1, dr_first_error := ''SD not mounted''\<rparr>, s)
          else
            let g = check_deletable path in
            if g = GuardBadPath \<or> g = GuardMountRoot
            then Some (res\<lparr>dr_skipped := 1, dr_first_error := take 95 (''refused: '' @ p)\<rparr>, s)
            else remove_tree fuel v p (g = GuardManagedDir) (res, s))"

text \<open>The first path of a batch that rejects it.\<close>

definition refused :: "string option \<Rightarrow> bool" where
  "refused path \<longleftrightarrow> check_deletable path = GuardBadPath \<or> check_deletable path = GuardMountRoot"

fun remove_paths :: "nat \<Rightarrow> 'f vfs \<Rightarrow> string option list \<Rightarrow> 'f deleting \<Rightarrow> 'f deleting option" where
  "remove_paths fuel v [] s = Some s"
| "remove_paths fuel v (path # paths) s =
     Option.bind (remove_tree fuel v (case path of Some p \<Rightarrow> p | None \<Rightarrow> [])
         (check_deletable path = GuardManagedDir) s)
       (remove_paths fuel v paths)"

definition delete_paths ::
    "nat \<Rightarrow> 'f vfs \<Rightarrow> bool \<Rightarrow> string option list \<Rightarrow> u32 \<times> 'f \<Rightarrow> 'f deleting option" where
  "delete_paths fuel v mounted paths s =
     (let n = of_nat (length paths); res = delete_result_init\<lparr>dr_requested := n\<rparr> in
      if \<not> mounted then Some (res\<lparr>dr_skipped := n, dr_first_error := ''SD not mounted''\<rparr>, s)
      else case find refused paths of
        Some path \<Rightarrow>
          Some (res\<lparr>dr_skipped := n,
            dr_first_error := take 95 (''refused: '' @ (case path of Some p \<Rightarrow> p | None \<Rightarrow> ''(null)''))\<rparr>, s)
      | None \<Rightarrow> remove_paths fuel v paths (res, s))"

subsection \<open>What a deletion can touch\<close>

definition plain :: "string \<Rightarrow> bool" where
  "plain p \<longleftrightarrow> ''..'' \<notin> set (components p)"

definition valid_name :: "string \<Rightarrow> bool" where
  "valid_name n \<longleftrightarrow> n \<noteq> [] \<and> slash \<notin> set n \<and> n \<noteq> ''.'' \<and> n \<noteq> ''..''"

lemma entry_child: "valid_name n \<Longrightarrow> entry cf (p @ slash # n) = entry cf p @ [cf n]"
  by (simp add: entry_def components_child components_name valid_name_def)

lemma plain_child: "valid_name n \<Longrightarrow> plain p \<Longrightarrow> plain (p @ slash # n)"
  by (auto simp: plain_def components_child components_name valid_name_def)

lemma child_names_valid:
  assumes "vfs_laws cf v" "fs_readdir v p f = Inr es" shows "\<forall>n \<in> set (child_names es). valid_name n"
proof
  fix n assume "n \<in> set (child_names es)"
  then obtain d where n: "(n, d) \<in> set es" "n \<noteq> ''.''" "n \<noteq> ''..''" by (auto simp: child_names_def)
  have "\<forall>p f es n d. fs_readdir v p f = Inr es \<and> (n, d) \<in> set es \<longrightarrow> n \<noteq> [] \<and> slash \<notin> set n"
    using assms(1) unfolding vfs_laws_def by (elim conjE)
  then have "n \<noteq> [] \<and> slash \<notin> set n" using assms(2) n(1) by blast
  then show "valid_name n" using n by (simp add: valid_name_def)
qed

lemma vfs_frame:
  assumes "vfs_laws cf v" "plain p" "plain q" "entry cf p \<noteq> entry cf q"
  shows "fs_stat v q (snd (fs_unlink v p f)) = fs_stat v q f" "fs_stat v q (snd (fs_rmdir v p f)) = fs_stat v q f"
proof -
  have "\<forall>p q f. ''..'' \<notin> set (components p) \<and> ''..'' \<notin> set (components q) \<and> entry cf p \<noteq> entry cf q \<longrightarrow>
        fs_stat v q (snd (fs_unlink v p f)) = fs_stat v q f \<and>
        fs_stat v q (snd (fs_rmdir v p f)) = fs_stat v q f"
    using assms(1) unfolding vfs_laws_def by (elim conjE)
  then show "fs_stat v q (snd (fs_unlink v p f)) = fs_stat v q f" "fs_stat v q (snd (fs_rmdir v p f)) = fs_stat v q f"
    using assms(2-4) by (simp_all add: plain_def)
qed

lemma remove_one_card [simp]: "(case remove_one p r res progress of (res, progress) \<Rightarrow> Some (res, progress, f)) =
    Some (fst (remove_one p r res progress), snd (remove_one p r res progress), f)"
  by (simp split: prod.splits)

lemma vfs_same_entry:
  assumes "vfs_laws cf v" "plain p" "plain q" "entry cf p = entry cf q"
  shows "fs_stat v p f = fs_stat v q f"
proof -
  have "\<forall>p q f. ''..'' \<notin> set (components p) \<and> ''..'' \<notin> set (components q) \<and> entry cf p = entry cf q \<longrightarrow>
        fs_stat v p f = fs_stat v q f"
    using assms(1) unfolding vfs_laws_def by (elim conjE)
  from this [rule_format, of p q f] show ?thesis using assms(2-4) by (simp add: plain_def)
qed

text \<open>
  Removing a tree leaves every entry alone that is not in it, and also the root when it is a
  directory whose shell is to be kept.
\<close>

definition spared :: "(string \<Rightarrow> string) \<Rightarrow> 'f vfs \<Rightarrow> string \<Rightarrow> bool \<Rightarrow> 'f \<Rightarrow> string \<Rightarrow> bool" where
  "spared cf v p keep f q \<longleftrightarrow> \<not> prefix (entry cf p) (entry cf q) \<or>
     keep \<and> entry cf q = entry cf p \<and> (\<forall>n. fs_stat v p f \<noteq> Inr (False, n))"

lemma remove_frame:
  assumes laws: "vfs_laws cf v" and q: "plain q"
  shows "\<forall>p keep s s'. remove_tree fuel v p keep s = Some s' \<longrightarrow> plain p \<longrightarrow> spared cf v p keep (snd (snd s)) q \<longrightarrow>
       fs_stat v q (snd (snd s')) = fs_stat v q (snd (snd s))"
proof (induction fuel)
  case 0
  then show ?case by simp
next
  case (Suc fuel)
  have children: "remove_children fuel v p names s = Some s' \<Longrightarrow> plain p \<Longrightarrow> \<forall>n \<in> set names. valid_name n \<Longrightarrow>
      \<forall>n \<in> set names. \<not> prefix (entry cf p @ [cf n]) (entry cf q) \<Longrightarrow>
      fs_stat v q (snd (snd s')) = fs_stat v q (snd (snd s))" for p names s s'
  proof (induction names arbitrary: s)
    case (Cons n names)
    obtain t where t: "remove_tree fuel v (p @ slash # n) False s = Some t" "remove_children fuel v p names t = Some s'"
      using Cons.prems(1) by (auto simp: bind_eq_Some_conv)
    have sp: "spared cf v (p @ slash # n) False (snd (snd s)) q"
      using Cons.prems(3,4) by (simp add: spared_def entry_child)
    have "fs_stat v q (snd (snd t)) = fs_stat v q (snd (snd s))"
      using Suc [rule_format, OF t(1) _ sp] plain_child [of n p] Cons.prems(2,3) by simp
    then show ?case using Cons.IH [OF t(2)] Cons.prems(2-4) by simp
  qed simp
  show ?case
  proof (intro allI impI)
    fix p keep s s'
    assume run: "remove_tree (Suc fuel) v p keep s = Some s'" and p: "plain p"
      and sp: "spared cf v p keep (snd (snd s)) q"
    obtain res progress f where s: "s = (res, progress, f)" by (rule prod_cases3)
    show "fs_stat v q (snd (snd s')) = fs_stat v q (snd (snd s))"
    proof (cases "fs_stat v p f")
      case (Inl e)
      then show ?thesis using run s by auto
    next
      case (Inr st)
      obtain d n where st: "st = (d, n)" by (rule prod.exhaust)
      show ?thesis
      proof (cases d)
        case False
        then have "\<not> prefix (entry cf p) (entry cf q)" using sp s Inr st by (auto simp: spared_def)
        then have "entry cf p \<noteq> entry cf q" by auto
        from vfs_frame(1) [OF laws p q this] show ?thesis
          using run s Inr st False by (auto simp: split_beta)
      next
        case True
        show ?thesis
        proof (cases "safe_path (Some p) = None \<or> (\<exists>e. fs_readdir v p f = Inl e)")
          case True
          then show ?thesis using run s Inr st \<open>d\<close> by (auto split: if_splits)
        next
          case False
          then obtain es where es: "fs_readdir v p f = Inr es" by (cases "fs_readdir v p f") auto
          obtain t where t: "remove_children fuel v p (child_names es) (res, progress, f) = Some t"
            using run s Inr st \<open>d\<close> False es by (auto simp: bind_eq_Some_conv)
          obtain res1 progress1 f1 where t1: "t = (res1, progress1, f1)" by (rule prod_cases3)
          have "\<forall>n \<in> set (child_names es). \<not> prefix (entry cf p @ [cf n]) (entry cf q)"
            using sp by (auto simp: spared_def dest: append_prefixD)
          then have f1: "fs_stat v q f1 = fs_stat v q f"
            using children [OF t p child_names_valid [OF laws es]] t1 by simp
          show ?thesis
          proof (cases keep)
            case True
            then show ?thesis using run s Inr st \<open>d\<close> False es t t1 f1 by auto
          next
            case nk: False
            then have "entry cf p \<noteq> entry cf q" using sp by (auto simp: spared_def)
            from vfs_frame(2) [OF laws p q this, of f1] show ?thesis
              using run s Inr st \<open>d\<close> False es t t1 f1 nk by (auto simp: split_beta)
          qed
        qed
      qed
    qed
  qed
qed

subsection \<open>Guards\<close>

definition render :: "string list \<Rightarrow> string" where
  "render ws = concat (map (\<lambda>w. slash # w) ws)"

text \<open>A path written without empty or \<open>.\<close> components, but perhaps with one slash at the end.\<close>

definition canonical :: "string \<Rightarrow> bool" where
  "canonical p \<longleftrightarrow> p = render (components p) \<or> p = render (components p) @ [slash]"

lemma split_on_word: "c \<notin> set w \<Longrightarrow> split_on c (w @ c # ys) = w # split_on c ys"
  by (simp add: split_on_append split_on_no)

lemma components_render:
  "\<forall>w \<in> set ws. valid_name w \<Longrightarrow> components (render ws) = ws"
proof (induction ws rule: rev_induct)
  case Nil
  then show ?case by (simp add: render_def components_def)
next
  case (snoc w ws)
  have "render (ws @ [w]) = render ws @ slash # w" by (simp add: render_def)
  then show ?case using snoc by (simp add: components_child components_name valid_name_def)
qed

lemma render_last: "ws \<noteq> [] \<Longrightarrow> last ws \<noteq> [] \<Longrightarrow> last (render ws) = last (last ws)"
  by (induction ws) (auto simp: render_def)

lemma safe_path_Some: "safe_path (Some p) = Some p' \<longleftrightarrow> p' = p \<and> safe_path (Some p) \<noteq> None"
  by (auto simp: safe_path_def)

lemma components_words: "w \<in> set (components p) \<Longrightarrow> w \<noteq> [] \<and> slash \<notin> set w \<and> w \<noteq> ''.''"
proof -
  have "w \<in> set (split_on c p) \<Longrightarrow> c \<notin> set w" for c
    by (induction p arbitrary: w) (auto split: list.splits if_splits)
  then show "w \<in> set (components p) \<Longrightarrow> w \<noteq> [] \<and> slash \<notin> set w \<and> w \<noteq> ''.''"
    by (auto simp: components_def)
qed

lemma split_on_sublist: "w \<in> set (split_on c p) \<Longrightarrow> sublist w p"
proof -
  have "(\<exists>w ws. split_on c p = w # ws \<and> prefix w p) \<and> (\<forall>w \<in> set (split_on c p). sublist w p)"
    by (induction p) (auto intro: sublist_order.order.trans [OF _ sublist_Cons_right [THEN iffD2, OF disjI2]] split: list.splits)
  then show "w \<in> set (split_on c p) \<Longrightarrow> sublist w p" by blast
qed

lemma length_kMountPoint: "length kMountPoint = 7"
  by (simp add: kMountPoint_def)

lemma safe_path_facts:
  assumes "safe_path (Some p) \<noteq> None"
  shows "plain p" "take 7 p = ''/sdcard''" "length p = 7 \<or> p ! 7 = slash" "p \<noteq> []"
proof -
  have nd: "\<not> contains_dotdot p" using assms by (auto simp: safe_path_def split: if_splits)
  show "plain p" unfolding plain_def
  proof
    assume "''..'' \<in> set (components p)"
    then have "sublist ''..'' p" by (auto simp: components_def intro: split_on_sublist)
    then obtain xs ys where "p = xs @ ''..'' @ ys" by (auto simp: sublist_def)
    then have "''..'' @ ys \<in> set (suffixes p)" "starts_with (''..'' @ ys) ''..''"
      by (simp add: suffix_def, simp only: starts_with_append)
    then show False using nd unfolding contains_dotdot_def by (auto simp: list_ex_iff)
  qed
  have "take (length kMountPoint) p = kMountPoint" "length p = length kMountPoint \<or> p ! length kMountPoint = slash" "p \<noteq> []"
    using assms by (auto simp: safe_path_def split: if_splits)
  then show "take 7 p = ''/sdcard''" "length p = 7 \<or> p ! 7 = slash" "p \<noteq> []"
    by (simp_all add: length_kMountPoint) (simp add: kMountPoint_def)
qed

lemma render_eq_iff:
  "\<forall>w \<in> set ws. valid_name w \<Longrightarrow> \<forall>w \<in> set vs. valid_name w \<Longrightarrow> render ws = render vs \<longleftrightarrow> ws = vs"
  by (metis components_render)

lemma managed_names: "valid_name ''sdcard''" "valid_name ''logs''" "valid_name ''rawdata''"
  by (simp_all add: valid_name_def slash_def)

lemma kMountPoint_render: "kMountPoint = render [''sdcard'']"
  "kMountPoint @ ''/logs'' = render [''sdcard'', ''logs'']"
  "kMountPoint @ ''/rawdata'' = render [''sdcard'', ''rawdata'']"
  by (simp_all add: kMountPoint_def render_def slash_def)

text \<open>What the guard decides about a canonically written path.\<close>

lemma check_deletable_canonical:
  assumes "safe_path (Some p) \<noteq> None" "canonical p" "length p \<le> 259"
  shows "check_deletable (Some p) =
    (if components p = [''sdcard''] then GuardMountRoot
     else if components p \<in> {[''sdcard'', ''logs''], [''sdcard'', ''rawdata'']} then GuardManagedDir
     else GuardAllowed)"
proof -
  let ?cs = "components p"
  note safe = safe_path_facts [OF assms(1)]
  have valid: "\<forall>w \<in> set ?cs. valid_name w"
    using components_words safe(1) by (fastforce simp: plain_def valid_name_def)
  have ne: "?cs \<noteq> []"
  proof
    assume "?cs = []"
    then have "p = [] \<or> p = [slash]" using assms(2) by (simp add: canonical_def render_def)
    then show False using safe(2,4) by auto
  qed
  then have last: "last ?cs \<noteq> []" "slash \<notin> set (last ?cs)" using components_words [of "last ?cs" p] by simp_all
  then have "last (last ?cs) \<noteq> slash" by (metis last_in_set)
  then have nl: "last (render ?cs) \<noteq> slash" using render_last [OF ne last(1)] by simp
  have norm: "(if length kMountPoint < length p \<and> last p = slash then butlast p else p) = render ?cs"
  proof (cases "p = render ?cs")
    case True
    then show ?thesis using nl by auto
  next
    case False
    then have p: "p = render ?cs @ [slash]" using assms(2) by (simp add: canonical_def)
    then have last: "last p = slash" by (metis last_snoc)
    have but: "butlast p = render ?cs" using p by (metis butlast_snoc)
    have "7 < length p"
    proof (rule ccontr)
      assume "\<not> 7 < length p"
      then have "p = ''/sdcard''" using safe(2) by simp
      then show False using last by (simp add: slash_def)
    qed
    then show ?thesis using last but by (simp add: length_kMountPoint)
  qed
  have eq: "render ?cs = render ws \<longleftrightarrow> ?cs = ws" if "\<forall>w \<in> set ws. valid_name w" for ws
    using render_eq_iff [OF valid that] .
  have names: "render ?cs = kMountPoint \<longleftrightarrow> ?cs = [''sdcard'']"
    "render ?cs = kMountPoint @ ''/logs'' \<longleftrightarrow> ?cs = [''sdcard'', ''logs'']"
    "render ?cs = kMountPoint @ ''/rawdata'' \<longleftrightarrow> ?cs = [''sdcard'', ''rawdata'']"
    using eq [of "[''sdcard'']"] eq [of "[''sdcard'', ''logs'']"] eq [of "[''sdcard'', ''rawdata'']"]
    by (simp_all only: kMountPoint_render(2,3) set_simps managed_names ball_simps)
      (simp_all add: kMountPoint_render(1) managed_names)
  have sp: "safe_path (Some p) = Some p" using assms(1) safe_path_Some by blast
  show ?thesis
    using assms(3) by (simp add: check_deletable_def sp norm Let_def names kMountPoint_render(2,3) [symmetric])
qed

subsection \<open>Properties\<close>

text \<open>
  A batch that names a bad path or the root of the card is refused as a whole: nothing on
  the card changes and every entry counts as skipped.
\<close>

theorem batch_refused_untouched:
  assumes "\<exists>p \<in> set paths. refused p"
  shows "\<exists>res. delete_paths fuel v mounted paths (progress, f) = Some (res, progress, f) \<and>
    dr_deleted res = 0 \<and> dr_failed res = 0 \<and> dr_skipped res = of_nat (length paths)"
proof -
  obtain p where "find refused paths = Some p" using assms by (cases "find refused paths") (auto simp: find_None_iff)
  then show ?thesis by (simp add: delete_paths_def Let_def delete_result_init_def)
qed

lemma remove_paths_frame:
  assumes laws: "vfs_laws cf v" and q: "plain q"
    and run: "remove_paths fuel v paths s = Some s'"
    and sp: "\<And>p f. Some p \<in> set paths \<Longrightarrow> fs_stat v q f = fs_stat v q (snd (snd s)) \<Longrightarrow>
      plain p \<and> spared cf v p (check_deletable (Some p) = GuardManagedDir) f q"
    and "None \<notin> set paths"
  shows "fs_stat v q (snd (snd s')) = fs_stat v q (snd (snd s))"
  using run sp assms(5)
proof (induction paths arbitrary: s)
  case (Cons path paths)
  then obtain p where p: "path = Some p" by (cases path) auto
  obtain t where t: "remove_tree fuel v p (check_deletable (Some p) = GuardManagedDir) s = Some t"
    "remove_paths fuel v paths t = Some s'"
    using Cons.prems(1) p by (auto simp: bind_eq_Some_conv)
  have here: "plain p" "spared cf v p (check_deletable (Some p) = GuardManagedDir) (snd (snd s)) q"
    using Cons.prems(2) [of p "snd (snd s)"] p by simp_all
  have "fs_stat v q (snd (snd t)) = fs_stat v q (snd (snd s))"
    using remove_frame [OF laws q, rule_format, OF t(1) here] .
  then show ?case using Cons.IH [OF t(2)] Cons.prems(2,3) by simp
qed simp

lemma accepted_safe:
  assumes "\<not> refused path" shows "safe_path path \<noteq> None" "path \<noteq> None"
proof -
  show *: "safe_path path \<noteq> None"
    using assms by (cases "safe_path path") (simp_all add: refused_def check_deletable_def)
  then show "path \<noteq> None" by (cases path) (simp_all add: safe_path_def)
qed

lemma prefix_named:
  "prefix (map cf xs) (map cf ys) \<Longrightarrow> \<forall>w \<in> set xs. \<forall>m \<in> set ys. cf w = cf m \<longrightarrow> w = m \<Longrightarrow> prefix xs ys"
  by (induction xs ys rule: list_induct2') auto

definition managed_components :: "string list list" where
  "managed_components = [[''sdcard''], [''sdcard'', ''logs''], [''sdcard'', ''rawdata'']]"

lemma accepted_spares_managed:
  assumes laws: "vfs_laws cf v" and p: "\<not> refused (Some p)" "canonical p" "length p \<le> 259"
    and names: "\<forall>w \<in> set (components p). \<forall>m \<in> {''sdcard'', ''logs'', ''rawdata''}. cf w = cf m \<longrightarrow> w = m"
    and q: "components q \<in> set managed_components" "fs_stat v q f = Inr (True, n)"
  shows "plain p \<and> spared cf v p (check_deletable (Some p) = GuardManagedDir) f q"
proof -
  note safe = accepted_safe(1) [OF p(1)]
  note plain_p = safe_path_facts(1) [OF safe]
  have plain_q: "plain q" using q(1) by (auto simp: plain_def managed_components_def)
  note guard = check_deletable_canonical [OF safe p(2,3)]
  have "spared cf v p (check_deletable (Some p) = GuardManagedDir) f q"
  proof (cases "prefix (entry cf p) (entry cf q)")
    case False
    then show ?thesis by (simp add: spared_def)
  next
    case True
    have "\<forall>w \<in> set (components p). \<forall>m \<in> set (components q). cf w = cf m \<longrightarrow> w = m"
      using names q(1) by (auto simp: managed_components_def)
    then have pre: "prefix (components p) (components q)" using prefix_named [of cf] True by (simp add: entry_def)
    have "components p \<noteq> []"
    proof
      assume "components p = []"
      then have "p = [] \<or> p = [slash]" using p(2) by (simp add: canonical_def render_def)
      then show False using safe_path_facts(2,4) [OF safe] by auto
    qed
    moreover have "components p \<noteq> [''sdcard'']" using guard p(1) by (auto simp: refused_def)
    ultimately have same: "components p = components q" and "components q \<noteq> [''sdcard'']"
      using pre q(1) by (auto simp: managed_components_def prefix_Cons)
    then have "check_deletable (Some p) = GuardManagedDir" using guard q(1) by (auto simp: managed_components_def)
    moreover have "entry cf p = entry cf q" by (simp add: entry_def same)
    moreover from this have "fs_stat v p f = fs_stat v q f" using vfs_same_entry [OF laws plain_p plain_q] by blast
    ultimately show ?thesis using q(2) by (simp add: spared_def)
  qed
  then show ?thesis using plain_p by blast
qed

text \<open>
  C4. A bulk delete cannot lose the root of the card or the shells of the managed directories:
  when every path of the batch is written canonically and spells the managed names as they are,
  deleting it leaves the directories \<open>/sdcard\<close>, \<open>/sdcard/logs\<close> and \<open>/sdcard/rawdata\<close> as they were,
  and leaves alone every path - file, directory or nothing - that is not in one of the named trees.
\<close>

theorem delete_paths_spares:
  assumes "vfs_laws cf v" and "delete_paths fuel v True paths (progress, f) = Some (res, progress', f')"
    and "\<forall>p. Some p \<in> set paths \<longrightarrow> canonical p \<and> length p \<le> 259 \<and>
      (\<forall>w \<in> set (components p). \<forall>m \<in> {''sdcard'', ''logs'', ''rawdata''}. cf w = cf m \<longrightarrow> w = m)"
    and "q \<in> {''/sdcard'', ''/sdcard/logs'', ''/sdcard/rawdata''} \<and> (\<exists>n. fs_stat v q f = Inr (True, n)) \<or>
      plain q \<and> (\<forall>p. Some p \<in> set paths \<longrightarrow> \<not> prefix (entry cf p) (entry cf q))"
  shows "fs_stat v q f' = fs_stat v q f"
proof (cases "find refused paths")
  case (Some p)
  then show ?thesis using assms(2) by (auto simp: delete_paths_def Let_def)
next
  case None
  have run: "remove_paths fuel v paths (delete_result_init\<lparr>dr_requested := of_nat (length paths)\<rparr>, progress, f)
      = Some (res, progress', f')"
    using assms(2) None by (simp add: delete_paths_def Let_def)
  have ok: "\<not> refused path" if "path \<in> set paths" for path using None that by (auto simp: find_None_iff)
  have nn: "None \<notin> set paths" using ok accepted_safe(2) by blast
  have named: "components ''/sdcard'' = [''sdcard'']" "components ''/sdcard/logs'' = [''sdcard'', ''logs'']"
    "components ''/sdcard/rawdata'' = [''sdcard'', ''rawdata'']"
    by (simp_all add: components_def slash_def)
  have pq: "plain q" using assms(4) by (auto simp: plain_def named)
  have sp: "plain p \<and> spared cf v p (check_deletable (Some p) = GuardManagedDir) g q"
    if p: "Some p \<in> set paths" and g: "fs_stat v q g = fs_stat v q f" for p g
    using assms(4)
  proof
    assume "q \<in> {''/sdcard'', ''/sdcard/logs'', ''/sdcard/rawdata''} \<and> (\<exists>n. fs_stat v q f = Inr (True, n))"
    then obtain n where q: "q \<in> {''/sdcard'', ''/sdcard/logs'', ''/sdcard/rawdata''}" and n: "fs_stat v q f = Inr (True, n)"
      by blast
    from q have man: "components q \<in> set managed_components" by (auto simp: managed_components_def named)
    have can: "canonical p" "length p \<le> 259"
      "\<forall>w \<in> set (components p). \<forall>m \<in> {''sdcard'', ''logs'', ''rawdata''}. cf w = cf m \<longrightarrow> w = m"
      using assms(3) p by blast+
    have "fs_stat v q g = Inr (True, n)" using g n by simp
    from accepted_spares_managed [OF assms(1) ok [OF p] can man this] show ?thesis .
  next
    assume "plain q \<and> (\<forall>p. Some p \<in> set paths \<longrightarrow> \<not> prefix (entry cf p) (entry cf q))"
    moreover have "safe_path (Some p) \<noteq> None" using accepted_safe(1) [OF ok [OF p]] .
    ultimately show ?thesis using p safe_path_facts(1) by (auto simp: spared_def)
  qed
  show ?thesis using remove_paths_frame [OF assms(1) pq run _ nn] sp by simp
qed

text \<open>
  The guard reads the path as text, not as the file system does: paths with a doubled slash
  or a \<open>.\<close> component that denote the root of the card or a managed directory are allowed.
\<close>

theorem guard_bypassed_by_spelling:
  "check_deletable (Some ''/sdcard//'') = GuardAllowed \<and>
   components ''/sdcard//'' = components kMountPoint \<and>
   check_deletable (Some ''/sdcard//logs'') = GuardAllowed \<and>
   components ''/sdcard//logs'' = components (kMountPoint @ ''/logs'') \<and>
   check_deletable (Some ''/sdcard/./logs'') = GuardAllowed \<and>
   components ''/sdcard/./logs'' = components (kMountPoint @ ''/logs'')"
  by (simp add: check_deletable_def safe_path_def kMountPoint_def components_def slash_def contains_dotdot_def
      starts_with_def Let_def numeral_eq_Suc)

subsection \<open>Depth\<close>

text \<open>
  A finite directory tree, as the card has it: \<open>rank\<close> bounds the depth below a path - every entry
  that a directory lists, but for itself (\<open>.\<close>) and its parent (\<open>..\<close>), lies deeper - and no
  removal makes any tree deeper.
\<close>

definition tree_ranked :: "'f vfs \<Rightarrow> ('f \<Rightarrow> string \<Rightarrow> nat) \<Rightarrow> bool" where
  "tree_ranked v rank \<longleftrightarrow>
     (\<forall>p f es n d. fs_readdir v p f = Inr es \<and> (n, d) \<in> set es \<and> n \<noteq> ''.'' \<and> n \<noteq> ''..'' \<longrightarrow>
        rank f (p @ slash # n) < rank f p) \<and>
     (\<forall>p q f. rank (snd (fs_unlink v p f)) q \<le> rank f q \<and> rank (snd (fs_rmdir v p f)) q \<le> rank f q)"

lemma remove_tree_returns:
  fixes v :: "'f vfs"
  assumes ranked: "tree_ranked v rank"
  shows "\<forall>p keep s. rank (snd (snd s)) p < fuel \<longrightarrow>
    (\<exists>s'. remove_tree fuel v p keep s = Some s' \<and> (\<forall>q. rank (snd (snd s')) q \<le> rank (snd (snd s)) q))"
proof (induction fuel)
  case (Suc fuel)
  have children: "\<forall>n \<in> set names. rank (snd (snd s)) (p @ slash # n) < fuel \<Longrightarrow>
      \<exists>s'. remove_children fuel v p names s = Some s' \<and> (\<forall>q. rank (snd (snd s')) q \<le> rank (snd (snd s)) q)" for p names s
  proof (induction names arbitrary: s)
    case (Cons n names)
    obtain t where t: "remove_tree fuel v (p @ slash # n) False s = Some t"
      "\<And>q. rank (snd (snd t)) q \<le> rank (snd (snd s)) q"
      using Suc [rule_format, of s "p @ slash # n" False] Cons.prems by auto
    have "\<forall>n \<in> set names. rank (snd (snd t)) (p @ slash # n) < fuel"
      using Cons.prems t(2) by (auto intro: le_less_trans)
    then obtain s' where "remove_children fuel v p names t = Some s'" "\<forall>q. rank (snd (snd s')) q \<le> rank (snd (snd t)) q"
      using Cons.IH by blast
    then show ?case using t(1) order_trans [OF _ t(2)] by (intro exI [of _ s']) simp
  qed simp
  show ?case
  proof (intro allI impI)
    fix p keep and s :: "'f deleting" assume r: "rank (snd (snd s)) p < Suc fuel"
    obtain res progress f where s: "s = (res, progress, f)" by (rule prod_cases3)
    have unl: "rank (snd (fs_unlink v p f)) q \<le> rank f q" "rank (snd (fs_rmdir v p f)) q \<le> rank f q" for f q
      using ranked by (simp_all add: tree_ranked_def)
    have below: "\<forall>n \<in> set (child_names es). rank f (p @ slash # n) < fuel" if "fs_readdir v p f = Inr es" for es
    proof
      fix n assume "n \<in> set (child_names es)"
      then obtain d where "(n, d) \<in> set es" "n \<noteq> ''.''" "n \<noteq> ''..''" by (auto simp: child_names_def)
      then have "rank f (p @ slash # n) < rank f p" using ranked that unfolding tree_ranked_def by blast
      then show "rank f (p @ slash # n) < fuel" using r s by simp
    qed
    have kids: "\<exists>res1 progress1 f1. remove_children fuel v p (child_names es) (res, progress, f) = Some (res1, progress1, f1) \<and>
        (\<forall>q. rank f1 q \<le> rank f q)" if "fs_readdir v p f = Inr es" for es
      using children [of "child_names es" "(res, progress, f)" p] below [OF that] by auto
    show "\<exists>s'. remove_tree (Suc fuel) v p keep s = Some s' \<and> (\<forall>q. rank (snd (snd s')) q \<le> rank (snd (snd s)) q)"
    proof (cases "fs_stat v p f")
      case (Inl e)
      then show ?thesis by (simp add: s)
    next
      case (Inr st)
      show ?thesis
      proof (cases "fst st \<and> safe_path (Some p) \<noteq> None")
        case False
        then show ?thesis using unl by (auto simp: s Inr split_beta)
      next
        case True
        show ?thesis
        proof (cases "fs_readdir v p f")
          case (Inl e)
          then show ?thesis using True by (auto simp: s Inr split_beta \<open>fs_stat v p f = _\<close>)
        next
          case es: (Inr es)
          obtain res1 progress1 f1 where "remove_children fuel v p (child_names es) (res, progress, f) = Some (res1, progress1, f1)"
            "\<forall>q. rank f1 q \<le> rank f q" using kids [OF es] by blast
          moreover from this have "rank (snd (fs_rmdir v p f1)) q \<le> rank f q" for q
            using unl(2) [of f1 q] order_trans by blast
          ultimately show ?thesis using True by (auto simp: s Inr es split_beta)
        qed
      qed
    qed
  qed
qed simp

text \<open>
  C33. A bulk delete ends: on a card whose directory tree is finite - although every directory
  lists itself and its parent - with more fuel than the depth of every named tree,
  \<open>delete_paths\<close> returns a result.
\<close>

theorem delete_paths_returns:
  assumes "tree_ranked v rank" and "\<forall>p. Some p \<in> set paths \<longrightarrow> rank f p < fuel" and "mounted"
  shows "\<exists>res progress' f'. delete_paths fuel v mounted paths (progress, f) = Some (res, progress', f')"
proof -
  have run: "\<exists>s'. remove_paths fuel v ps s = Some s'"
    if "\<forall>p. Some p \<in> set ps \<longrightarrow> rank (snd (snd s)) p < fuel" "\<forall>p \<in> set ps. p \<noteq> None" for ps s
    using that
  proof (induction ps arbitrary: s)
    case Nil
    show ?case by (simp only: remove_paths.simps) blast
  next
    case (Cons path ps)
    then obtain p where p: "path = Some p" by (cases path) auto
    obtain t where t: "remove_tree fuel v p (check_deletable path = GuardManagedDir) s = Some t"
      "\<And>q. rank (snd (snd t)) q \<le> rank (snd (snd s)) q"
      using remove_tree_returns [OF assms(1), rule_format, of s p fuel "check_deletable path = GuardManagedDir"]
        Cons.prems(1) p by (metis list.set_intros(1))
    have "\<forall>p. Some p \<in> set ps \<longrightarrow> rank (snd (snd t)) p < fuel" using Cons.prems(1) t(2) by (auto intro: le_less_trans)
    from Cons.IH [OF this] Cons.prems(2) t(1) p show ?case by auto
  qed
  show ?thesis
  proof (cases "find refused paths")
    case (Some p)
    then show ?thesis using assms(3) by (simp add: delete_paths_def Let_def)
  next
    case None
    then have "\<forall>p \<in> set paths. p \<noteq> None" using accepted_safe(2) by (auto simp: find_None_iff)
    with run [of paths "(delete_result_init\<lparr>dr_requested := of_nat (length paths)\<rparr>, progress, f)"] assms(2,3) None
    show ?thesis by (auto simp: delete_paths_def Let_def)
  qed
qed

subsection \<open>The listing\<close>

definition buffer_ok :: "text_buffer \<Rightarrow> bool" where
  "buffer_ok b \<longleftrightarrow> length (tb_text b) < tb_cap b"

text \<open>An append either fails or appends the text, and the terminator still fits.\<close>

lemma buf_append_text:
  "buf_append alloc s b = Some b' \<Longrightarrow> buffer_ok b \<Longrightarrow> tb_text b' = tb_text b @ s \<and> buffer_ok b'"
  by (auto simp: buf_append_def buffer_ok_def Let_def split: if_splits)

lemma buf_append_json_str_text:
  "buf_append_json_str alloc s b = Some b' \<Longrightarrow> buffer_ok b \<Longrightarrow>
   tb_text b' = tb_text b @ concat (map json_escape s) \<and> buffer_ok b'"
  by (induction s arbitrary: b b') (fastforce simp: bind_eq_Some_conv dest: buf_append_text)+

lemma buf_append_all_text:
  "buf_append_all alloc ss b = Some b' \<Longrightarrow> buffer_ok b \<Longrightarrow> tb_text b' = tb_text b @ concat ss \<and> buffer_ok b'"
  by (induction ss arbitrary: b b') (fastforce simp: bind_eq_Some_conv dest: buf_append_text)+

text \<open>The text of one entry, and of a listing.\<close>

definition quoted :: "string \<Rightarrow> string" where
  "quoted s = [CHR 0x22] @ s @ [CHR 0x22]"

definition entry_json :: "'f vfs \<Rightarrow> string \<Rightarrow> 'f \<Rightarrow> string \<times> d_type \<Rightarrow> string" where
  "entry_json v path f e =
     (let fp = take 319 (path @ ''/'' @ fst e); (is_dir, n) = dir_entry_info v fp (snd e) f in
      ''{'' @ quoted ''name'' @ '':'' @ quoted (concat (map json_escape (fst e))) @ '','' @
      quoted ''path'' @ '':'' @ quoted (concat (map json_escape fp)) @ '','' @
      quoted ''is_dir'' @ '':'' @ (if is_dir then ''true'' else ''false'') @ '','' @
      quoted ''size'' @ '':'' @ dec_int n @ ''}'')"

fun comma_separated :: "string list \<Rightarrow> string" where
  "comma_separated [] = []"
| "comma_separated [s] = s"
| "comma_separated (s # ss) = s @ '','' @ comma_separated ss"

lemma list_dir_entry_text:
  assumes "list_dir_entry alloc first name fp info b = Some b'" "buffer_ok b"
  shows "tb_text b' = tb_text b @ (if first then [] else '','') @ ''{'' @ quoted ''name'' @ '':'' @
      quoted (concat (map json_escape name)) @ '','' @ quoted ''path'' @ '':'' @ quoted (concat (map json_escape fp)) @ '','' @
      quoted ''is_dir'' @ '':'' @ (if fst info then ''true'' else ''false'') @ '','' @
      quoted ''size'' @ '':'' @ dec_int (snd info) @ ''}'' \<and> buffer_ok b'"
proof -
  obtain b1 b2 b3 b4 b5 where r: "(if first then Some b else buf_append alloc '','' b) = Some b1"
    "buf_append alloc (''{'' @ [CHR 0x22] @ ''name'' @ [CHR 0x22, CHR '':'', CHR 0x22]) b1 = Some b2"
    "buf_append_json_str alloc name b2 = Some b3"
    "buf_append alloc ([CHR 0x22] @ '','' @ [CHR 0x22] @ ''path'' @ [CHR 0x22, CHR '':'', CHR 0x22]) b3 = Some b4"
    "buf_append_json_str alloc fp b4 = Some b5"
    "buf_append_all alloc [[CHR 0x22] @ '','' @ [CHR 0x22] @ ''is_dir'' @ [CHR 0x22] @ '':'',
          if fst info then ''true'' else ''false'',
          '','' @ [CHR 0x22] @ ''size'' @ [CHR 0x22] @ '':'', dec_int (snd info), ''}''] b5 = Some b'"
    using assms(1) unfolding list_dir_entry_def bind_eq_Some_conv by blast
  have 1: "tb_text b1 = tb_text b @ (if first then [] else '','')" "buffer_ok b1"
    using r(1) assms(2) buf_append_text [of alloc "'',''" b b1] by (simp_all split: if_splits)
  note 2 = buf_append_text [OF r(2) 1(2)]
  note 3 = buf_append_json_str_text [OF r(3) 2 [THEN conjunct2]]
  note 4 = buf_append_text [OF r(4) 3 [THEN conjunct2]]
  note 5 = buf_append_json_str_text [OF r(5) 4 [THEN conjunct2]]
  note 6 = buf_append_all_text [OF r(6) 5 [THEN conjunct2]]
  show ?thesis using 1(1) 2 3 4 5 6 by (simp add: quoted_def)
qed

definition separated_from :: "bool \<Rightarrow> string list \<Rightarrow> string" where
  "separated_from first ss = (if ss = [] then [] else (if first then [] else '','') @ comma_separated ss)"

lemma separated_from_Cons:
  "separated_from first (s # ss) = (if first then [] else '','') @ s @ separated_from False ss"
  by (cases ss) (simp_all add: separated_from_def)

definition shown :: "(string \<times> d_type) list \<Rightarrow> (string \<times> d_type) list" where
  "shown es = filter (\<lambda>e. fst e \<noteq> ''.'' \<and> fst e \<noteq> ''..'') es"

lemma list_dir_entries_text:
  "list_dir_entries v alloc path f first es b = Some b' \<Longrightarrow> buffer_ok b \<Longrightarrow>
   tb_text b' = tb_text b @ separated_from first (map (entry_json v path f) (shown es)) \<and> buffer_ok b'"
proof (induction es arbitrary: first b)
  case Nil
  then show ?case by (simp add: shown_def separated_from_def)
next
  case (Cons e es)
  obtain name t where e: "e = (name, t)" by (rule prod.exhaust)
  show ?case
  proof (cases "name = ''.'' \<or> name = ''..''")
    case True
    then have "list_dir_entries v alloc path f first es b = Some b'" "shown (e # es) = shown es"
      using Cons.prems(1) by (simp_all add: e shown_def)
    then show ?thesis using Cons.IH [of first b] Cons.prems(2) by simp
  next
    case False
    let ?fp = "take 319 (path @ ''/'' @ name)"
    obtain b1 where b1: "list_dir_entry alloc first name ?fp (dir_entry_info v ?fp t f) b = Some b1"
      "list_dir_entries v alloc path f False es b1 = Some b'"
      using Cons.prems(1) False unfolding e by (auto simp: bind_eq_Some_conv Let_def)
    have one: "tb_text b1 = tb_text b @ (if first then [] else '','') @ entry_json v path f e" "buffer_ok b1"
      using list_dir_entry_text [OF b1(1) Cons.prems(2)] by (simp_all add: entry_json_def split_beta Let_def e)
    have "shown (e # es) = e # shown es" using False by (simp add: e shown_def)
    then show ?thesis using Cons.IH [OF b1(2) one(2)] one(1) by (simp add: separated_from_Cons)
  qed
qed

text \<open>
  The listing is exact: whatever \<open>realloc\<close> does, \<open>list_dir\<close> either gives up or returns the
  JSON array of the entries, each name and path escaped, in the order of the directory.
\<close>

theorem list_dir_is_json_array:
  assumes "list_dir v alloc mounted (Some path) f = Some t"
  shows "\<exists>es. mounted \<and> fs_readdir v path f = Inr es \<and>
    t = ''['' @ comma_separated (map (entry_json v path f) (shown es)) @ '']''"
proof -
  have ok: "buffer_ok \<lparr>tb_text = [], tb_cap = 512\<rparr>" by (simp add: buffer_ok_def)
  obtain es b0 b1 b2 where r: "mounted" "fs_readdir v path f = Inr es"
    "buf_append alloc ''['' \<lparr>tb_text = [], tb_cap = 512\<rparr> = Some b0"
    "list_dir_entries v alloc path f True es b0 = Some b1" "buf_append alloc '']'' b1 = Some b2" "t = tb_text b2"
    using assms by (auto simp: list_dir_def bind_eq_Some_conv split: if_splits sum.splits)
  note 0 = buf_append_text [OF r(3) ok]
  from 0 have ok0: "buffer_ok b0" by blast
  note 1 = list_dir_entries_text [OF r(4) ok0]
  from 1 have ok1: "buffer_ok b1" by blast
  show ?thesis using r(1,2,6) 0 1 buf_append_text [OF r(5) ok1] by (auto simp: separated_from_def)
qed

subsection \<open>A card in memory, for concrete runs\<close>

type_synonym ram_card = "(string list \<times> bool \<times> u64) list"

definition ram_children :: "ram_card \<Rightarrow> string list \<Rightarrow> (string \<times> d_type) list" where
  "ram_children f c = map (\<lambda>(e, d, _). (last e, if d then DtDir else DtReg))
     (filter (\<lambda>(e, _). e \<noteq> [] \<and> butlast e = c \<and> valid_name (last e)) f)"

definition ram_remove :: "ram_card \<Rightarrow> string list \<Rightarrow> ram_card" where
  "ram_remove f c = filter (\<lambda>e. fst e \<noteq> c) f"

definition ram_vfs :: "ram_card vfs" where
  "ram_vfs = \<lparr>
     fs_stat = (\<lambda>p f. case map_of f (components p) of None \<Rightarrow> Inl 2 | Some st \<Rightarrow> Inr st),
     fs_readdir = (\<lambda>p f. case map_of f (components p) of
         Some (True, _) \<Rightarrow> Inr (ram_children f (components p)) | _ \<Rightarrow> Inl 20),
     fs_unlink = (\<lambda>p f. case map_of f (components p) of
         Some (False, _) \<Rightarrow> (None, ram_remove f (components p)) | _ \<Rightarrow> (Some 1, f)),
     fs_rmdir = (\<lambda>p f. case map_of f (components p) of
         Some (True, _) \<Rightarrow> if ram_children f (components p) = [] then (None, ram_remove f (components p)) else (Some 39, f)
       | _ \<Rightarrow> (Some 20, f)),
     fs_mkdir = (\<lambda>p f. (None, f @ [(components p, True, 0)])), fs_rename = (\<lambda>_ _ f. (Some 1, f)),
     fs_info = (\<lambda>_. None), fs_bus_init = Pair ESP_OK, fs_bus_free = (\<lambda>f. f), fs_mount = Pair ESP_OK,
     fs_unmount = (\<lambda>f. f)\<rparr>"

lemma ram_remove_map_of: "map_of (ram_remove f c) d = (if d = c then None else map_of f d)"
  by (induction f) (auto simp: ram_remove_def)

lemma ram_vfs_laws: "vfs_laws (\<lambda>w. w) ram_vfs"
proof -
  have names: "n \<noteq> [] \<and> slash \<notin> set n" if "(n, d) \<in> set (ram_children f c)" for n d f c
    using that by (auto simp: ram_children_def valid_name_def)
  show ?thesis unfolding vfs_laws_def
  proof (intro conjI allI impI, goal_cases)
    case (1 p q f)
    then show ?case by (auto simp: ram_vfs_def entry_def ram_remove_map_of split: option.splits bool.splits)
  next
    case (2 p q f)
    then show ?case by (auto simp: ram_vfs_def entry_def ram_remove_map_of split: option.splits bool.splits)
  next
    case (3 p q f)
    then show ?case by (simp add: ram_vfs_def entry_def)
  next
    case (4 p f f')
    then show ?case by (auto simp: ram_vfs_def ram_remove_map_of split: option.splits bool.splits if_splits)
  next
    case (5 p f es n d)
    then have "(n, d) \<in> set (ram_children f (components p))"
      by (auto simp: ram_vfs_def split: option.splits bool.splits)
    from names [OF this] show ?case by blast
  next
    case (6 p f es n d)
    then have "(n, d) \<in> set (ram_children f (components p))"
      by (auto simp: ram_vfs_def split: option.splits bool.splits)
    from names [OF this] show ?case by blast
  qed
qed

definition ram_rank :: "ram_card \<Rightarrow> string \<Rightarrow> nat" where
  "ram_rank f p = length (filter (\<lambda>e. prefix (components p) (fst e)) f)"

lemma ram_vfs_ranked: "tree_ranked ram_vfs ram_rank"
  unfolding tree_ranked_def
proof (intro conjI allI impI, goal_cases)
  case (1 p f es n d)
  then obtain k where dir: "map_of f (components p) = Some (True, k)" and es: "es = ram_children f (components p)"
    by (auto simp: ram_vfs_def split: option.splits bool.splits)
  have n: "valid_name n" using 1 es by (auto simp: ram_children_def)
  let ?Q = "\<lambda>e :: string list \<times> bool \<times> u64. prefix (components p) (fst e)" and ?P = "\<lambda>e :: string list \<times> bool \<times> u64. prefix (components p @ [n]) (fst e)"
  have "filter ?P f = filter ?P (filter ?Q f)" by (auto simp: filter_filter intro!: filter_cong dest: append_prefixD)
  moreover have "length (filter ?P (filter ?Q f)) < length (filter ?Q f)"
    by (rule length_filter_less [of "(components p, True, k)"]) (use map_of_SomeD [OF dir] in auto)
  ultimately show ?case using n by (simp add: ram_rank_def components_child components_name valid_name_def)
next
  case (2 p q f)
  have "ram_rank (ram_remove f c) q \<le> ram_rank f q" for c
    by (simp add: ram_rank_def ram_remove_def filter_filter) (induction f, auto)
  then show ?case by (auto simp: ram_vfs_def split: option.splits bool.splits)
next
  case (3 p q f)
  have "ram_rank (ram_remove f c) q \<le> ram_rank f q" for c
    by (simp add: ram_rank_def ram_remove_def filter_filter) (induction f, auto)
  then show ?case by (auto simp: ram_vfs_def split: option.splits bool.splits)
qed

definition ram_card_full :: ram_card where
  "ram_card_full = [([''sdcard''], True, 0), ([''sdcard'', ''logs''], True, 0), ([''sdcard'', ''logs'', ''a.txt''], False, 7),
     ([''sdcard'', ''rawdata''], True, 0), ([''sdcard'', ''rawdata'', ''b.rnx''], False, 5),
     ([''sdcard'', ''old''], True, 0), ([''sdcard'', ''old'', ''x''], False, 3)]"

lemma ram_delete_run:
  "delete_paths 4 ram_vfs True [Some ''/sdcard/logs/'', Some ''/sdcard/old''] (0, ram_card_full) =
     Some (\<lparr>dr_requested = 2, dr_deleted = 3, dr_failed = 0, dr_skipped = 1, dr_first_error = []\<rparr>, 3,
       [([''sdcard''], True, 0), ([''sdcard'', ''logs''], True, 0), ([''sdcard'', ''rawdata''], True, 0),
        ([''sdcard'', ''rawdata'', ''b.rnx''], False, 5)])"
  by code_simp

lemma batch_refused_untouched_witness:
  "map_option (snd \<circ> snd) (delete_paths 4 ram_vfs True [Some ''/sdcard/old'', Some ''/sdcard/../etc''] (0, ram_card_full))
    = Some ram_card_full"
proof -
  have "refused (Some ''/sdcard/../etc'')" by code_simp
  then have "\<exists>p \<in> set [Some ''/sdcard/old'', Some ''/sdcard/../etc'']. refused p" by simp
  from batch_refused_untouched [OF this, of 4 ram_vfs True 0 ram_card_full] show ?thesis by auto
qed

lemma delete_paths_spares_witness:
  "let f' = snd (snd (the (delete_paths 4 ram_vfs True [Some ''/sdcard/logs/'', Some ''/sdcard/old''] (0, ram_card_full))))
   in fs_stat ram_vfs ''/sdcard/logs'' f' = Inr (True, 0) \<and>
      fs_stat ram_vfs ''/sdcard/rawdata/b.rnx'' f' = Inr (False, 5)"
proof -
  let ?f' = "[([''sdcard''], True, 0), ([''sdcard'', ''logs''], True, 0), ([''sdcard'', ''rawdata''], True, 0),
    ([''sdcard'', ''rawdata'', ''b.rnx''], False, 5)]"
  have can: "canonical ''/sdcard/logs/''" "canonical ''/sdcard/old''" by code_simp+
  have stat: "fs_stat ram_vfs ''/sdcard/logs'' ram_card_full = Inr (True, 0)" by code_simp
  have "fs_stat ram_vfs ''/sdcard/logs'' ?f' = fs_stat ram_vfs ''/sdcard/logs'' ram_card_full"
    by (rule delete_paths_spares [OF ram_vfs_laws ram_delete_run]) (use can stat in auto)
  moreover have "fs_stat ram_vfs ''/sdcard/rawdata/b.rnx'' ?f' = fs_stat ram_vfs ''/sdcard/rawdata/b.rnx'' ram_card_full"
  proof (rule delete_paths_spares [OF ram_vfs_laws ram_delete_run])
    have "plain ''/sdcard/rawdata/b.rnx''"
      "\<not> prefix (entry (\<lambda>w. w) ''/sdcard/logs/'') (entry (\<lambda>w. w) ''/sdcard/rawdata/b.rnx'')"
      "\<not> prefix (entry (\<lambda>w. w) ''/sdcard/old'') (entry (\<lambda>w. w) ''/sdcard/rawdata/b.rnx'')" by code_simp+
    then show "''/sdcard/rawdata/b.rnx'' \<in> {''/sdcard'', ''/sdcard/logs'', ''/sdcard/rawdata''} \<and>
        (\<exists>n. fs_stat ram_vfs ''/sdcard/rawdata/b.rnx'' ram_card_full = Inr (True, n)) \<or>
      plain ''/sdcard/rawdata/b.rnx'' \<and> (\<forall>p. Some p \<in> set [Some ''/sdcard/logs/'', Some ''/sdcard/old''] \<longrightarrow>
        \<not> prefix (entry (\<lambda>w. w) p) (entry (\<lambda>w. w) ''/sdcard/rawdata/b.rnx''))" by auto
  qed (use can in auto)
  moreover have "fs_stat ram_vfs ''/sdcard/rawdata/b.rnx'' ram_card_full = Inr (False, 5)" by code_simp
  ultimately show ?thesis by (simp only: ram_delete_run stat option.sel snd_conv Let_def)
qed

lemma delete_paths_returns_witness:
  "\<exists>r. delete_paths 4 ram_vfs True [Some ''/sdcard/logs/'', Some ''/sdcard/old''] (0, ram_card_full) = Some r"
proof -
  have "ram_rank ram_card_full ''/sdcard/logs/'' < 4" "ram_rank ram_card_full ''/sdcard/old'' < 4" by code_simp+
  then have "\<forall>p. Some p \<in> set [Some ''/sdcard/logs/'', Some ''/sdcard/old''] \<longrightarrow> ram_rank ram_card_full p < 4" by auto
  from delete_paths_returns [OF ram_vfs_ranked this TrueI, of 0] show ?thesis by blast
qed

lemma list_dir_is_json_array_witness:
  "\<exists>es. fs_readdir ram_vfs ''/sdcard/old'' ram_card_full = Inr es \<and>
    the (list_dir ram_vfs (\<lambda>_. True) True (Some ''/sdcard/old'') ram_card_full) =
      ''['' @ comma_separated (map (entry_json ram_vfs ''/sdcard/old'' ram_card_full) (shown es)) @ '']''"
proof -
  have "list_dir ram_vfs (\<lambda>_. True) True (Some ''/sdcard/old'') ram_card_full \<noteq> None" by code_simp
  then obtain t where t: "list_dir ram_vfs (\<lambda>_. True) True (Some ''/sdcard/old'') ram_card_full = Some t" by blast
  from list_dir_is_json_array [OF t] t show ?thesis by auto
qed

end
