(* ===== verification/SdDelete.thy ===== *)
theory SdDelete
  imports SdManager
begin

text \<open>
  The bulk-delete job of \<open>main/sd_delete.cpp\<close>: the single job shared by the web server and the
  touch screen, its worker, the progress snapshot, and the guard for the RINEX file being
  written. The card operations are those of \<open>SdManager\<close>; the status of the logger is an
  argument (\<open>None\<close> while no station is bound).
\<close>

subsection \<open>The job\<close>

datatype job_state = JobIdle | JobRunning | JobDoneOk | JobDoneFail

record sd_job =
  sj_state :: job_state
  sj_done :: u32
  sj_total :: u32
  sj_result :: delete_result
  sj_paths :: "string list"

definition sd_job_init :: sd_job where
  "sd_job_init = \<lparr>sj_state = JobIdle, sj_done = 0, sj_total = 0, sj_result = delete_result_init, sj_paths = []\<rparr>"

record sd_progress =
  sp_state :: job_state
  sp_done :: u32
  sp_total :: u32
  sp_result :: delete_result

definition job_preview ::
    "nat \<Rightarrow> 'f vfs \<Rightarrow> bool option \<Rightarrow> string option list \<Rightarrow> 'f \<Rightarrow> delete_preview option" where
  "job_preview fuel v sd paths f =
     (case sd of None \<Rightarrow> Some delete_preview_init | Some mounted \<Rightarrow> preview_delete_many fuel v mounted paths f)"

text \<open>The status of the logger: whether it is active, and the file it writes.\<close>

definition kActiveFile :: string where
  "kActiveFile = ''Cannot delete '' @ [CHR 0xE2, CHR 0x80, CHR 0x94] @
     '' RINEX logging is writing this file. Stop logging in System first.''"

definition names_file :: "string \<Rightarrow> string \<Rightarrow> bool" where
  "names_file af p \<longleftrightarrow> af = p \<or> length p < length af \<and> take (length p) af = p \<and> af ! length p = slash"

text \<open>The refusal message (\<open>None\<close> when nothing is blocked).\<close>

definition blocks_active_file :: "(bool \<times> string) option \<Rightarrow> string option list \<Rightarrow> string option" where
  "blocks_active_file rinex paths =
     (case rinex of
        None \<Rightarrow> None
      | Some (active, af) \<Rightarrow>
          if \<not> active \<or> af = [] then None
          else if list_ex (\<lambda>p. case p of None \<Rightarrow> False | Some p \<Rightarrow> names_file af p) paths
          then Some kActiveFile else None)"

definition job_busy :: "sd_job \<Rightarrow> bool" where
  "job_busy j \<longleftrightarrow> sj_state j = JobRunning"

text \<open>The checks of \<open>start\<close>, and the rest of it. \<open>task_ok\<close> is whether the worker was created.\<close>

definition job_may_start :: "bool option \<Rightarrow> (bool \<times> string) option \<Rightarrow> string option list \<Rightarrow> sd_job \<Rightarrow> bool" where
  "job_may_start sd rinex paths j \<longleftrightarrow>
     sd = Some True \<and> \<not> job_busy j \<and> blocks_active_file rinex paths = None"

definition job_launch ::
    "nat \<Rightarrow> 'f vfs \<Rightarrow> bool \<Rightarrow> string option list \<Rightarrow> bool \<Rightarrow> sd_job \<Rightarrow> 'f \<Rightarrow> (bool \<times> sd_job) option" where
  "job_launch fuel v mounted paths task_ok j f =
     (let j = j\<lparr>sj_paths := map the (filter (\<lambda>p. p \<noteq> None) paths)\<rparr> in
      if sj_paths j = [] then Some (False, j)
      else case preview_delete_many fuel v mounted paths f of
        None \<Rightarrow> None
      | Some pv \<Rightarrow>
          let j = j\<lparr>sj_total := dp_files pv + dp_dirs pv, sj_done := 0, sj_result := delete_result_init,
                    sj_state := JobRunning\<rparr>
          in if \<not> task_ok then Some (False, j\<lparr>sj_state := JobIdle\<rparr>) else Some (True, j))"

definition job_start ::
    "nat \<Rightarrow> 'f vfs \<Rightarrow> bool option \<Rightarrow> (bool \<times> string) option \<Rightarrow> string option list \<Rightarrow> bool \<Rightarrow> sd_job \<Rightarrow> 'f \<Rightarrow>
     (bool \<times> sd_job) option" where
  "job_start fuel v sd rinex paths task_ok j f =
     (if \<not> job_may_start sd rinex paths j then Some (False, j)
      else job_launch fuel v True paths task_ok j f)"

definition delete_task :: "nat \<Rightarrow> 'f vfs \<Rightarrow> bool \<Rightarrow> sd_job \<Rightarrow> 'f \<Rightarrow> (sd_job \<times> 'f) option" where
  "delete_task fuel v mounted j f =
     map_option (\<lambda>(res, done_count, f).
         (j\<lparr>sj_done := done_count, sj_result := res,
            sj_state := (if 0 < dr_failed res then JobDoneFail else JobDoneOk)\<rparr>, f))
       (delete_paths fuel v mounted (map Some (sj_paths j)) (sj_done j, f))"

definition job_poll :: "sd_job \<Rightarrow> sd_progress" where
  "job_poll j =
     \<lparr>sp_state = sj_state j, sp_done = sj_done j, sp_total = sj_total j,
      sp_result = (if sj_state j = JobDoneOk \<or> sj_state j = JobDoneFail then sj_result j else delete_result_init)\<rparr>"

subsection \<open>One caller at a time\<close>

text \<open>
  The job, the workers alive, and the card. Callers that do not overlap, the worker, and any
  other change of the card.
\<close>

inductive job_step :: "nat \<Rightarrow> 'f vfs \<Rightarrow> sd_job \<times> nat \<times> 'f \<Rightarrow> sd_job \<times> nat \<times> 'f \<Rightarrow> bool" for fuel v where
  Start: "job_start fuel v sd rinex paths task_ok j f = Some (ok, j') \<Longrightarrow>
    job_step fuel v (j, w, f) (j', if ok then w + 1 else w, f)"
| Work: "0 < w \<Longrightarrow> delete_task fuel v mounted j f = Some (j', f') \<Longrightarrow> job_step fuel v (j, w, f) (j', w - 1, f')"
| Card: "job_step fuel v (j, w, f) (j, w, f')"

inductive_cases job_stepE: "job_step fuel v s t"

definition job_inv :: "sd_job \<times> nat \<times> 'f \<Rightarrow> bool" where
  "job_inv s = (case s of (j, w, _) \<Rightarrow>
     w = (if sj_state j = JobRunning then 1 else 0) \<and>
     (sj_state j = JobDoneOk \<longrightarrow> dr_failed (sj_result j) = 0) \<and>
     (sj_state j = JobDoneFail \<longrightarrow> dr_failed (sj_result j) \<noteq> 0))"

lemma job_start_inv:
  assumes "job_start fuel v sd rinex paths task_ok j f = Some (ok, j')" "job_inv (j, w, f)"
  shows "job_inv (j', if ok then w + 1 else w, f)"
  using assms
  by (auto simp: job_start_def job_launch_def job_inv_def job_may_start_def job_busy_def Let_def
      split: if_splits option.splits)

lemma delete_task_inv:
  assumes "delete_task fuel v mounted j f = Some (j', f')" "job_inv (j, w, f)" "0 < w"
  shows "job_inv (j', w - 1, f')"
proof -
  obtain res n where "j' = j\<lparr>sj_done := n, sj_result := res,
      sj_state := (if 0 < dr_failed res then JobDoneFail else JobDoneOk)\<rparr>"
    using assms(1) by (auto simp: delete_task_def)
  then show ?thesis using assms(2,3) by (auto simp: job_inv_def word_greater_zero_iff)
qed

interpretation job_tasks: transition_system "job_step fuel v" job_inv for fuel v
proof
  fix s t assume inv: "job_inv s" and "job_step fuel v s t"
  from this(2) show "job_inv t"
  proof cases
    case (Start sd rinex paths task_ok j f ok j' w)
    then show ?thesis using inv job_start_inv [OF Start(3), of w] by simp
  next
    case (Work w mounted j f j' f')
    then show ?thesis using inv delete_task_inv [OF Work(4), of w] Work(3) by simp
  next
    case (Card j w f f')
    then show ?thesis using inv by (simp add: job_inv_def)
  qed
qed

subsection \<open>Properties\<close>

text \<open>
  With callers that do not overlap there is never more than one worker, the job reads as
  running exactly while there is one, and a finished job is reported as failed exactly when some
  entry could not be removed.
\<close>

theorem single_delete_job:
  assumes "rtranclp (job_step fuel v) (sd_job_init, 0, f0) (j, w, f)"
  shows "w \<le> 1 \<and> (job_busy j \<longleftrightarrow> w = 1) \<and>
    (sp_state (job_poll j) = JobDoneFail \<longleftrightarrow>
      sp_state (job_poll j) \<in> {JobDoneOk, JobDoneFail} \<and> dr_failed (sp_result (job_poll j)) \<noteq> 0)"
proof -
  have "job_inv (sd_job_init, 0, f0)" by (simp add: job_inv_def sd_job_init_def)
  then have "job_inv (j, w, f)" using job_tasks.reachable_inv [OF assms] by blast
  then show ?thesis by (auto simp: job_inv_def job_busy_def job_poll_def)
qed

text \<open>
  Callers that overlap can both pass the checks before either marks the job as running:
  then two workers run at once, over one shared list of paths.
\<close>

theorem overlapping_starts_run_twice:
  assumes "job_may_start sd rinex_a paths_a j" and "job_may_start sd rinex_b paths_b j"
    and "job_launch fuel v True paths_a True j f = Some (ok_a, ja)" and "job_launch fuel v True paths_b True ja f = Some (ok_b, jb)"
    and "Some a \<in> set paths_a" and "Some b \<in> set paths_b"
  shows "ok_a \<and> ok_b \<and> sj_paths jb = map the (filter (\<lambda>p. p \<noteq> None) paths_b)"
proof -
  have "filter (\<lambda>p. p \<noteq> None) ps \<noteq> []" if "Some p \<in> set ps" for p and ps :: "string option list"
    using that by (auto simp: filter_empty_conv)
  then show ?thesis using assms(3-6)
    by (auto simp: job_launch_def Let_def split: option.splits if_splits)
qed

lemma names_file_prefix:
  assumes "p = render (components p)" "af = render (components af)" "prefix (components p) (components af)"
  shows "names_file af p"
proof -
  obtain ws where ws: "components af = components p @ ws" using assms(3) by (auto simp: prefix_def)
  have af: "af = p @ render ws" using assms(1,2) by (simp add: ws render_def)
  show ?thesis
  proof (cases ws)
    case Nil
    then show ?thesis using af by (simp add: names_file_def render_def)
  next
    case (Cons w vs)
    then have "render ws = slash # w @ render vs" by (simp add: render_def)
    then show ?thesis unfolding names_file_def af by simp
  qed
qed


text \<open>
  A slash at the end defeats the guard: the directory of the file being written is then
  neither recognised as containing it nor refused as a path to delete.
\<close>

theorem trailing_slash_unguarded:
  "blocks_active_file (Some (True, ''/sdcard/rawdata/a.rnx'')) [Some ''/sdcard/rawdata/''] = None \<and>
   \<not> refused (Some ''/sdcard/rawdata/'') \<and>
   prefix (components ''/sdcard/rawdata/'') (components ''/sdcard/rawdata/a.rnx'')"
  by code_simp

lemma single_delete_job_witness:
  "\<exists>j. job_start 4 ram_vfs (Some True) None [Some ''/sdcard/old''] True sd_job_init ram_card_full = Some (True, j) \<and> job_busy j"
proof -
  have "(case job_start 4 ram_vfs (Some True) None [Some ''/sdcard/old''] True sd_job_init ram_card_full of
      Some (ok, j) \<Rightarrow> ok | None \<Rightarrow> False)" by code_simp
  then obtain j where r: "job_start 4 ram_vfs (Some True) None [Some ''/sdcard/old''] True sd_job_init ram_card_full = Some (True, j)"
    by (auto split: option.splits)
  have "rtranclp (job_step 4 ram_vfs) (sd_job_init, 0, ram_card_full) (j, 1, ram_card_full)"
    using job_step.Start [OF r, of 0] by auto
  from single_delete_job [OF this] r show ?thesis by auto
qed

lemma overlapping_starts_run_twice_witness:
  "let a = [Some ''/sdcard/old'']; b = [Some ''/sdcard/logs'']
   in \<exists>ja jb. job_launch 4 ram_vfs True a True sd_job_init ram_card_full = Some (True, ja) \<and>
     job_launch 4 ram_vfs True b True ja ram_card_full = Some (True, jb) \<and> sj_paths jb = [''/sdcard/logs'']"
proof -
  let ?a = "[Some ''/sdcard/old'']" and ?b = "[Some ''/sdcard/logs'']"
  have may: "job_may_start (Some True) None ?a sd_job_init" "job_may_start (Some True) None ?b sd_job_init"
    by (simp_all add: job_may_start_def job_busy_def sd_job_init_def blocks_active_file_def)
  have "preview_delete_many 4 ram_vfs True ?a ram_card_full \<noteq> None" "preview_delete_many 4 ram_vfs True ?b ram_card_full \<noteq> None"
    by code_simp+
  then obtain oka ja okb jb where r: "job_launch 4 ram_vfs True ?a True sd_job_init ram_card_full = Some (oka, ja)"
    "job_launch 4 ram_vfs True ?b True ja ram_card_full = Some (okb, jb)"
    by (auto simp: job_launch_def Let_def)
  from overlapping_starts_run_twice [OF may r, of "''/sdcard/old''" "''/sdcard/logs''"] r show ?thesis by auto
qed


end
