(* ===== verification/RinexSat.thy ===== *)
theory RinexSat
  imports CText
begin

text \<open>
  The satellite tables of the RINEX logger: the constellations of
  \<open>src/main/rinex_satid.h\<close> with their identifiers and observation codes, and the mapping of
  a tracked signal to a frequency band (\<open>signal_band\<close> of \<open>src/main/rinex_logger.cpp\<close>). The
  lemmas show that an identifier names exactly one constellation and stays in its legal range.
\<close>

subsection \<open>Constellations\<close>

text \<open>\<open>enum SatSystem : uint8_t\<close>, by number.\<close>

definition kSysGps :: int where "kSysGps = 0"
definition kSysGlo :: int where "kSysGlo = 1"
definition kSysSbas :: int where "kSysSbas = 2"
definition kSysGal :: int where "kSysGal = 3"
definition kSysBds :: int where "kSysBds = 4"
definition kSysQzss :: int where "kSysQzss = 5"

lemmas sys_numbers = kSysGps_def kSysGlo_def kSysSbas_def kSysGal_def kSysBds_def kSysQzss_def

record system_def =
  sy_sys :: int
  sy_code :: char
  sy_max_prn :: int
  sy_offset :: int
  sy_threshold :: int
  sy_obs :: string
  sy_nobs :: nat

definition systems :: "system_def list" where
  "systems =
    [\<lparr>sy_sys = kSysGps, sy_code = CHR ''G'', sy_max_prn = 32, sy_offset = 0, sy_threshold = 100000,
      sy_obs = ''C1C L1C D1C S1C C2W L2W D2W S2W C5Q L5Q D5Q S5Q'', sy_nobs = 12\<rparr>,
     \<lparr>sy_sys = kSysGlo, sy_code = CHR ''R'', sy_max_prn = 24, sy_offset = 37, sy_threshold = 38,
      sy_obs = ''C1C L1C D1C S1C C2C L2C D2C S2C'', sy_nobs = 8\<rparr>,
     \<lparr>sy_sys = kSysGal, sy_code = CHR ''E'', sy_max_prn = 36, sy_offset = 0, sy_threshold = 100000,
      sy_obs = ''C1C L1C D1C S1C C5Q L5Q D5Q S5Q'', sy_nobs = 8\<rparr>,
     \<lparr>sy_sys = kSysBds, sy_code = CHR ''C'', sy_max_prn = 63, sy_offset = 140, sy_threshold = 141,
      sy_obs = ''C2I L2I D2I S2I C6I L6I D6I S6I'', sy_nobs = 8\<rparr>,
     \<lparr>sy_sys = kSysQzss, sy_code = CHR ''J'', sy_max_prn = 10, sy_offset = 192, sy_threshold = 193,
      sy_obs = ''C1C L1C D1C S1C C2L L2L D2L S2L'', sy_nobs = 8\<rparr>]"

definition system_bands :: "system_def option \<Rightarrow> nat" where
  "system_bands d = (case d of Some s \<Rightarrow> sy_nobs s div 4 | None \<Rightarrow> 0)"

definition find_system :: "int \<Rightarrow> system_def option" where
  "find_system sys = find (\<lambda>d. sy_sys d = sys mod 256) systems"

text \<open>\<open>%02d\<close> of a number below 100 that is not negative.\<close>

definition two_digits :: "int \<Rightarrow> string" where
  "two_digits n = pad_left (CHR ''0'') 2 (dec_int n)"

definition format_sat_id :: "int \<Rightarrow> int \<Rightarrow> string option" where
  "format_sat_id sys raw_prn =
     (case find_system sys of
        None \<Rightarrow> None
      | Some d \<Rightarrow>
          (let prn = (if sy_threshold d \<le> raw_prn then raw_prn - sy_offset d else raw_prn) in
           if prn < 1 \<or> sy_max_prn d < prn then None
           else Some (sy_code d # two_digits (prn mod 100))))"

subsection \<open>Signals\<close>

text \<open>\<open>signal_band\<close>: the band and the rank within it, or nothing for a signal that is not carried.\<close>

definition signal_band :: "int \<Rightarrow> int \<Rightarrow> (nat \<times> int) option" where
  "signal_band sys sig =
     (if sys = 0 then
        (if sig = 0 then Some (0, 10)
         else if sig = 16 then Some (0, 5)
         else if sig = 5 then Some (1, 10)
         else if sig = 9 then Some (1, 6)
         else if sig = 17 then Some (1, 5)
         else if sig = 14 then Some (2, 10)
         else None)
      else if sys = 1 then
        (if sig = 0 then Some (0, 10) else if sig = 5 then Some (1, 10) else None)
      else if sys = 3 then
        (if sig = 2 then Some (0, 10) else if sig = 12 then Some (1, 10) else None)
      else if sys = 4 then
        (if sig = 0 then Some (0, 10) else if sig = 21 then Some (1, 10) else None)
      else None)"

subsection \<open>Facts about the tables\<close>

lemma systems_set:
  "d \<in> set systems \<Longrightarrow>
     (sy_sys d, sy_code d, sy_max_prn d, sy_nobs d) \<in>
       {(0, CHR ''G'', 32, 12), (1, CHR ''R'', 24, 8), (3, CHR ''E'', 36, 8),
        (4, CHR ''C'', 63, 8), (5, CHR ''J'', 10, 8)}"
proof -
  have "list_all (\<lambda>d. (sy_sys d, sy_code d, sy_max_prn d, sy_nobs d) \<in>
       {(0, CHR ''G'', 32, 12), (1, CHR ''R'', 24, 8), (3, CHR ''E'', 36, 8),
        (4, CHR ''C'', 63, 8), (5, CHR ''J'', 10, 8)}) systems"
    by code_simp
  then show "d \<in> set systems \<Longrightarrow> (sy_sys d, sy_code d, sy_max_prn d, sy_nobs d) \<in>
       {(0, CHR ''G'', 32, 12), (1, CHR ''R'', 24, 8), (3, CHR ''E'', 36, 8),
        (4, CHR ''C'', 63, 8), (5, CHR ''J'', 10, 8)}" by (simp only: list_all_iff)
qed

lemma find_system_mem: "find_system sys = Some d \<Longrightarrow> d \<in> set systems \<and> sy_sys d = sys mod 256"
  by (auto simp: find_system_def find_Some_iff)

lemma systems_unique:
  "d \<in> set systems \<Longrightarrow> e \<in> set systems \<Longrightarrow> sy_sys d = sy_sys e \<or> sy_code d = sy_code e \<Longrightarrow> d = e"
proof -
  have "list_all (\<lambda>d. list_all (\<lambda>e. sy_sys d = sy_sys e \<or> sy_code d = sy_code e \<longrightarrow> d = e) systems) systems"
    by code_simp
  then show "d \<in> set systems \<Longrightarrow> e \<in> set systems \<Longrightarrow> sy_sys d = sy_sys e \<or> sy_code d = sy_code e \<Longrightarrow> d = e"
    unfolding list_all_iff by blast
qed

lemma find_system_iff: "find_system sys = Some d \<longleftrightarrow> d \<in> set systems \<and> sy_sys d = sys mod 256"
proof
  assume d: "d \<in> set systems \<and> sy_sys d = sys mod 256"
  then obtain e where e: "find_system sys = Some e"
    by (metis (mono_tags, lifting) find_None_iff find_system_def not_None_eq)
  then show "find_system sys = Some d"
    using d find_system_mem [OF e] systems_unique by metis
qed (rule find_system_mem)

lemma two_digits_eq:
  assumes "0 \<le> n" "n < 100"
  shows "two_digits n = [digit_char (nat n div 10), digit_char (nat n mod 10)]"
proof (cases "n < 10")
  case True
  have "digit_char 0 = CHR ''0''" by code_simp
  then show ?thesis using assms True
    by (simp add: two_digits_def pad_left_def dec_int_def dec_nat.simps)
next
  case False
  then have "nat n div 10 < 10" "\<not> nat n < 10" using assms by linarith+
  then show ?thesis using assms
    by (simp add: two_digits_def pad_left_def dec_int_def dec_nat.simps [of "nat n"]
        dec_nat.simps [of "nat n div 10"])
qed

lemma length_two_digits [simp]: "0 \<le> n \<Longrightarrow> n < 100 \<Longrightarrow> length (two_digits n) = 2"
  by (simp add: two_digits_eq)

lemma format_sat_id_Some:
  assumes "format_sat_id sys raw = Some i"
  obtains d n where "find_system sys = Some d" "1 \<le> n" "n \<le> sy_max_prn d" "n < 100"
    "i = sy_code d # two_digits n"
    "n = (if sy_threshold d \<le> raw then raw - sy_offset d else raw)"
proof -
  obtain d where d: "find_system sys = Some d"
    using assms by (auto simp: format_sat_id_def split: option.splits)
  have "sy_max_prn d < 100" using systems_set [of d] find_system_mem [OF d] by auto
  then show thesis using assms d that [of d]
    by (simp add: format_sat_id_def Let_def split: if_splits)
qed

lemma length_sat_id: "format_sat_id sys raw = Some i \<Longrightarrow> length i = 3"
  by (erule format_sat_id_Some) simp

lemma signal_band_less: "signal_band sys sig = Some (b, p) \<Longrightarrow> b < 3 \<and> 0 < p"
  by (auto simp: signal_band_def split: if_splits)

text \<open>A band a signal is put into is one the header of its constellation declares.\<close>

lemma signal_band_declared:
  assumes "signal_band sys sig = Some (b, p)" "find_system sys = Some d"
  shows "b < system_bands (Some d)"
  using assms systems_set [of d] find_system_mem [OF assms(2)]
  by (auto simp: signal_band_def system_bands_def split: if_splits)

subsection \<open>Identifiers\<close>

text \<open>
  A satellite identifier names the constellation the receiver reported and a satellite
  number inside that constellation's range: reading the letter and the two digits back gives
  the constellation's entry of the table, a number between 1 and its upper bound, and that
  number is the receiver's own or the receiver's less the offset. In particular nothing but a
  GPS satellite is ever written with the letter G.
\<close>

theorem sat_id_names_its_constellation:
  assumes "format_sat_id sys raw = Some i"
  shows "\<exists>d n. d \<in> set systems \<and> sy_sys d = sys mod 256 \<and> i = sy_code d # two_digits n \<and>
      1 \<le> n \<and> n \<le> sy_max_prn d \<and> (n = raw \<or> n = raw - sy_offset d) \<and>
      digits_value 10 (tl i) = nat n \<and>
      (\<forall>e. e \<in> set systems \<longrightarrow> sy_code e = hd i \<longrightarrow> e = d)"
proof -
  from assms obtain d n where *: "find_system sys = Some d" "1 \<le> n" "n \<le> sy_max_prn d" "n < 100"
    "i = sy_code d # two_digits n"
    "n = (if sy_threshold d \<le> raw then raw - sy_offset d else raw)"
    by (rule format_sat_id_Some)
  have "nat n div 10 < 10" using *(4) by linarith
  then have "digits_value 10 (two_digits n) = nat n"
    using * by (simp add: two_digits_eq digits_value_def)
  moreover have "\<forall>e. e \<in> set systems \<longrightarrow> sy_code e = hd i \<longrightarrow> e = d"
    using systems_unique [of _ d] find_system_mem [OF *(1)] *(5) by simp
  ultimately show ?thesis using * find_system_mem [OF *(1)] by (intro exI [of _ d] exI [of _ n]) auto
qed

lemma sat_id_names_its_constellation_witness:
  "\<exists>d n. d \<in> set systems \<and> sy_sys d = (1::int) mod 256 \<and> ''R05'' = sy_code d # two_digits n \<and>
      1 \<le> n \<and> n \<le> sy_max_prn d \<and> (n = 42 \<or> n = 42 - sy_offset d) \<and>
      digits_value 10 (tl ''R05'') = nat n \<and>
      (\<forall>e. e \<in> set systems \<longrightarrow> sy_code e = hd ''R05'' \<longrightarrow> e = d)"
  by (rule sat_id_names_its_constellation) code_simp

end
