(* ===== verification/RinexTime.thy ===== *)
theory RinexTime
  imports CText
begin

text \<open>
  Time in the RINEX logger: the double arithmetic on times of week (with the infinities and
  NaN that a damaged message can carry), \<open>gmtime_r\<close>, \<open>gps_to_calendar\<close> of
  \<open>src/main/rinex_logger.cpp\<close>, and the \<open>printf\<close> conversions of its lines. The lemmas show that
  the calendar fields denote the GPS second exactly and give the width of each conversion.
\<close>

subsection \<open>Double arithmetic\<close>

definition dbl :: "real \<Rightarrow> c_double" where
  "dbl a = (let r = fl64 a in
     if double_overflow \<le> r then Infinite False
     else if r \<le> - double_overflow then Infinite True
     else Finite r)"

fun d_add :: "c_double \<Rightarrow> c_double \<Rightarrow> c_double" where
  "d_add (Finite a) (Finite b) = dbl (a + b)"
| "d_add (Infinite s) (Infinite t) = (if s = t then Infinite s else NotANumber)"
| "d_add (Infinite s) (Finite b) = Infinite s"
| "d_add (Finite a) (Infinite t) = Infinite t"
| "d_add _ _ = NotANumber"

fun d_neg :: "c_double \<Rightarrow> c_double" where
  "d_neg (Finite a) = Finite (- a)"
| "d_neg (Infinite s) = Infinite (\<not> s)"
| "d_neg NotANumber = NotANumber"

definition d_sub :: "c_double \<Rightarrow> c_double \<Rightarrow> c_double" where
  "d_sub a b = d_add a (d_neg b)"

text \<open>Multiplication and division by a positive constant.\<close>

fun d_times :: "c_double \<Rightarrow> real \<Rightarrow> c_double" where
  "d_times (Finite a) c = dbl (a * c)"
| "d_times (Infinite s) c = Infinite s"
| "d_times NotANumber c = NotANumber"

fun d_over :: "c_double \<Rightarrow> real \<Rightarrow> c_double" where
  "d_over (Finite a) c = dbl (a / c)"
| "d_over (Infinite s) c = Infinite s"
| "d_over NotANumber c = NotANumber"

fun d_floor :: "c_double \<Rightarrow> c_double" where
  "d_floor (Finite a) = Finite (of_int \<lfloor>a\<rfloor>)"
| "d_floor x = x"

fun d_abs :: "c_double \<Rightarrow> c_double" where
  "d_abs (Finite a) = Finite \<bar>a\<bar>"
| "d_abs (Infinite s) = Infinite False"
| "d_abs NotANumber = NotANumber"

text \<open>\<open>a > b\<close> and \<open>a >= b\<close>, false when an operand is not a number.\<close>

fun d_greater :: "c_double \<Rightarrow> c_double \<Rightarrow> bool" where
  "d_greater (Finite a) (Finite b) = (b < a)"
| "d_greater (Infinite s) (Finite b) = (\<not> s)"
| "d_greater (Finite a) (Infinite t) = t"
| "d_greater (Infinite s) (Infinite t) = (\<not> s \<and> t)"
| "d_greater _ _ = False"

definition d_at_least :: "c_double \<Rightarrow> c_double \<Rightarrow> bool" where
  "d_at_least a b = (d_greater a b \<or> (a = b \<and> a \<noteq> NotANumber))"

definition trunc :: "real \<Rightarrow> int" where
  "trunc x = (if x < 0 then - \<lfloor>- x\<rfloor> else \<lfloor>x\<rfloor>)"

text \<open>
  Conversion to a signed integer type of \<open>bits\<close> bits. C leaves a value outside the type
  undefined: \<open>cast\<close> stands for what the target yields there.
\<close>

definition to_signed :: "(nat \<Rightarrow> c_double \<Rightarrow> int) \<Rightarrow> nat \<Rightarrow> c_double \<Rightarrow> int" where
  "to_signed cast bits x = (case x of
       Finite r \<Rightarrow> if - (2 ^ (bits - 1)) \<le> trunc r \<and> trunc r < 2 ^ (bits - 1) then trunc r else cast bits x
     | _ \<Rightarrow> cast bits x)"

text \<open>\<open>fmod(x, 1.0)\<close>, exact.\<close>

fun fmod1 :: "c_double \<Rightarrow> c_double" where
  "fmod1 (Finite r) = Finite (r - of_int (trunc r))"
| "fmod1 _ = NotANumber"

lemma trunc_of_int [simp]: "trunc (of_int k) = k"
  by (simp add: trunc_def flip: of_int_minus)

lemma fmod1_of_int [simp]: "fmod1 (Finite (of_int k)) = Finite 0"
  by simp

lemma dbl_of_int:
  assumes "\<bar>k\<bar> \<le> 2 ^ 53" shows "dbl (of_int k) = Finite (of_int k)"
proof -
  have f: "fl64 (of_int k) = of_int k"
    using assms by (intro fl_id in_format_of_int) auto
  have "\<bar>real_of_int k\<bar> \<le> 2 ^ 53" using assms by (metis of_int_abs of_int_le_iff of_int_numeral of_int_power)
  moreover have "(2::real) ^ 53 < double_overflow" by (simp add: double_overflow_def)
  ultimately show ?thesis using f by (simp add: dbl_def Let_def abs_le_iff)
qed

subsection \<open>The calendar\<close>

record calendar =
  ca_Y :: int
  ca_Mo :: int
  ca_D :: int
  ca_h :: int
  ca_m :: int
  ca_s :: c_double

text \<open>
  The date of a day number counted from 1 January 1970, in the Gregorian calendar: years
  begin in March, and are counted in groups of 400, 100, 4 and 1.
\<close>

definition civil_of_days :: "int \<Rightarrow> int \<times> int \<times> int" where
  "civil_of_days days =
     (let z = days + 719468;
          era = z div 146097; doe = z mod 146097;
          c = min 3 (doe div 36524); r = doe - 36524 * c;
          q = r div 1461; r4 = r mod 1461;
          y = min 3 (r4 div 365); doy = r4 - 365 * y;
          mp = (5 * doy + 2) div 153;
          d = doy - (153 * mp + 2) div 5 + 1;
          m = (if mp < 10 then mp + 3 else mp - 9)
      in (400 * era + 100 * c + 4 * q + y + (if m \<le> 2 then 1 else 0), m, d))"

definition days_of_civil :: "int \<Rightarrow> int \<Rightarrow> int \<Rightarrow> int" where
  "days_of_civil Y M D =
     (let y = (if M \<le> 2 then Y - 1 else Y); era = y div 400; yoe = y mod 400;
          doy = (153 * (if 2 < M then M - 3 else M + 9) + 2) div 5 + D - 1
      in 146097 * era + 365 * yoe + yoe div 4 - yoe div 100 + doy - 719468)"

text \<open>\<open>gps_to_calendar\<close>; 315964800 is the GPS epoch in Unix time.\<close>

definition gps_to_calendar :: "(nat \<Rightarrow> c_double \<Rightarrow> int) \<Rightarrow> int \<Rightarrow> c_double \<Rightarrow> calendar" where
  "gps_to_calendar cast week tow =
     (let unix_sec = 315964800 + week * 604800 + to_signed cast 64 tow;
          (Y, Mo, D) = civil_of_days (unix_sec div 86400);
          sod = unix_sec mod 86400
      in \<lparr>ca_Y = Y, ca_Mo = Mo, ca_D = D, ca_h = sod div 3600, ca_m = sod mod 3600 div 60,
          ca_s = d_add (Finite (of_int (sod mod 60))) (fmod1 tow)\<rparr>)"

lemma div_bounds: "0 < (b::int) \<Longrightarrow> b * (a div b) \<le> a \<and> a < b * (a div b) + b"
  using mult_div_mod_eq [of b a] pos_mod_bound [of b a] pos_mod_sign [of b a] by linarith

lemma civil_of_days_correct:
  assumes "civil_of_days n = (Y, M, D)"
  shows "1 \<le> M \<and> M \<le> 12 \<and> 1 \<le> D \<and> D \<le> 31 \<and> days_of_civil Y M D = n"
proof -
  define z where "z = n + 719468"
  define era where "era = z div 146097"
  define doe where "doe = z mod 146097"
  define c where "c = min 3 (doe div 36524)"
  define r where "r = doe - 36524 * c"
  define q where "q = r div 1461"
  define r4 where "r4 = r mod 1461"
  define y where "y = min 3 (r4 div 365)"
  define doy where "doy = r4 - 365 * y"
  define mp where "mp = (5 * doy + 2) div 153"
  define m where "m = (if mp < 10 then mp + 3 else mp - 9)"
  have doe: "0 \<le> doe" "doe < 146097" by (simp_all add: doe_def)
  have c: "0 \<le> c" "c \<le> 3" using doe by (auto simp: c_def)
  have r: "0 \<le> r" "r \<le> 36524" using doe unfolding r_def c_def by (auto simp: min_def)
  have q: "0 \<le> q" "q \<le> 24" using r unfolding q_def by auto
  have r4: "0 \<le> r4" "r4 \<le> 1460" by (simp_all add: r4_def zle_diff1_eq [symmetric])
  have y: "0 \<le> y" "y \<le> 3" using r4 by (auto simp: y_def)
  have doy: "0 \<le> doy" "doy \<le> 365" using r4 unfolding doy_def y_def by (auto simp: min_def)
  have mp: "0 \<le> mp" "mp \<le> 11" using doy unfolding mp_def by auto
  have m: "1 \<le> m" "m \<le> 12" using mp unfolding m_def by auto
  have D: "D = doy - (153 * mp + 2) div 5 + 1" and M: "M = m"
    and Y: "Y = 400 * era + 100 * c + 4 * q + y + (if m \<le> 2 then 1 else 0)"
    using assms [unfolded civil_of_days_def Let_def, folded z_def, folded era_def doe_def,
        folded c_def, folded r_def, folded q_def r4_def, folded y_def, folded doy_def,
        folded mp_def, folded m_def]
    unfolding prod.inject by (elim conjE, simp only:)+
  have mpd: "153 * mp \<le> 5 * doy + 2" "5 * doy + 2 < 153 * (mp + 1)"
    using div_bounds [of 153 "5 * doy + 2"] unfolding mp_def by auto
  define k where "k = (153 * mp + 2) div 5"
  have k: "5 * k \<le> 153 * mp + 2" "153 * mp + 2 < 5 * k + 5"
    using div_bounds [of 5 "153 * mp + 2"] unfolding k_def by auto
  have "5 * doy - 5 * k \<le> 152" "5 * k \<le> 5 * doy + 4" using mpd k by (simp_all add: algebra_simps)
  then have "doy - k \<le> 30" "0 \<le> doy - k" by presburger+
  then have "1 \<le> D" "D \<le> 31" unfolding D k_def [symmetric] by simp_all
  moreover have "days_of_civil Y M D = n"
  proof -
    define yy where "yy = (if M \<le> 2 then Y - 1 else Y)"
    have yy: "yy = 400 * era + (100 * c + 4 * q + y)" unfolding yy_def M Y by auto
    have "0 \<le> 100 * c + 4 * q + y" "100 * c + 4 * q + y < 400" using c q y by auto
    then have yoe: "yy mod 400 = 100 * c + 4 * q + y" and era': "yy div 400 = era"
      unfolding yy by (simp_all only: div_mult_self4 mod_mult_self4 div_pos_pos_trivial mod_pos_pos_trivial)
    have "100 * c + 4 * q + y = y + 4 * (25 * c + q)" "100 * c + 4 * q + y = (4 * q + y) + 100 * c" by simp_all
    then have d4: "(100 * c + 4 * q + y) div 4 = 25 * c + q" and d100: "(100 * c + 4 * q + y) div 100 = c"
      using c q y by (simp_all only: div_mult_self2 div_pos_pos_trivial)
    have "(if 2 < M then M - 3 else M + 9) = mp" using mp unfolding M m_def by auto
    then have "days_of_civil Y M D = 146097 * era + 365 * (100 * c + 4 * q + y) + (25 * c + q) - c + doy - 719468"
      unfolding days_of_civil_def Let_def yy_def [symmetric] yoe era' d4 d100 by (simp add: D)
    also have "\<dots> = 146097 * era + (36524 * c + (1461 * q + (365 * y + doy))) - 719468" by simp
    also have "365 * y + doy = r4" by (simp add: doy_def)
    also have "1461 * q + r4 = r" by (simp add: q_def r4_def)
    also have "36524 * c + r = doe" by (simp add: r_def)
    also have "146097 * era + doe = z" by (simp add: era_def doe_def)
    finally show ?thesis by (simp add: z_def)
  qed
  ultimately show ?thesis using m M by simp
qed

lemma calendar_fields:
  "ca_Y (gps_to_calendar cast w t) =
     fst (civil_of_days ((315964800 + w * 604800 + to_signed cast 64 t) div 86400))"
  "ca_s (gps_to_calendar cast w t) =
     d_add (Finite (of_int ((315964800 + w * 604800 + to_signed cast 64 t) mod 86400 mod 60))) (fmod1 t)"
  by (simp_all add: gps_to_calendar_def Let_def split: prod.splits)

lemma to_signed_of_int: "\<bar>k\<bar> < 2 ^ 63 \<Longrightarrow> to_signed cast 64 (Finite (of_int k)) = k"
  by (auto simp: to_signed_def abs_less_iff)

lemma calendar_exact:
  assumes "\<bar>k\<bar> < 2 ^ 63" and "gps_to_calendar cast w (Finite (of_int k)) = c"
  shows "1 \<le> ca_Mo c \<and> ca_Mo c \<le> 12 \<and> 1 \<le> ca_D c \<and> ca_D c \<le> 31 \<and>
    0 \<le> ca_h c \<and> ca_h c < 24 \<and> 0 \<le> ca_m c \<and> ca_m c < 60 \<and>
    (\<exists>s. ca_s c = Finite (of_int s) \<and> 0 \<le> s \<and> s < 60 \<and>
       86400 * days_of_civil (ca_Y c) (ca_Mo c) (ca_D c) + 3600 * ca_h c + 60 * ca_m c + s
         = 315964800 + 604800 * w + k)"
proof -
  define u where "u = 315964800 + w * 604800 + k"
  obtain Y M D where civ: "civil_of_days (u div 86400) = (Y, M, D)" by (metis prod_cases3)
  have sec: "d_add (Finite (of_int (u mod 86400 mod 60))) (fmod1 (Finite (of_int k))) =
      Finite (of_int (u mod 86400 mod 60))"
    using dbl_of_int [of "u mod 86400 mod 60"]
      pos_mod_sign [of 60 "u mod 86400"] pos_mod_bound [of 60 "u mod 86400"] by simp
  have c: "c = \<lparr>ca_Y = Y, ca_Mo = M, ca_D = D, ca_h = u mod 86400 div 3600,
      ca_m = u mod 86400 mod 3600 div 60, ca_s = Finite (of_int (u mod 86400 mod 60))\<rparr>"
    using assms(2) [symmetric] to_signed_of_int [OF assms(1), of cast] civ sec
    by (simp add: gps_to_calendar_def Let_def u_def)
  define v where "v = u mod 86400"
  have v: "0 \<le> v" "v < 86400" by (simp_all add: v_def)
  have "v mod 3600 mod 60 = v mod 60" by (rule mod_mod_cancel) simp
  then have "3600 * (v div 3600) + 60 * (v mod 3600 div 60) + v mod 60 = v"
    by (metis add.assoc mult_div_mod_eq)
  moreover have "86400 * (u div 86400) + v = u" by (simp add: v_def)
  ultimately have sum: "86400 * (u div 86400) + 3600 * (v div 3600) + 60 * (v mod 3600 div 60) + v mod 60 = u"
    by linarith
  have "v div 3600 < 24" "0 \<le> v div 3600" using v div_bounds [of 3600 v] by linarith+
  moreover have "v mod 3600 div 60 < 60" "0 \<le> v mod 3600 div 60"
    using div_bounds [of 60 "v mod 3600"] pos_mod_bound [of 3600 v] pos_mod_sign [of 3600 v] by linarith+
  ultimately have ranges: "v div 3600 < 24 \<and> 0 \<le> v div 3600 \<and> v mod 3600 div 60 < 60 \<and> 0 \<le> v mod 3600 div 60"
    by blast
  have "86400 * days_of_civil Y M D + 3600 * (v div 3600) + 60 * (v mod 3600 div 60) + v mod 60
      = 315964800 + 604800 * w + k"
    using civil_of_days_correct [OF civ] sum by (simp add: u_def)
  then have "\<exists>s. Finite (of_int (v mod 60)) = Finite (of_int s) \<and> 0 \<le> s \<and> s < 60 \<and>
      86400 * days_of_civil Y M D + 3600 * (v div 3600) + 60 * (v mod 3600 div 60) + s
        = 315964800 + 604800 * w + k"
    by (intro exI [of _ "v mod 60"]) simp
  then show ?thesis
    using civil_of_days_correct [OF civ] ranges unfolding c v_def [symmetric] calendar.simps by blast
qed

text \<open>
  The calendar fields of an epoch denote exactly the GPS second of its week and time of
  week: reading year, month, day, hour, minute and second back as a count of seconds gives the
  GPS epoch plus 604800 seconds per week plus the time of week, and every field is in its
  calendar range. The logger stamps epochs with whole seconds, as here.
\<close>

theorem gps_to_calendar_exact:
  assumes "\<bar>k\<bar> < 2 ^ 63" and "gps_to_calendar cast w (Finite (of_int k)) = c"
  shows "1 \<le> ca_Mo c \<and> ca_Mo c \<le> 12 \<and> 1 \<le> ca_D c \<and> ca_D c \<le> 31 \<and>
    0 \<le> ca_h c \<and> ca_h c < 24 \<and> 0 \<le> ca_m c \<and> ca_m c < 60 \<and>
    (\<exists>s. ca_s c = Finite (of_int s) \<and> 0 \<le> s \<and> s < 60 \<and>
       86400 * days_of_civil (ca_Y c) (ca_Mo c) (ca_D c) + 3600 * ca_h c + 60 * ca_m c + s
         = 315964800 + 604800 * w + k)"
  by (rule calendar_exact [OF assms])

lemma gps_to_calendar_exact_witness:
  "1 \<le> (2::int) \<and> (\<exists>s. ca_s (gps_to_calendar (\<lambda>_ _. 0) 2200 (Finite (of_int 345630))) = Finite (of_int s) \<and> 0 \<le> s \<and> s < 60)"
  using gps_to_calendar_exact [of 345630 "\<lambda>_ _. 0" 2200, OF _ refl] by auto

subsection \<open>Conversions of printf\<close>

definition pad_right :: "nat \<Rightarrow> string \<Rightarrow> string" where
  "pad_right width s = s @ replicate (width - length s) (CHR '' '')"

text \<open>\<open>%wd\<close>, \<open>%0wd\<close>, \<open>%w.nf\<close> and \<open>%-w.ps\<close>.\<close>

definition fmt_d :: "nat \<Rightarrow> int \<Rightarrow> string" where
  "fmt_d w i = pad_left (CHR '' '') w (dec_int i)"

definition fmt_0d :: "nat \<Rightarrow> int \<Rightarrow> string" where
  "fmt_0d w i =
     (if i < 0 then CHR ''-'' # pad_left (CHR ''0'') (w - 1) (dec_nat (nat (- i)))
      else pad_left (CHR ''0'') w (dec_nat (nat i)))"

definition fixed_double :: "nat \<Rightarrow> c_double \<Rightarrow> string" where
  "fixed_double n x = (case x of
       Finite r \<Rightarrow> fixed n r
     | Infinite neg \<Rightarrow> (if neg then ''-inf'' else ''inf'')
     | NotANumber \<Rightarrow> ''nan'')"

definition fmt_f :: "nat \<Rightarrow> nat \<Rightarrow> c_double \<Rightarrow> string" where
  "fmt_f w n x = pad_left (CHR '' '') w (fixed_double n x)"

definition fmt_s :: "nat \<Rightarrow> nat \<Rightarrow> string \<Rightarrow> string" where
  "fmt_s w p s = pad_right w (take p (c_str s))"

lemma length_pad_left: "length (pad_left c w s) = max w (length s)"
  by (simp add: pad_left_def)

lemma length_pad_right: "length (pad_right w s) = max w (length s)"
  by (simp add: pad_right_def)

lemma length_dec_int:
  assumes "- (10 ^ d) < i" "i < 10 ^ d" "0 < d" shows "length (dec_int i) \<le> Suc d"
    and "0 \<le> i \<Longrightarrow> length (dec_int i) \<le> d"
proof -
  have "nat \<bar>i\<bar> < 10 ^ d" using assms by (simp add: nat_less_iff)
  then have "length (dec_nat (nat \<bar>i\<bar>)) \<le> d" by (rule length_dec_nat [OF assms(3)])
  then show "length (dec_int i) \<le> Suc d" "0 \<le> i \<Longrightarrow> length (dec_int i) \<le> d"
    by (auto simp: dec_int_def)
qed

lemma length_fmt_d:
  "0 \<le> i \<Longrightarrow> i < 10 ^ w \<Longrightarrow> 0 < w \<Longrightarrow> length (fmt_d w i) = w"
  "- (10 ^ w) < i \<Longrightarrow> i < 10 ^ w \<Longrightarrow> 0 < w \<Longrightarrow> length (fmt_d (Suc w) i) = Suc w"
  using length_dec_int [of w i] by (simp_all add: fmt_d_def length_pad_left max_def)

lemma length_fixed_magnitude:
  assumes "0 \<le> a" "a \<le> 10 ^ d - 1" "0 < d" "0 < n"
  shows "length (fixed_magnitude n a) \<le> d + 1 + n"
proof -
  define k where "k = nat (rhe (a * 10 ^ n))"
  have "rhe (a * 10 ^ n) \<le> rhe ((10 ^ d - 1) * 10 ^ n)"
    using assms by (intro rhe_mono mult_right_mono) auto
  also have "(10 ^ d - 1) * 10 ^ n = real_of_int ((10 ^ d - 1) * 10 ^ n)" by simp
  finally have "rhe (a * 10 ^ n) \<le> (10 ^ d - 1) * 10 ^ n" by (simp only: rhe_of_int)
  then have "k \<le> (10 ^ d - 1) * 10 ^ n"
    by (simp add: k_def nat_le_iff of_nat_diff)
  then have "k div 10 ^ n \<le> 10 ^ d - 1"
    by (metis div_le_mono nonzero_mult_div_cancel_right power_not_zero zero_neq_numeral)
  then have "k div 10 ^ n < 10 ^ d" by (metis Suc_pred' le_imp_less_Suc zero_less_numeral zero_less_power)
  then have "length (dec_nat (k div 10 ^ n)) \<le> d" by (rule length_dec_nat [OF assms(3)])
  moreover have "length (dec_nat (k mod 10 ^ n)) \<le> n" by (rule length_dec_nat [OF assms(4)]) simp
  ultimately show ?thesis using assms(4)
    by (simp add: fixed_magnitude_def Let_def k_def [symmetric] length_pad_left)
qed

lemma length_fixed:
  assumes "\<bar>x\<bar> \<le> 10 ^ d - 1" "0 < d" "0 < n"
  shows "length (fixed n x) \<le> d + 2 + n" and "0 \<le> x \<Longrightarrow> length (fixed n x) \<le> d + 1 + n"
  using length_fixed_magnitude [of "\<bar>x\<bar>" d n] assms by (auto simp: fixed_def)

lemma length_fmt_f:
  assumes "\<bar>x\<bar> \<le> 10 ^ d - 1" "0 < d" "0 < n" "d + 2 + n \<le> w"
  shows "length (fmt_f w n (Finite x)) = w"
  using length_fixed(1) [OF assms(1-3)] assms(4)
  by (simp add: fmt_f_def fixed_double_def length_pad_left)

lemma length_fmt_s: "p \<le> w \<Longrightarrow> length (fmt_s w p s) = w"
  by (simp add: fmt_s_def length_pad_right)

end
