(* ===== verification/RinexParse.thy ===== *)
theory RinexParse
  imports RinexSat RinexTime
begin

text \<open>
  The input side of the RINEX logger (\<open>src/main/rinex_logger.cpp\<close>): the reader that cuts RANGEA
  messages out of the receiver's byte stream (\<open>RinexLogger::feed\<close>) and the parser of one
  message (\<open>process_message\<close> up to the file operations). The lemmas show that the reader stays
  inside its buffer and finds every well-formed message, and what the parser keeps of the
  signals of a satellite.
\<close>

subsection \<open>Reading messages\<close>

definition kMsgBufSize :: nat where "kMsgBufSize = 32 * 1024"

text \<open>\<open>in_msg_\<close> and the first \<open>msg_len_\<close> bytes of \<open>msg_buf_\<close>.\<close>

record rinex_reader =
  rr_in_msg :: bool
  rr_buf :: string

definition rinex_reader_init :: rinex_reader where
  "rinex_reader_init = \<lparr>rr_in_msg = False, rr_buf = []\<rparr>"

text \<open>The scan for a star among the last bytes, from the one before the newline down.\<close>

definition has_star :: "string \<Rightarrow> bool" where
  "has_star buf = list_ex (\<lambda>j. buf ! j = CHR ''*'') [length buf - 12 ..< length buf - 1]"

definition reader_byte :: "rinex_reader \<Rightarrow> u8 \<Rightarrow> rinex_reader \<times> string list" where
  "reader_byte r b =
     (let c = char8 b in
      if \<not> rr_in_msg r then
        (if c = CHR ''#'' then (\<lparr>rr_in_msg = True, rr_buf = [c]\<rparr>, []) else (r, []))
      else if \<not> length (rr_buf r) < kMsgBufSize - 1 then
        (\<lparr>rr_in_msg = False, rr_buf = []\<rparr>, [])
      else
        (let buf = rr_buf r @ [c] in
         if c = CHR 0x0A \<and> 12 < length buf \<and> has_star buf then
           (\<lparr>rr_in_msg = False, rr_buf = []\<rparr>, if starts_with buf ''#RANGEA,'' then [buf] else [])
         else (r\<lparr>rr_buf := buf\<rparr>, [])))"

subsection \<open>Tokens\<close>

text \<open>
  \<open>strtok_r\<close>: delimiters before the token are skipped; the token ends before the next
  delimiter, which is overwritten, and the scan resumes behind it.
\<close>

definition strtok :: "string \<Rightarrow> string \<Rightarrow> (string \<times> string) option" where
  "strtok delims s =
     (case dropWhile (\<lambda>c. c \<in> set delims) s of
        [] \<Rightarrow> None
      | t \<Rightarrow> Some (takeWhile (\<lambda>c. c \<notin> set delims) t, drop 1 (dropWhile (\<lambda>c. c \<notin> set delims) t)))"

lemma strtok_shorter:
  assumes "strtok delims s = Some (t, rest)" shows "length rest < length s"
proof -
  define u where "u = dropWhile (\<lambda>c. c \<in> set delims) s"
  have u: "u \<noteq> []" "rest = drop 1 (dropWhile (\<lambda>c. c \<notin> set delims) u)"
    using assms unfolding strtok_def u_def [symmetric] by (auto split: list.splits)
  have "length (dropWhile (\<lambda>c. c \<notin> set delims) u) \<le> length u" by (rule length_dropWhile_le)
  moreover have "length u \<le> length s" unfolding u_def by (rule length_dropWhile_le)
  moreover have "0 < length u" using u(1) by simp
  ultimately show ?thesis unfolding u(2) length_drop by linarith
qed

function tokens :: "string \<Rightarrow> string \<Rightarrow> string list" where
  "tokens delims s = (case strtok delims s of None \<Rightarrow> [] | Some (t, rest) \<Rightarrow> t # tokens delims rest)"
  by pat_completeness auto
termination
  by (relation "measure (\<lambda>(d, s). length s)") (auto dest: strtok_shorter)

declare tokens.simps [simp del]

subsection \<open>The header of a message\<close>

text \<open>Time status (field 4), week (field 5) and time of week (field 6).\<close>

fun scan_header :: "nat \<Rightarrow> string list \<Rightarrow> bool \<times> int \<times> c_double \<Rightarrow> bool \<times> int \<times> c_double" where
  "scan_header field [] h = h"
| "scan_header field (tok # toks) (time_ok, gps_week, gps_tow) =
     scan_header (Suc field) toks
       (if field = 4 then (starts_with tok ''FINE'' \<or> starts_with tok ''SAT'', gps_week, gps_tow)
        else if field = 5 then (time_ok, atoi tok, gps_tow)
        else if field = 6 then (time_ok, gps_week, atof tok)
        else (time_ok, gps_week, gps_tow))"

definition kEpochInterval :: int where "kEpochInterval = 30"
definition kEpochHalfWidth :: real where "kEpochHalfWidth = 1 / 2"

text \<open>The 30-second boundary nearest to a time of week.\<close>

definition epoch_boundary :: "c_double \<Rightarrow> c_double" where
  "epoch_boundary tow =
     d_times (d_floor (d_add (d_over tow (of_int kEpochInterval)) (Finite (1 / 2)))) (of_int kEpochInterval)"

definition off_boundary :: "c_double \<Rightarrow> bool" where
  "off_boundary tow = d_greater (d_abs (d_sub tow (epoch_boundary tow))) (Finite kEpochHalfWidth)"

subsection \<open>Observations\<close>

text \<open>
  A number read by \<open>atof\<close> with its sign bit: a zero keeps the sign of its text, and
  \<open>-adr\<close> turns it.
\<close>

record signed_double =
  sn_neg :: bool
  sn_val :: c_double

definition atof_signed :: "string \<Rightarrow> signed_double" where
  "atof_signed s = \<lparr>sn_neg = (strtod s \<noteq> None \<and> fst (scan_sign (skip_space (c_str s)))), sn_val = atof s\<rparr>"

definition sn_negate :: "signed_double \<Rightarrow> signed_double" where
  "sn_negate x = \<lparr>sn_neg = (\<not> sn_neg x), sn_val = d_neg (sn_val x)\<rparr>"

text \<open>\<open>(float)x\<close>.\<close>

definition sn_float :: "signed_double \<Rightarrow> signed_double" where
  "sn_float x = x\<lparr>sn_val := (case sn_val x of
       Finite r \<Rightarrow> (if 2 powi 128 \<le> \<bar>fl32 r\<bar> then Infinite (r < 0) else Finite (fl32 r))
     | v \<Rightarrow> v)\<rparr>"

record sig_obs =
  so_pseudorange :: signed_double
  so_carrier_phase :: signed_double
  so_doppler :: signed_double
  so_cn0 :: signed_double
  so_valid :: bool

definition sig_obs_init :: sig_obs where
  "sig_obs_init = (let z = \<lparr>sn_neg = False, sn_val = Finite 0\<rparr> in
     \<lparr>so_pseudorange = z, so_carrier_phase = z, so_doppler = z, so_cn0 = z, so_valid = False\<rparr>)"

definition kBands :: nat where "kBands = 3"

record sat_obs =
  sa_prn :: int
  sa_system :: int
  sa_glo_freq :: int
  sa_sig :: "sig_obs list"
  sa_pref :: "int list"

definition sat_obs_init :: sat_obs where
  "sat_obs_init = \<lparr>sa_prn = 0, sa_system = 0, sa_glo_freq = 0,
     sa_sig = replicate kBands sig_obs_init, sa_pref = replicate kBands (- 1)\<rparr>"

text \<open>Keep the signal of highest rank of a band; of equal ranks the first.\<close>

definition keep_best :: "nat \<Rightarrow> int \<Rightarrow> sig_obs \<Rightarrow> sat_obs \<Rightarrow> sat_obs" where
  "keep_best band pref obs sat =
     (if sa_pref sat ! band < pref
      then sat\<lparr>sa_sig := (sa_sig sat)[band := obs], sa_pref := (sa_pref sat)[band := pref]\<rparr>
      else sat)"

text \<open>Find the satellite's entry or append one, and store the signal in it.\<close>

fun store_signal :: "int \<Rightarrow> int \<Rightarrow> int \<Rightarrow> nat \<Rightarrow> int \<Rightarrow> sig_obs \<Rightarrow> sat_obs list \<Rightarrow> sat_obs list" where
  "store_signal prn sys glo_freq band pref obs [] =
     [keep_best band pref obs (sat_obs_init\<lparr>sa_prn := prn, sa_system := sys, sa_glo_freq := glo_freq\<rparr>)]"
| "store_signal prn sys glo_freq band pref obs (s # ss) =
     (if sa_prn s = prn \<and> sa_system s = sys
      then keep_best band pref obs (s\<lparr>sa_glo_freq := glo_freq\<rparr>) # ss
      else s # store_signal prn sys glo_freq band pref obs ss)"

definition is_alpha :: "char \<Rightarrow> bool" where
  "is_alpha c = (let n = (of_char c :: nat) in (65 \<le> n \<and> n \<le> 90) \<or> (97 \<le> n \<and> n \<le> 122))"

definition body_delims :: string where
  "body_delims = [CHR '','', CHR 0x0D, CHR 0x0A, CHR ''*'']"

text \<open>The fields of one observation, trimmed on the left; nothing when the body ends first.\<close>

fun take_fields :: "nat \<Rightarrow> string \<Rightarrow> (string list \<times> string) option" where
  "take_fields 0 s = Some ([], s)"
| "take_fields (Suc n) s =
     (case strtok body_delims s of
        None \<Rightarrow> None
      | Some (t, rest) \<Rightarrow>
          (case take_fields n rest of
             None \<Rightarrow> None
           | Some (fs, rest') \<Rightarrow>
               Some (dropWhile (\<lambda>c. c = CHR '' '' \<or> c = CHR 0x0D \<or> c = CHR 0x0A) t # fs, rest')))"

definition field_prn :: "string \<Rightarrow> int" where
  "field_prn f = (atoi (if f \<noteq> [] \<and> is_alpha (hd f) then tl f else f)) mod 65536"

definition field_sys :: "string \<Rightarrow> int" where
  "field_sys f = uint (drop_bit 16 (strtoul 16 f) AND 0x7)"

definition field_sig :: "string \<Rightarrow> int" where
  "field_sig f = uint (drop_bit 21 (strtoul 16 f) AND 0x1F)"

definition field_obs :: "string list \<Rightarrow> sig_obs" where
  "field_obs f = \<lparr>so_pseudorange = atof_signed (f ! 2), so_carrier_phase = sn_negate (atof_signed (f ! 4)),
     so_doppler = sn_float (atof_signed (f ! 6)), so_cn0 = sn_float (atof_signed (f ! 7)), so_valid = True\<rparr>"

text \<open>One observation: a record that has no satellite number, no legal identifier or no band is skipped.\<close>

definition store_record :: "string list \<Rightarrow> sat_obs list \<Rightarrow> sat_obs list" where
  "store_record f sats =
     (let prn = field_prn (f ! 0);
          glo_freq = (atoi (f ! 1) + 128) mod 256 - 128;
          sys = field_sys (f ! 9); sig = field_sig (f ! 9) in
      if prn = 0 then sats
      else if format_sat_id sys prn = None then sats
      else (case signal_band sys sig of
              None \<Rightarrow> sats
            | Some (band, pref) \<Rightarrow> store_signal prn sys glo_freq band pref (field_obs f) sats))"

fun read_records :: "nat \<Rightarrow> string \<Rightarrow> sat_obs list \<Rightarrow> sat_obs list" where
  "read_records 0 body sats = sats"
| "read_records (Suc n) body sats =
     (case take_fields 10 body of
        None \<Rightarrow> sats
      | Some (f, rest) \<Rightarrow> read_records n rest (store_record f sats))"

text \<open>
  \<open>process_message\<close> up to the file operations: the week, the epoch and the satellites to
  write, or nothing when the function returns before.
\<close>

definition parse_message :: "string \<Rightarrow> (int \<times> c_double \<times> sat_obs list) option" where
  "parse_message msg =
     (let m = c_str msg; hdr = takeWhile (\<lambda>c. c \<noteq> CHR '';'') m in
      if CHR '';'' \<notin> set m then None
      else
        (let (time_ok, gps_week, gps_tow) =
               scan_header 0 (tokens '','' (take 255 hdr)) (False, 0, Finite 0) in
         if \<not> time_ok \<or> gps_week \<le> 0 then None
         else if off_boundary gps_tow then None
         else (case strtok body_delims (drop (length hdr + 1) m) of
                 None \<Rightarrow> None
               | Some (tok, body) \<Rightarrow>
                   (let num_obs = atoi tok in
                    if num_obs \<le> 0 \<or> 120 < num_obs then None
                    else (let sats = read_records (nat num_obs) body [] in
                          if sats = [] then None
                          else Some (gps_week, epoch_boundary gps_tow, sats))))))"

subsection \<open>The reader keeps its buffer and finds messages\<close>

definition rinex_reader_inv :: "rinex_reader \<Rightarrow> bool" where
  "rinex_reader_inv r \<longleftrightarrow>
     (rr_in_msg r \<longleftrightarrow> rr_buf r \<noteq> []) \<and> length (rr_buf r) \<le> kMsgBufSize - 1 \<and>
     (rr_buf r \<noteq> [] \<longrightarrow> hd (rr_buf r) = CHR ''#'')"

lemma rinex_reader_inv_init [simp]: "rinex_reader_inv rinex_reader_init"
  by (simp add: rinex_reader_inv_def rinex_reader_init_def)

text \<open>A complete line: a newline, more than 12 bytes, and a star among the last 12.\<close>

definition line_complete :: "string \<Rightarrow> bool" where
  "line_complete m \<longleftrightarrow> 12 < length m \<and> last m = CHR 0x0A \<and> CHR ''*'' \<in> set (take 11 (drop (length m - 12) m))"

text \<open>What the reader does to the bytes it holds.\<close>

definition reader_spec :: "string \<Rightarrow> u8 \<Rightarrow> string \<times> string list" where
  "reader_spec held b =
     (let c = char8 b; m = held @ [c] in
      if held = [] then (if c = CHR ''#'' then [c] else [], [])
      else if kMsgBufSize - 1 \<le> length held then ([], [])
      else if line_complete m then ([], if starts_with m ''#RANGEA,'' then [m] else [])
      else (m, []))"

lemma has_star_eq:
  assumes "12 < length m"
  shows "has_star m \<longleftrightarrow> CHR ''*'' \<in> set (take 11 (drop (length m - 12) m))"
proof -
  have "set (take 11 (drop (length m - 12) m)) = (\<lambda>j. m ! j) ` {length m - 12 ..< length m - 1}"
  proof -
    have "take 11 (drop (length m - 12) m) = map ((!) m) [length m - 12 ..< length m - 1]"
      using assms by (intro nth_equalityI) auto
    then show ?thesis by simp
  qed
  then have "CHR ''*'' \<in> set (take 11 (drop (length m - 12) m)) \<longleftrightarrow>
      (\<exists>j \<in> {length m - 12 ..< length m - 1}. CHR ''*'' = m ! j)"
    by (simp only: image_iff)
  then show ?thesis unfolding has_star_def list_ex_iff set_upt by (simp only: eq_commute)
qed

lemma reader_sim:
  assumes "rinex_reader_inv r"
  shows "(rr_buf (fst (reader_byte r b)), snd (reader_byte r b)) = reader_spec (rr_buf r) b"
proof (cases "rr_in_msg r")
  case True
  have "char8 b = CHR 0x0A \<and> 12 < length (rr_buf r @ [char8 b]) \<and> has_star (rr_buf r @ [char8 b])
      \<longleftrightarrow> line_complete (rr_buf r @ [char8 b])"
    using has_star_eq [of "rr_buf r @ [char8 b]"] by (auto simp: line_complete_def)
  moreover have "rr_buf r \<noteq> []" using assms True by (simp add: rinex_reader_inv_def)
  ultimately show ?thesis using True
    unfolding reader_byte_def reader_spec_def Let_def by (simp add: not_less)
next
  case False
  then have "rr_buf r = []" using assms by (simp add: rinex_reader_inv_def)
  then show ?thesis using False by (simp add: reader_byte_def reader_spec_def Let_def)
qed

lemma reader_inv: "rinex_reader_inv r \<Longrightarrow> rinex_reader_inv (fst (reader_byte r b))"
  by (auto simp: reader_byte_def rinex_reader_inv_def Let_def kMsgBufSize_def hd_append)

interpretation rangea: stream_machine reader_byte rinex_reader_inv rr_buf reader_spec
  by unfold_locales (auto intro: reader_inv simp: reader_sim)

text \<open>What a delivered message is like.\<close>

definition rangea_message :: "string \<Rightarrow> bool" where
  "rangea_message m \<longleftrightarrow> starts_with m ''#RANGEA,'' \<and> line_complete m \<and> length m \<le> kMsgBufSize - 1"

lemma reader_spec_sound: "length h \<le> kMsgBufSize - 1 \<Longrightarrow>
    length (fst (reader_spec h b)) \<le> kMsgBufSize - 1 \<and> (\<forall>m \<in> set (snd (reader_spec h b)). rangea_message m)"
  by (auto simp: reader_spec_def Let_def rangea_message_def kMsgBufSize_def)

definition read_stream :: "rinex_reader \<Rightarrow> u8 list \<Rightarrow> rinex_reader \<times> string list" where
  "read_stream r bs = feed_all reader_byte r bs"

lemma read_stream_sound:
  assumes "rinex_reader_inv r"
  shows "rinex_reader_inv (fst (read_stream r bs)) \<and> (\<forall>m \<in> set (snd (read_stream r bs)). rangea_message m)"
proof -
  have "\<forall>m \<in> set (snd (feed_all reader_spec (rr_buf r) bs)). rangea_message m"
    using feed_all_invariant [of "\<lambda>h. length h \<le> kMsgBufSize - 1" reader_spec rangea_message "rr_buf r" bs]
      reader_spec_sound assms by (simp add: rinex_reader_inv_def)
  then show ?thesis
    using rangea.run_inv [OF assms, of bs] rangea.run_events [OF assms, of bs] by (simp add: read_stream_def)
qed

lemma reader_skips_noise: "\<forall>b \<in> set g. char8 b \<noteq> CHR ''#'' \<Longrightarrow> feed_all reader_spec [] g = ([], [])"
  by (induction g) (simp_all add: reader_spec_def Let_def)

text \<open>A message no proper prefix of which looks complete is collected to its end.\<close>

definition rangea_line :: "string \<Rightarrow> bool" where
  "rangea_line m \<longleftrightarrow> rangea_message m \<and> (\<forall>n < length m. \<not> line_complete (take n m))"

lemma reader_collects:
  assumes "\<forall>n < length m. \<not> line_complete (take n m)" "length m \<le> kMsgBufSize - 1" "hd m = CHR ''#''"
    "n < length m"
  shows "feed_all reader_spec [] (take n (map byte8 m)) = (take n m, [])"
  using assms(4)
proof (induction n)
  case (Suc n)
  have m: "take (Suc n) m = take n m @ [m ! n]" using Suc.prems by (simp add: take_Suc_conv_app_nth)
  have "reader_spec (take n m) (byte8 (m ! n)) = (take (Suc n) m, [])"
  proof (cases n)
    case 0
    then show ?thesis using assms(3) Suc.prems by (cases m) (simp_all add: reader_spec_def)
  next
    case (Suc k)
    then have "take n m \<noteq> []" using Suc.prems by (cases m) simp_all
    moreover have "\<not> kMsgBufSize - 1 \<le> length (take n m)" using assms(2) Suc.prems by simp
    moreover have "\<not> line_complete (take n m @ [m ! n])" using assms(1) Suc.prems m by metis
    ultimately show ?thesis unfolding reader_spec_def Let_def char8_byte8 m by simp
  qed
  then show ?case using Suc
    by (simp add: take_Suc_conv_app_nth feed_all_append Let_def)
qed simp

lemma reader_takes_line:
  assumes "rangea_line m"
  shows "feed_all reader_spec [] (map byte8 m) = ([], [m])"
proof -
  have pre: "starts_with m ''#RANGEA,''" and len: "12 < length m" "length m \<le> kMsgBufSize - 1"
    and compl: "line_complete m" and proper: "\<forall>n < length m. \<not> line_complete (take n m)"
    using assms by (auto simp: rangea_line_def rangea_message_def line_complete_def)
  have hd: "hd m = CHR ''#''" using pre by (cases m) (auto simp: starts_with_def)
  have m: "m = butlast m @ [last m]" using len by (metis append_butlast_last_id list.size(3) not_less_zero)
  have "take (length m - 1) (map byte8 m) = map byte8 (butlast m)" "take (length m - 1) m = butlast m"
    by (simp_all add: butlast_conv_take take_map)
  then have "feed_all reader_spec [] (map byte8 (butlast m)) = (butlast m, [])"
    using reader_collects [OF proper len(2) hd, of "length m - 1"] len by simp
  moreover have "reader_spec (butlast m) (byte8 (last m)) = ([], [m])"
    using len compl pre m [symmetric] by (simp add: reader_spec_def Let_def) (auto simp: butlast_conv_take)
  moreover have "map byte8 m = map byte8 (butlast m) @ [byte8 (last m)]"
    by (subst m) simp
  ultimately show ?thesis by (simp add: feed_all_append Let_def)
qed

lemma reader_takes_stream:
  assumes "\<forall>(g, m) \<in> set xs. (\<forall>b \<in> set g. char8 b \<noteq> CHR ''#'') \<and> rangea_line m"
  shows "feed_all reader_spec [] (concat (map (\<lambda>(g, m). g @ map byte8 m) xs)) = ([], map snd xs)"
  using assms
  by (induction xs) (auto simp: feed_all_append reader_skips_noise reader_takes_line Let_def split: prod.splits)

lemma read_stream_lines:
  assumes "\<forall>(g, m) \<in> set xs. (\<forall>b \<in> set g. char8 b \<noteq> CHR ''#'') \<and> rangea_line m"
  shows "read_stream rinex_reader_init (concat (map (\<lambda>(g, m). g @ map byte8 m) xs)) =
    (rinex_reader_init, map snd xs)"
proof -
  let ?bs = "concat (map (\<lambda>(g, m). g @ map byte8 m) xs)"
  let ?r = "fst (read_stream rinex_reader_init ?bs)"
  have sim: "(rr_buf ?r, snd (read_stream rinex_reader_init ?bs)) = ([], map snd xs)"
    using rangea.run_sim [OF rinex_reader_inv_init, of ?bs] reader_takes_stream [OF assms]
    by (simp add: read_stream_def rinex_reader_init_def)
  moreover have "rinex_reader_inv ?r" using read_stream_sound by simp
  ultimately have "?r = rinex_reader_init"
    by (cases ?r) (simp add: rinex_reader_inv_def rinex_reader_init_def)
  then show ?thesis using sim by (metis prod.collapse snd_conv)
qed

text \<open>
  From an idle reader, RANGEA lines that fit the buffer and contain no earlier
  line end that looks complete are delivered whole, in order and nothing else, whatever
  bytes without a hash sign lie between them; the reader is idle again at the end. As the
  reader's step is a fold over the bytes, the chunks in which the stream arrives do not matter.
\<close>

theorem rangea_lines_delivered:
  assumes "\<forall>(g, m) \<in> set xs. (\<forall>b \<in> set g. char8 b \<noteq> CHR ''#'') \<and> rangea_line m"
  shows "read_stream rinex_reader_init (concat (map (\<lambda>(g, m). g @ map byte8 m) xs)) =
    (rinex_reader_init, map snd xs)"
  by (rule read_stream_lines [OF assms])

lemma rangea_line_example: "rangea_line (''#RANGEA,1;*00000000'' @ crlf)"
proof -
  let ?m = "''#RANGEA,1;*00000000'' @ crlf"
  have len: "length ?m = 21" by (simp add: crlf_def)
  have "list_all (\<lambda>n. \<not> line_complete (take n ?m)) [0..<21]" "line_complete ?m" "starts_with ?m ''#RANGEA,''"
    by code_simp+
  then show ?thesis
    unfolding rangea_line_def rangea_message_def len by (simp add: list_all_iff kMsgBufSize_def)
qed

lemma rangea_lines_delivered_witness:
  "let m = ''#RANGEA,1;*00000000'' @ crlf in
     read_stream rinex_reader_init ([0x61, 0x0A] @ map byte8 m @ [] @ map byte8 m) = (rinex_reader_init, [m, m])"
proof -
  let ?m = "''#RANGEA,1;*00000000'' @ crlf"
  have "\<forall>b \<in> set [0x61, 0x0A :: u8]. char8 b \<noteq> CHR ''#''" by code_simp
  then show ?thesis
    using rangea_lines_delivered [of "[([0x61, 0x0A], ?m), ([], ?m)]"] rangea_line_example by (simp add: Let_def)
qed

subsection \<open>Which signals are kept\<close>

text \<open>No record of a QZSS satellite is stored: the table names QZSS, the bands do not.\<close>

lemma qzss_never_carried: "field_sys (f ! 9) = kSysQzss \<Longrightarrow> store_record f sats = sats"
  by (simp add: store_record_def signal_band_def kSysQzss_def Let_def)

text \<open>One stored signal: satellite number, system, GLONASS channel, band, rank, values.\<close>

type_synonym signal = "int \<times> int \<times> int \<times> nat \<times> int \<times> sig_obs"

definition store_signals :: "signal list \<Rightarrow> sat_obs list \<Rightarrow> sat_obs list" where
  "store_signals sigs sats =
     foldl (\<lambda>ss (prn, sys, glo, band, pref, obs). store_signal prn sys glo band pref obs ss) sats sigs"

definition sig_key :: "signal \<Rightarrow> int \<times> int" where
  "sig_key sg = (fst sg, fst (snd sg))"

definition sat_key :: "sat_obs \<Rightarrow> int \<times> int" where
  "sat_key s = (sa_prn s, sa_system s)"

definition sat_ok :: "sat_obs \<Rightarrow> bool" where
  "sat_ok s \<longleftrightarrow> length (sa_sig s) = kBands \<and> length (sa_pref s) = kBands"

text \<open>The signals of one satellite and band, with their ranks, in the order received.\<close>

definition band_signals :: "int \<times> int \<Rightarrow> nat \<Rightarrow> signal list \<Rightarrow> (int \<times> sig_obs) list" where
  "band_signals key b sigs =
     [(pref, obs). (prn, sys, glo, band, pref, obs) \<leftarrow> sigs, (prn, sys) = key \<and> band = b]"

text \<open>The best of a list: of highest rank, and the first of these.\<close>

definition first_best :: "(int \<times> sig_obs) list \<Rightarrow> int \<times> sig_obs \<Rightarrow> bool" where
  "first_best xs x \<longleftrightarrow>
     (if xs = [] then x = (- 1, sig_obs_init)
      else \<exists>ys zs. xs = ys @ x # zs \<and> (\<forall>y \<in> set ys. fst y < fst x) \<and> (\<forall>z \<in> set zs. fst z \<le> fst x))"

lemma first_best_snoc:
  assumes "first_best xs x" "- 1 < fst y"
  shows "first_best (xs @ [y]) (if fst x < fst y then y else x)"
proof (cases "xs = []")
  case True
  then have x: "x = (- 1, sig_obs_init)" using assms(1) by (simp add: first_best_def)
  show ?thesis using assms(2) unfolding x True first_best_def
    by (auto intro!: exI [of _ "[]"])
next
  case False
  then obtain ys zs where xs: "xs = ys @ x # zs" "\<forall>y \<in> set ys. fst y < fst x" "\<forall>z \<in> set zs. fst z \<le> fst x"
    using assms(1) by (auto simp: first_best_def)
  show ?thesis
  proof (cases "fst x < fst y")
    case True
    have "\<forall>z \<in> set xs. fst z < fst y" using xs True by auto
    then have "xs @ [y] = xs @ y # [] \<and> (\<forall>z \<in> set xs. fst z < fst y) \<and> (\<forall>z \<in> set []. fst z \<le> fst y)"
      by simp
    then have "\<exists>ys zs. xs @ [y] = ys @ y # zs \<and> (\<forall>z \<in> set ys. fst z < fst y) \<and> (\<forall>z \<in> set zs. fst z \<le> fst y)"
      by (intro exI)
    then show ?thesis using True by (simp only: first_best_def append_is_Nil_conv not_Cons_self2 simp_thms if_True if_False)
  next
    case less: False
    have "xs @ [y] = ys @ x # (zs @ [y]) \<and> (\<forall>z \<in> set ys. fst z < fst x) \<and> (\<forall>z \<in> set (zs @ [y]). fst z \<le> fst x)"
      using xs less by auto
    then have "\<exists>ys zs. xs @ [y] = ys @ x # zs \<and> (\<forall>z \<in> set ys. fst z < fst x) \<and> (\<forall>z \<in> set zs. fst z \<le> fst x)"
      by (intro exI)
    then show ?thesis using less by (simp only: first_best_def append_is_Nil_conv not_Cons_self2 simp_thms if_True if_False)
  qed
qed

lemma band_signals_simps:
  "band_signals key b [] = []"
  "band_signals key b (sigs @ [(prn, sys, glo, band, pref, obs)]) =
     band_signals key b sigs @ (if (prn, sys) = key \<and> band = b then [(pref, obs)] else [])"
  by (simp_all add: band_signals_def)

lemma keep_best_key [simp]: "sat_key (keep_best band pref obs s) = sat_key s"
  by (simp add: keep_best_def sat_key_def)

lemma keep_best_ok [simp]: "sat_ok (keep_best band pref obs s) = sat_ok s"
  by (simp add: keep_best_def sat_ok_def)

lemma sat_glo_frame [simp]:
  "sat_key (s\<lparr>sa_glo_freq := g\<rparr>) = sat_key s" "sat_ok (s\<lparr>sa_glo_freq := g\<rparr>) = sat_ok s"
  by (simp_all add: sat_key_def sat_ok_def)

definition kept :: "nat \<Rightarrow> sat_obs \<Rightarrow> int \<times> sig_obs" where
  "kept b s = (sa_pref s ! b, sa_sig s ! b)"

lemma kept_keep_best:
  assumes "sat_ok s" "b < kBands"
  shows "kept b (keep_best band pref obs s) =
    (if band = b \<and> fst (kept b s) < pref then (pref, obs) else kept b s)"
  using assms by (cases "band = b") (auto simp: kept_def keep_best_def sat_ok_def)

lemma kept_glo [simp]: "kept b (s\<lparr>sa_glo_freq := g\<rparr>) = kept b s"
  by (simp add: kept_def)

lemma sat_key_new [simp]: "sat_key (sat_obs_init\<lparr>sa_prn := p, sa_system := q\<rparr>) = (p, q)"
  by (simp add: sat_key_def)

lemma sat_ok_new [simp]: "sat_ok (sat_obs_init\<lparr>sa_prn := p, sa_system := q\<rparr>)"
  by (simp add: sat_ok_def sat_obs_init_def)

lemma kept_new [simp]:
  "b < kBands \<Longrightarrow> kept b (sat_obs_init\<lparr>sa_prn := p, sa_system := q\<rparr>) = (- 1, sig_obs_init)"
  by (simp add: kept_def sat_obs_init_def)

lemma sat_key_eq: "sat_key s = (p, q) \<longleftrightarrow> sa_prn s = p \<and> sa_system s = q"
  by (simp add: sat_key_def)

lemma store_signal_Cons:
  "store_signal prn sys glo band pref obs (s # ss) =
     (if sat_key s = (prn, sys) then keep_best band pref obs (s\<lparr>sa_glo_freq := glo\<rparr>) # ss
      else s # store_signal prn sys glo band pref obs ss)"
  by (simp only: store_signal.simps sat_key_eq)

lemma store_signal_keys:
  "map sat_key (store_signal prn sys glo band pref obs ss) =
     map sat_key ss @ (if (prn, sys) \<in> set (map sat_key ss) then [] else [(prn, sys)])"
proof (induction ss)
  case (Cons s ss)
  then show ?case unfolding store_signal_Cons by auto
qed simp

lemma store_signal_entry:
  assumes "s' \<in> set (store_signal prn sys glo band pref obs ss)" "distinct (map sat_key ss)"
  shows "s' \<in> set ss \<and> sat_key s' \<noteq> (prn, sys) \<or>
    (\<exists>s \<in> set ss. sat_key s = (prn, sys) \<and> s' = keep_best band pref obs (s\<lparr>sa_glo_freq := glo\<rparr>)) \<or>
    (prn, sys) \<notin> sat_key ` set ss \<and>
      s' = keep_best band pref obs (sat_obs_init\<lparr>sa_prn := prn, sa_system := sys, sa_glo_freq := glo\<rparr>)"
  using assms
proof (induction ss)
  case (Cons s ss)
  show ?case
  proof (cases "sat_key s = (prn, sys)")
    case True
    then have "store_signal prn sys glo band pref obs (s # ss) = keep_best band pref obs (s\<lparr>sa_glo_freq := glo\<rparr>) # ss"
      unfolding store_signal_Cons by simp
    moreover have "s' \<in> set ss \<Longrightarrow> sat_key s' \<noteq> (prn, sys)" using Cons.prems(2) True by force
    ultimately show ?thesis using Cons.prems(1) True by auto
  next
    case False
    then have eq: "store_signal prn sys glo band pref obs (s # ss) = s # store_signal prn sys glo band pref obs ss"
      unfolding store_signal_Cons by simp
    have "distinct (map sat_key ss)" using Cons.prems(2) by simp
    then show ?thesis using Cons.prems(1) Cons.IH False unfolding eq by auto
  qed
qed simp

text \<open>
  The state of the table after some signals: one entry per satellite, each band holding the
  best of its signals.
\<close>

definition table_of :: "signal list \<Rightarrow> sat_obs list \<Rightarrow> bool" where
  "table_of sigs ss \<longleftrightarrow>
     distinct (map sat_key ss) \<and>
     set (map sat_key ss) = sig_key ` set sigs \<and>
     (\<forall>s \<in> set ss. sat_ok s \<and> (\<forall>b < kBands. first_best (band_signals (sat_key s) b sigs) (kept b s)))"

lemma table_of_Nil: "table_of [] []"
  by (simp add: table_of_def)

lemma band_signals_none:
  "key \<notin> sig_key ` set sigs \<Longrightarrow> band_signals key b sigs = []"
  by (force simp: band_signals_def sig_key_def image_iff)

lemma table_of_store:
  assumes t: "table_of sigs ss" and "band < kBands" "- 1 < pref"
  shows "table_of (sigs @ [(prn, sys, glo, band, pref, obs)]) (store_signal prn sys glo band pref obs ss)"
proof -
  have dist: "distinct (map sat_key ss)" and keys: "sat_key ` set ss = sig_key ` set sigs"
    and entry: "\<And>s. s \<in> set ss \<Longrightarrow> sat_ok s \<and> (\<forall>b < kBands. first_best (band_signals (sat_key s) b sigs) (kept b s))"
    using t by (auto simp: table_of_def)
  have new: "sat_ok (keep_best band pref obs s) \<and>
      (\<forall>b < kBands. first_best (band_signals (prn, sys) b (sigs @ [(prn, sys, glo, band, pref, obs)]))
        (kept b (keep_best band pref obs s)))"
    if "sat_ok s" "\<forall>b < kBands. first_best (band_signals (prn, sys) b sigs) (kept b s)" for s
  proof (intro conjI allI impI)
    fix b assume b: "b < kBands"
    show "first_best (band_signals (prn, sys) b (sigs @ [(prn, sys, glo, band, pref, obs)]))
        (kept b (keep_best band pref obs s))"
      using first_best_snoc [OF that(2) [rule_format, OF b], of "(pref, obs)"] assms(3) that b
      by (simp add: kept_keep_best band_signals_simps split: if_split_asm)
  qed (simp add: that)
  have "sat_ok s' \<and> (\<forall>b < kBands. first_best (band_signals (sat_key s') b
      (sigs @ [(prn, sys, glo, band, pref, obs)])) (kept b s'))"
    if s': "s' \<in> set (store_signal prn sys glo band pref obs ss)" for s'
    using store_signal_entry [OF s' dist]
  proof (elim disjE bexE conjE)
    assume "s' \<in> set ss" "sat_key s' \<noteq> (prn, sys)"
    then show ?thesis using entry [of s'] by (auto simp: band_signals_simps)
  next
    fix s assume s: "s \<in> set ss" "sat_key s = (prn, sys)" "s' = keep_best band pref obs (s\<lparr>sa_glo_freq := glo\<rparr>)"
    then show ?thesis using new [of "s\<lparr>sa_glo_freq := glo\<rparr>"] entry [OF s(1)] by simp
  next
    assume s: "(prn, sys) \<notin> sat_key ` set ss"
      "s' = keep_best band pref obs (sat_obs_init\<lparr>sa_prn := prn, sa_system := sys, sa_glo_freq := glo\<rparr>)"
    then have "band_signals (prn, sys) b sigs = []" for b using keys band_signals_none by metis
    then show ?thesis
      using new [of "sat_obs_init\<lparr>sa_prn := prn, sa_system := sys, sa_glo_freq := glo\<rparr>"] s(2)
      by (simp add: first_best_def)
  qed
  moreover have "distinct (map sat_key (store_signal prn sys glo band pref obs ss))"
    using dist by (simp add: store_signal_keys)
  moreover have "set (map sat_key (store_signal prn sys glo band pref obs ss)) =
      sig_key ` set (sigs @ [(prn, sys, glo, band, pref, obs)])"
    unfolding store_signal_keys using keys by (simp add: sig_key_def insert_absorb image_iff)
  ultimately show ?thesis unfolding table_of_def by blast
qed

text \<open>The signal a record carries, if the parser takes it, and the records of a body.\<close>

definition record_signal :: "string list \<Rightarrow> signal option" where
  "record_signal f =
     (let prn = field_prn (f ! 0); sys = field_sys (f ! 9) in
      if prn = 0 \<or> format_sat_id sys prn = None then None
      else (case signal_band sys (field_sig (f ! 9)) of
              None \<Rightarrow> None
            | Some (band, pref) \<Rightarrow>
                Some (prn, sys, (atoi (f ! 1) + 128) mod 256 - 128, band, pref, field_obs f)))"

fun body_records :: "nat \<Rightarrow> string \<Rightarrow> string list list" where
  "body_records 0 body = []"
| "body_records (Suc n) body =
     (case take_fields 10 body of None \<Rightarrow> [] | Some (f, rest) \<Rightarrow> f # body_records n rest)"

definition body_signals :: "nat \<Rightarrow> string \<Rightarrow> signal list" where
  "body_signals n body = List.map_filter record_signal (body_records n body)"

definition signal_ok :: "signal \<Rightarrow> bool" where
  "signal_ok sg = (case sg of (prn, sys, glo, band, pref, obs) \<Rightarrow>
     0 < prn \<and> sys \<in> {0, 1, 3, 4} \<and> format_sat_id sys prn \<noteq> None \<and> band < kBands \<and> 0 < pref \<and> so_valid obs)"

lemma signal_band_sys: "signal_band sys sig = Some bp \<Longrightarrow> sys \<in> {0, 1, 3, 4}"
  by (auto simp: signal_band_def split: if_splits)

lemma record_signal_ok: "record_signal f = Some sg \<Longrightarrow> signal_ok sg"
  using signal_band_sys [of "field_sys (f ! 9)" "field_sig (f ! 9)"]
    signal_band_less [of "field_sys (f ! 9)" "field_sig (f ! 9)"]
    pos_mod_sign [of 65536 "atoi (if f ! 0 \<noteq> [] \<and> is_alpha (hd (f ! 0)) then tl (f ! 0) else f ! 0)"]
  by (auto simp: record_signal_def signal_ok_def Let_def field_prn_def field_obs_def kBands_def
      order_less_le split: if_splits option.splits)

lemma store_record_signal:
  "store_record f ss = (case record_signal f of None \<Rightarrow> ss
     | Some (prn, sys, glo, band, pref, obs) \<Rightarrow> store_signal prn sys glo band pref obs ss)"
  by (auto simp: store_record_def record_signal_def Let_def split: option.splits)

lemma read_records_table:
  "table_of sigs ss \<Longrightarrow> table_of (sigs @ body_signals n body) (read_records n body ss)"
proof (induction n arbitrary: body sigs ss)
  case 0
  then show ?case by (simp add: body_signals_def)
next
  case (Suc n)
  show ?case
  proof (cases "take_fields 10 body")
    case None
    then show ?thesis using Suc.prems by (simp add: body_signals_def)
  next
    case (Some fr)
    obtain f rest where fr: "fr = (f, rest)" by (cases fr)
    have sigs: "body_signals (Suc n) body = (case record_signal f of None \<Rightarrow> [] | Some x \<Rightarrow> [x]) @ body_signals n rest"
      using Some fr by (simp add: body_signals_def List.map_filter_def split: option.splits)
    have "table_of (sigs @ (case record_signal f of None \<Rightarrow> [] | Some x \<Rightarrow> [x])) (store_record f ss)"
    proof (cases "record_signal f")
      case None
      then show ?thesis using Suc.prems by (simp add: store_record_signal)
    next
      case (Some x)
      obtain prn sys glo band pref obs where x: "x = (prn, sys, glo, band, pref, obs)" by (rule prod_cases6)
      then show ?thesis using Some record_signal_ok [OF Some] table_of_store [OF Suc.prems, of band pref]
        by (simp add: store_record_signal signal_ok_def)
    qed
    from Suc.IH [OF this, of rest] show ?thesis using Some fr by (simp add: sigs)
  qed
qed

lemma body_signals_ok: "\<forall>sg \<in> set (body_signals n body). signal_ok sg"
  by (auto simp: body_signals_def List.map_filter_def intro: record_signal_ok)

text \<open>The signals of a message: the body's first field announces the number of records.\<close>

definition message_signals :: "string \<Rightarrow> signal list" where
  "message_signals msg =
     (case strtok body_delims (drop 1 (dropWhile (\<lambda>c. c \<noteq> CHR '';'') (c_str msg))) of
        None \<Rightarrow> []
      | Some (tok, body) \<Rightarrow> body_signals (nat (atoi tok)) body)"

lemma drop_takeWhile: "drop (length (takeWhile P xs) + n) xs = drop n (dropWhile P xs)"
  by (simp add: dropWhile_eq_drop add.commute)

lemma parse_message_cases:
  assumes "parse_message m = Some (w, t, ss)"
  obtains tow where "table_of (message_signals m) ss" "ss \<noteq> []" "0 < w"
    "t = epoch_boundary tow" "\<not> off_boundary tow"
proof -
  obtain tok body tow where
    *: "strtok body_delims (drop 1 (dropWhile (\<lambda>c. c \<noteq> CHR '';'') (c_str m))) = Some (tok, body)"
      "ss = read_records (nat (atoi tok)) body []" "ss \<noteq> []" "0 < w" "t = epoch_boundary tow" "\<not> off_boundary tow"
    using assms unfolding parse_message_def Let_def drop_takeWhile
    by (auto split: if_splits option.splits prod.splits)
  have "table_of (message_signals m) ss"
    using read_records_table [OF table_of_Nil] *(1,2) by (simp add: message_signals_def)
  then show thesis using * that by blast
qed

lemma message_signals_ok: "\<forall>sg \<in> set (message_signals m). signal_ok sg"
  using body_signals_ok by (auto simp: message_signals_def split: option.splits)

text \<open>
  What a message leaves in the satellite table: at most one entry per satellite, an entry
  exactly for the satellites some carried signal of the message belongs to, each of GPS,
  GLONASS, Galileo or BeiDou with a legal identifier, and in each band the signal of highest
  rank, the first of these when several have it. A band without a signal is left blank. The
  rank decides, never the order in which the receiver reports the signals of a band.
\<close>

theorem best_signal_kept:
  assumes "parse_message m = Some (w, t, ss)"
  shows "0 < w \<and> ss \<noteq> [] \<and> distinct (map sat_key ss) \<and>
    sat_key ` set ss = sig_key ` set (message_signals m) \<and>
    (\<forall>sg \<in> set (message_signals m). signal_ok sg) \<and>
    (\<forall>s \<in> set ss. \<forall>b < kBands. first_best (band_signals (sat_key s) b (message_signals m)) (kept b s))"
  using assms
proof (rule parse_message_cases)
  assume "table_of (message_signals m) ss" "ss \<noteq> []" "0 < w"
  then show ?thesis using message_signals_ok [of m] unfolding table_of_def set_map by blast
qed

lemma epoch_boundary_0: "epoch_boundary (Finite 0) = Finite 0" "\<not> off_boundary (Finite 0)"
proof -
  have "in_format 53 (- 1022) (2 powi (- 1))" by (rule in_format_powi) simp
  then have "fl64 (1 / 2) = 1 / 2" by (intro fl_id) (simp_all add: power_int_minus inverse_eq_divide)
  then have half: "dbl (1 / 2) = Finite (1 / 2)" by (simp add: dbl_def double_overflow_def Let_def)
  have zero: "dbl 0 = Finite 0" by (simp add: dbl_def double_overflow_def Let_def)
  show b: "epoch_boundary (Finite 0) = Finite 0" by (simp add: epoch_boundary_def kEpochInterval_def half zero)
  show "\<not> off_boundary (Finite 0)" by (simp add: off_boundary_def b d_sub_def zero kEpochHalfWidth_def)
qed

lemma strtoul_pilot: "strtoul 16 ''02000000'' = 0x02000000"
proof -
  have t: "takeWhile (is_digit_of 16) ''02000000'' = ''02000000''"
    and s: "scan_sign (skip_space (c_str ''02000000'')) = (False, ''02000000'')"
    and x: "\<not> starts_with ''02000000'' ''0x''" "\<not> starts_with ''02000000'' ''0X''"
    and d: "digit_value (CHR ''0'') = Some 0" "digit_value (CHR ''2'') = Some 2"
    by code_simp+
  have "digits_value 16 ''02000000'' = 0x02000000" by (simp add: digits_value_def d)
  then show ?thesis unfolding strtoul_def s by (simp add: Let_def x t del: takeWhile.simps)
qed

lemma atof_0: "atof ''0'' = Finite 0"
proof -
  have s: "scan_sign (skip_space (c_str ''0'')) = (False, ''0'')"
    and d: "is_digit (CHR ''0'')" "digit_value (CHR ''0'') = Some 0"
    by code_simp+
  then show ?thesis unfolding atof_def strtod_def s
    by (simp add: Let_def starts_with_def scan_magnitude_def scan_exponent_def rounded_result_def
        double_overflow_def lower_def)
qed

definition example_message :: string where
  "example_message = ''#RANGEA,COM1,0,60,FINE,2200,0,0;1,G04,0,0,0,0,0,0,0,0,02000000*00000000'' @ crlf"

definition example_fields :: "string list" where
  "example_fields = [''G04'', ''0'', ''0'', ''0'', ''0'', ''0'', ''0'', ''0'', ''0'', ''02000000'']"

lemma parse_example:
  "parse_message example_message = Some (2200, Finite 0, store_record example_fields [])"
proof -
  let ?m = example_message
  let ?f = example_fields
  have toks: "tokens '','' (take 255 (takeWhile (\<lambda>c. c \<noteq> CHR '';'') (c_str ?m))) =
      [''#RANGEA'', ''COM1'', ''0'', ''60'', ''FINE'', ''2200'', ''0'', ''0'']"
    and semi: "CHR '';'' \<in> set (c_str ?m)"
    and body: "strtok body_delims (drop (length (takeWhile (\<lambda>c. c \<noteq> CHR '';'') (c_str ?m)) + 1) (c_str ?m)) =
      Some (''1'', ''G04,0,0,0,0,0,0,0,0,02000000*00000000'' @ crlf)"
    and fields: "take_fields 10 (''G04,0,0,0,0,0,0,0,0,02000000*00000000'' @ crlf) =
      Some (?f, ''00000000'' @ crlf)"
    and num: "atoi ''1'' = 1" "atoi ''2200'' = 2200" "field_prn ''G04'' = 4" "format_sat_id 0 4 = Some ''G04''"
    and band: "signal_band 0 16 = Some (0, 5)" and fine: "starts_with ''FINE'' ''FINE''"
    by code_simp+
  have head: "scan_header 0 (tokens '','' (take 255 (takeWhile (\<lambda>c. c \<noteq> CHR '';'') (c_str ?m)))) (False, 0, Finite 0)
      = (True, 2200, Finite 0)"
    unfolding toks by (simp add: num atof_0 fine)
  have tstat: "field_sys ''02000000'' = 0" "field_sig ''02000000'' = 16"
    by (simp_all add: field_sys_def field_sig_def strtoul_pilot)
  have read: "read_records (nat (atoi ''1'')) (''G04,0,0,0,0,0,0,0,0,02000000*00000000'' @ crlf) [] = store_record ?f []"
  proof -
    have n: "nat (atoi ''1'') = Suc 0" by (simp add: num)
    show ?thesis unfolding n read_records.simps fields by (simp only: option.case prod.case read_records.simps)
  qed
  moreover have "store_record ?f [] \<noteq> []"
    by (simp add: store_record_def num tstat band Let_def example_fields_def)
  ultimately show ?thesis
    unfolding parse_message_def Let_def head body by (simp only: semi) (simp add: num(1) epoch_boundary_0)
qed

lemma best_signal_kept_witness:
  "\<exists>ss. parse_message example_message = Some (2200, Finite 0, ss) \<and> distinct (map sat_key ss) \<and>
     sat_key ` set ss = sig_key ` set (message_signals example_message)"
  using best_signal_kept [OF parse_example] parse_example by blast

end
