(* ===== verification/RinexLogger.thy ===== *)
theory RinexLogger
  imports RinexParse
begin

text \<open>
  The output side of the RINEX logger (\<open>src/main/rinex_logger.cpp\<close>): starting and stopping,
  opening, rotating and closing files, the header, the epochs and the patching of the
  \<open>TIME OF LAST OBS\<close> line in place, and \<open>feed\<close>, which drives them from the receiver's bytes.
  The lemmas show that a file always reads as a header followed by its epochs, with the last
  epoch's time in the header, and that every line has its columns.
\<close>

subsection \<open>Files\<close>

text \<open>An open stream: the bytes written through it so far and its position.\<close>

record rx_file =
  rf_name :: string
  rf_bytes :: string
  rf_pos :: nat

definition f_print :: "string \<Rightarrow> rx_file \<Rightarrow> rx_file" where
  "f_print s f = f\<lparr>rf_bytes := copy_at (rf_bytes f) (rf_pos f) s, rf_pos := rf_pos f + length s\<rparr>"

text \<open>
  What lies outside the program: which names \<open>fopen\<close> accepts, which seeks succeed, and the
  result of a conversion C leaves undefined.
\<close>

record rinex_env =
  re_can_open :: "string \<Rightarrow> bool"
  re_can_seek :: "rx_file \<Rightarrow> nat \<Rightarrow> bool"
  re_cast :: "nat \<Rightarrow> c_double \<Rightarrow> int"

definition f_seek :: "rinex_env \<Rightarrow> nat \<Rightarrow> rx_file \<Rightarrow> bool \<times> rx_file" where
  "f_seek env pos f = (if re_can_seek env f pos then (True, f\<lparr>rf_pos := pos\<rparr>) else (False, f))"

subsection \<open>State\<close>

record rinex_logger =
  rx_ecef_x :: real
  rx_ecef_y :: real
  rx_ecef_z :: real
  rx_lat :: real
  rx_lon :: real
  rx_height :: real
  rx_ant_model :: string
  rx_ant_radome :: string
  rx_ant_delta_h :: real
  rx_active :: bool
  rx_file :: "rx_file option"
  rx_current_file :: string
  rx_gps_week_open :: int
  rx_tow_open :: c_double
  rx_epochs :: nat
  rx_files :: nat
  rx_present_mask :: u32
  rx_last_obs_pos :: nat
  rx_last_obs_week :: int
  rx_last_obs_tow :: c_double
  rx_reader :: rinex_reader
  rx_card :: "string \<rightharpoonup> string"

definition rinex_logger_init :: rinex_logger where
  "rinex_logger_init = \<lparr>rx_ecef_x = 0, rx_ecef_y = 0, rx_ecef_z = 0, rx_lat = 0, rx_lon = 0, rx_height = 0,
     rx_ant_model = ''HXCGPS500'', rx_ant_radome = ''NONE'', rx_ant_delta_h = 0,
     rx_active = False, rx_file = None, rx_current_file = [], rx_gps_week_open = 0,
     rx_tow_open = Finite 0, rx_epochs = 0, rx_files = 0, rx_present_mask = 0,
     rx_last_obs_pos = 0, rx_last_obs_week = 0, rx_last_obs_tow = Finite 0,
     rx_reader = rinex_reader_init, rx_card = Map.empty\<rparr>"

record rinex_status =
  rs_active :: bool
  rs_epochs :: nat
  rs_files :: nat
  rs_current_file :: string

definition rinex_status_of :: "rinex_logger \<Rightarrow> rinex_status" where
  "rinex_status_of s = \<lparr>rs_active = rx_active s, rs_epochs = rx_epochs s, rs_files = rx_files s,
     rs_current_file = rx_current_file s\<rparr>"

definition kSecondsPerFile :: real where "kSecondsPerFile = 3600"
definition kA :: real where "kA = 6378137"
definition kE2 :: real where "kE2 = fl64 (669437999014 / 10 ^ 14)"

text \<open>\<open>sin\<close>, \<open>cos\<close> and \<open>sqrt\<close> are correctly rounded.\<close>

definition geodetic_to_ecef :: "real \<Rightarrow> real \<Rightarrow> real \<Rightarrow> real \<times> real \<times> real" where
  "geodetic_to_ecef lat_deg lon_deg h =
     (let kPi = fl64 (314159265358979323846 / 10 ^ 20);
          lat = fl64 (fl64 (lat_deg * kPi) / 180);
          lon = fl64 (fl64 (lon_deg * kPi) / 180);
          sl = fl64 (sin lat);
          N = fl64 (kA / fl64 (sqrt (fl64 (1 - fl64 (fl64 (kE2 * sl) * sl)))))
      in (fl64 (fl64 (fl64 (N + h) * fl64 (cos lat)) * fl64 (cos lon)),
          fl64 (fl64 (fl64 (N + h) * fl64 (cos lat)) * fl64 (sin lon)),
          fl64 (fl64 (fl64 (N * fl64 (1 - kE2)) + h) * sl)))"

subsection \<open>Lines\<close>

definition time_line :: "string \<Rightarrow> calendar \<Rightarrow> string" where
  "time_line label c =
     fmt_d 6 (ca_Y c) @ fmt_d 6 (ca_Mo c) @ fmt_d 6 (ca_D c) @ fmt_d 6 (ca_h c) @ fmt_d 6 (ca_m c) @
     fmt_f 13 7 (ca_s c) @ ''     GPS         '' @ label @ [CHR 0x0A]"

abbreviation first_obs_line :: "calendar \<Rightarrow> string" where
  "first_obs_line \<equiv> time_line ''TIME OF FIRST OBS''"

abbreviation last_obs_line :: "calendar \<Rightarrow> string" where
  "last_obs_line \<equiv> time_line ''TIME OF LAST OBS''"

definition date_column :: "(nat \<Rightarrow> c_double \<Rightarrow> int) \<Rightarrow> calendar \<Rightarrow> string" where
  "date_column cast c =
     take 20 (fmt_0d 4 (ca_Y c) @ fmt_0d 2 (ca_Mo c) @ fmt_0d 2 (ca_D c) @ '' '' @
       fmt_0d 2 (ca_h c) @ fmt_0d 2 (ca_m c) @ fmt_0d 2 (to_signed cast 32 (ca_s c)) @ '' UTC'')"

definition antenna_type :: "rinex_logger \<Rightarrow> string" where
  "antenna_type s = take 20 (fmt_s 16 16 (rx_ant_model s) @ fmt_s 4 4 (rx_ant_radome s))"

definition in_mask :: "u32 \<Rightarrow> int \<Rightarrow> bool" where
  "in_mask msk sys = (msk AND push_bit (nat sys) 1 \<noteq> 0)"

definition obs_types_line :: "system_def \<Rightarrow> string" where
  "obs_types_line d =
     pad_right 60 (take 79 (sy_code d # ''  '' @ fmt_d 3 (int (sy_nobs d)) @ '' '' @ sy_obs d)) @
     ''SYS / # / OBS TYPES'' @ [CHR 0x0A]"

text \<open>A line of the header: 60 columns and a label.\<close>

definition labelled :: "string \<Rightarrow> string \<Rightarrow> string" where
  "labelled content label = content @ label @ [CHR 0x0A]"

text \<open>The lines of \<open>write_header\<close> before \<open>TIME OF LAST OBS\<close>, in order.\<close>

definition header_lines :: "rinex_env \<Rightarrow> rinex_logger \<Rightarrow> calendar \<Rightarrow> string list" where
  "header_lines env s c =
    [labelled ''     3.03           OBSERVATION DATA    M                   '' ''RINEX VERSION / TYPE'',
     labelled (pad_right 20 ''GPS_BASE'' @ pad_right 20 ''ESP32_RTK'' @ pad_right 20 (date_column (re_cast env) c))
       ''PGM / RUN BY / DATE'',
     labelled (pad_right 60 ''GPS_BASE_STATION'') ''MARKER NAME      '',
     labelled (pad_right 60 ''GEODETIC'') ''MARKER TYPE      '',
     labelled (pad_right 20 ''UNKNOWN'' @ pad_right 40 ''UNKNOWN'') ''OBSERVER / AGENCY'',
     labelled (pad_right 20 ''0000'' @ pad_right 20 ''UM980'' @ pad_right 20 ''UNICORE'') ''REC # / TYPE / VERS'',
     labelled (pad_right 20 ''0000'' @ pad_right 20 (antenna_type s) @ pad_right 20 '''') ''ANT # / TYPE     '',
     labelled (fmt_f 14 4 (Finite (rx_ecef_x s)) @ fmt_f 14 4 (Finite (rx_ecef_y s)) @
       fmt_f 14 4 (Finite (rx_ecef_z s)) @ replicate 18 (CHR '' '')) ''APPROX POSITION XYZ'',
     labelled (fmt_f 14 4 (Finite (rx_ant_delta_h s)) @ fmt_f 14 4 (Finite 0) @
       fmt_f 14 4 (Finite 0) @ replicate 18 (CHR '' '')) ''ANTENNA: DELTA H/E/N''] @
    map obs_types_line (filter (\<lambda>d. in_mask (rx_present_mask s) (sy_sys d)) systems) @
    [labelled (fmt_f 10 3 (Finite (of_int kEpochInterval)) @ pad_right 50 '''') ''INTERVAL'',
     first_obs_line c]"

definition end_of_header :: string where
  "end_of_header = labelled (pad_right 60 '''') ''END OF HEADER    ''"

text \<open>One value and two blank flags; a zero keeps its sign.\<close>

definition fixed_signed :: "nat \<Rightarrow> signed_double \<Rightarrow> string" where
  "fixed_signed n x =
     (let body = (case sn_val x of
                    Finite r \<Rightarrow> fixed_magnitude n \<bar>r\<bar> | Infinite _ \<Rightarrow> ''inf'' | NotANumber \<Rightarrow> ''nan'')
      in if sn_neg x then CHR ''-'' # body else body)"

definition write_obs :: "bool \<Rightarrow> signed_double \<Rightarrow> string" where
  "write_obs valid value =
     (if valid then pad_left (CHR '' '') 14 (fixed_signed 3 value) @ ''  '' else replicate 16 (CHR '' ''))"

definition band_columns :: "sig_obs \<Rightarrow> string" where
  "band_columns g =
     write_obs (so_valid g) (so_pseudorange g) @ write_obs (so_valid g) (so_carrier_phase g) @
     write_obs (so_valid g) (so_doppler g) @ write_obs (so_valid g) (so_cn0 g)"

definition sat_row :: "string \<Rightarrow> sat_obs \<Rightarrow> string" where
  "sat_row i sat =
     i @ concat (map (\<lambda>b. band_columns (sa_sig sat ! b))
           [0 ..< min (system_bands (find_system (sa_system sat))) kBands]) @ [CHR 0x0A]"

text \<open>The satellites an epoch writes: declared in the header, with a legal identifier.\<close>

definition epoch_sats :: "u32 \<Rightarrow> sat_obs list \<Rightarrow> (sat_obs \<times> string) list" where
  "epoch_sats msk sats =
     List.map_filter (\<lambda>sat. if in_mask msk (sa_system sat)
       then map_option (Pair sat) (format_sat_id (sa_system sat) (sa_prn sat)) else None) sats"

definition epoch_line :: "calendar \<Rightarrow> nat \<Rightarrow> string" where
  "epoch_line c n =
     ''> '' @ fmt_d 4 (ca_Y c) @ fmt_d 3 (ca_Mo c) @ fmt_d 3 (ca_D c) @ fmt_d 3 (ca_h c) @ fmt_d 3 (ca_m c) @
     fmt_f 11 7 (ca_s c) @ ''  0'' @ fmt_d 3 (int n) @ [CHR 0x0A]"

subsection \<open>Operations\<close>

definition rinex_start :: "real \<Rightarrow> real \<Rightarrow> real \<Rightarrow> string \<Rightarrow> string \<Rightarrow> real \<Rightarrow> rinex_logger \<Rightarrow> rinex_logger" where
  "rinex_start lat lon height ant_model ant_radome ant_delta_h s =
     (if rx_active s then s
      else (let (x, y, z) = geodetic_to_ecef lat lon height in
        s\<lparr>rx_lat := lat, rx_lon := lon, rx_height := height,
          rx_ant_model := (if ant_model = [] then ''HXCGPS500'' else ant_model),
          rx_ant_radome := (if ant_radome = [] then ''NONE'' else ant_radome),
          rx_ant_delta_h := ant_delta_h,
          rx_ecef_x := x, rx_ecef_y := y, rx_ecef_z := z,
          rx_reader := \<lparr>rr_in_msg = False, rr_buf = []\<rparr>,
          rx_current_file := [], rx_epochs := 0, rx_files := 0,
          rx_active := True\<rparr>))"

text \<open>Patch \<open>TIME OF LAST OBS\<close> in place, when its position is known and can be reached.\<close>

definition close_patch :: "rinex_env \<Rightarrow> rinex_logger \<Rightarrow> rx_file \<Rightarrow> rx_file" where
  "close_patch env s f =
     (if 0 < rx_last_obs_pos s then
        (case f_seek env (rx_last_obs_pos s) f of
           (True, f') \<Rightarrow> f_print (last_obs_line (gps_to_calendar (re_cast env) (rx_last_obs_week s) (rx_last_obs_tow s))) f'
         | (False, f') \<Rightarrow> f')
      else f)"

definition close_file :: "rinex_env \<Rightarrow> rinex_logger \<Rightarrow> rinex_logger" where
  "close_file env s =
     (case rx_file s of
        None \<Rightarrow> s
      | Some f \<Rightarrow>
          s\<lparr>rx_card := (rx_card s)(rf_name f \<mapsto> rf_bytes (close_patch env s f)),
            rx_file := None, rx_files := rx_files s + 1, rx_current_file := []\<rparr>)"

definition rinex_stop :: "rinex_env \<Rightarrow> rinex_logger \<Rightarrow> rinex_logger" where
  "rinex_stop env s = (if \<not> rx_active s then s else close_file env (s\<lparr>rx_active := False\<rparr>))"

definition elapsed_since_open :: "rinex_logger \<Rightarrow> int \<Rightarrow> c_double \<Rightarrow> c_double" where
  "elapsed_since_open s week tow =
     d_add (d_times (Finite (of_int (week - rx_gps_week_open s))) 604800) (d_sub tow (rx_tow_open s))"

definition rotate_if_needed :: "rinex_env \<Rightarrow> int \<Rightarrow> c_double \<Rightarrow> rinex_logger \<Rightarrow> rinex_logger" where
  "rotate_if_needed env week tow s =
     (if rx_file s = None then s
      else if d_at_least (elapsed_since_open s week tow) (Finite kSecondsPerFile) then close_file env s
      else s)"

definition write_header :: "rinex_env \<Rightarrow> int \<Rightarrow> c_double \<Rightarrow> rx_file \<Rightarrow> rinex_logger \<Rightarrow> rinex_logger" where
  "write_header env week tow f s =
     (let c = gps_to_calendar (re_cast env) week tow;
          f1 = foldl (\<lambda>f l. f_print l f) f (header_lines env s c);
          f2 = f_print end_of_header (f_print (last_obs_line c) f1)
      in s\<lparr>rx_file := Some f2, rx_last_obs_pos := rf_pos f1\<rparr>)"

definition file_name :: "rinex_env \<Rightarrow> calendar \<Rightarrow> string" where
  "file_name env c =
     take 127 (''/sdcard/rawdata/BASE_'' @ fmt_0d 4 (ca_Y c) @ fmt_0d 2 (ca_Mo c) @ fmt_0d 2 (ca_D c) @ ''_'' @
       fmt_0d 2 (ca_h c) @ fmt_0d 2 (ca_m c) @ fmt_0d 2 (to_signed (re_cast env) 32 (ca_s c)) @ ''.rnx'')"

definition open_file :: "rinex_env \<Rightarrow> int \<Rightarrow> c_double \<Rightarrow> rinex_logger \<Rightarrow> rinex_logger" where
  "open_file env week tow s =
     (let name = file_name env (gps_to_calendar (re_cast env) week tow) in
      if \<not> re_can_open env name then s
      else write_header env week tow \<lparr>rf_name = name, rf_bytes = [], rf_pos = 0\<rparr>
        (s\<lparr>rx_card := (rx_card s)(name \<mapsto> []), rx_current_file := name, rx_epochs := 0,
           rx_gps_week_open := week, rx_tow_open := tow, rx_last_obs_pos := 0,
           rx_last_obs_week := week, rx_last_obs_tow := tow\<rparr>))"

text \<open>Append an epoch, patch the header's last time, go back to the end, and commit both.\<close>

definition epoch_patch :: "rinex_env \<Rightarrow> nat \<Rightarrow> calendar \<Rightarrow> rx_file \<Rightarrow> rx_file" where
  "epoch_patch env pos c f =
     (if 0 < pos then
        (case f_seek env pos f of
           (True, f') \<Rightarrow> snd (f_seek env (rf_pos f) (f_print (last_obs_line c) f'))
         | (False, f') \<Rightarrow> f')
      else f)"

definition write_epoch :: "rinex_env \<Rightarrow> int \<Rightarrow> c_double \<Rightarrow> sat_obs list \<Rightarrow> rx_file \<Rightarrow> rinex_logger \<Rightarrow> rinex_logger" where
  "write_epoch env week tow sats f s =
     (let c = gps_to_calendar (re_cast env) week tow;
          epoch = epoch_sats (rx_present_mask s) sats in
      if epoch = [] then s
      else
        (let f1 = foldl (\<lambda>f (sat, i). f_print (sat_row i sat) f) (f_print (epoch_line c (length epoch)) f) epoch;
             f2 = epoch_patch env (rx_last_obs_pos s) c f1
         in s\<lparr>rx_last_obs_week := week, rx_last_obs_tow := tow, rx_file := Some f2,
              rx_card := (rx_card s)(rf_name f2 \<mapsto> rf_bytes f2), rx_epochs := rx_epochs s + 1\<rparr>))"

definition mask_of :: "sat_obs list \<Rightarrow> u32" where
  "mask_of sats = foldl (\<lambda>msk s. if find_system (sa_system s) \<noteq> None
     then msk OR push_bit (nat (sa_system s)) 1 else msk) 0 sats"

text \<open>The end of \<open>process_message\<close>: rotate, open when there is no file, write.\<close>

definition record_epoch :: "rinex_env \<Rightarrow> int \<Rightarrow> c_double \<Rightarrow> sat_obs list \<Rightarrow> rinex_logger \<Rightarrow> rinex_logger" where
  "record_epoch env week tow sats s =
     (let s1 = rotate_if_needed env week tow s;
          s2 = (if rx_file s1 = None then open_file env week tow (s1\<lparr>rx_present_mask := mask_of sats\<rparr>) else s1)
      in case rx_file s2 of None \<Rightarrow> s2 | Some f \<Rightarrow> write_epoch env week tow sats f s2)"

definition process_message :: "rinex_env \<Rightarrow> string \<Rightarrow> rinex_logger \<Rightarrow> rinex_logger" where
  "process_message env msg s =
     (case parse_message msg of
        None \<Rightarrow> s
      | Some (week, tow, sats) \<Rightarrow> record_epoch env week tow sats s)"

definition feed_byte :: "rinex_env \<Rightarrow> rinex_logger \<Rightarrow> u8 \<Rightarrow> rinex_logger" where
  "feed_byte env s b =
     (let (r, msgs) = reader_byte (rx_reader s) b
      in foldl (\<lambda>s m. process_message env m s) (s\<lparr>rx_reader := r\<rparr>) msgs)"

definition rinex_feed :: "rinex_env \<Rightarrow> u8 list \<Rightarrow> rinex_logger \<Rightarrow> rinex_logger" where
  "rinex_feed env data s = (if \<not> rx_active s then s else foldl (feed_byte env) s data)"

subsection \<open>Printing into a stream\<close>

definition at_end :: "rx_file \<Rightarrow> bool" where
  "at_end f \<longleftrightarrow> rf_pos f = length (rf_bytes f)"

definition appended :: "string \<Rightarrow> rx_file \<Rightarrow> rx_file" where
  "appended t f = f\<lparr>rf_bytes := rf_bytes f @ t, rf_pos := rf_pos f + length t\<rparr>"

lemma appended_frame [simp]:
  "at_end f \<Longrightarrow> at_end (appended t f)" "rf_name (appended t f) = rf_name f"
  "rf_bytes (appended t f) = rf_bytes f @ t" "rf_pos (appended t f) = rf_pos f + length t"
  "appended u (appended t f) = appended (t @ u) f"
  by (simp_all add: appended_def at_end_def)

lemma f_print_at_end: "at_end f \<Longrightarrow> f_print t f = appended t f"
  by (simp add: f_print_def appended_def at_end_def copy_at_def)

lemma f_print_all: "at_end f \<Longrightarrow> foldl (\<lambda>f l. f_print l f) f ls = appended (concat ls) f"
proof (induction ls arbitrary: f)
  case Nil
  then show ?case by (simp add: appended_def)
next
  case (Cons l ls)
  show ?case using Cons.IH [of "appended l f"] Cons.prems by (simp add: f_print_at_end)
qed

text \<open>Writing over a line of the same width changes that line only.\<close>

lemma copy_at_replace:
  "length new = length old \<Longrightarrow> copy_at (pre @ old @ post) (length pre) new = pre @ new @ post"
  by (simp add: copy_at_def)

subsection \<open>Widths\<close>

text \<open>An epoch the receiver can produce: a week of the next nineteen thousand years, a time within it.\<close>

definition epoch_sane :: "int \<Rightarrow> c_double \<Rightarrow> bool" where
  "epoch_sane w t \<longleftrightarrow> 0 < w \<and> w < 10 ^ 6 \<and> (\<exists>k. t = Finite (of_int k) \<and> 0 \<le> k \<and> k \<le> 604800)"

lemma civil_year_bounds:
  assumes "0 \<le> n" "n < 8000000" "civil_of_days n = (Y, M, D)" shows "0 \<le> Y \<and> Y < 10 ^ 5"
proof -
  define z where "z = n + 719468"
  define doe where "doe = z mod 146097"
  define c where "c = min 3 (doe div 36524)"
  define r where "r = doe - 36524 * c"
  define y where "y = min 3 (r mod 1461 div 365)"
  have doe: "0 \<le> doe" "doe < 146097" by (simp_all add: doe_def)
  have c: "0 \<le> c" "c \<le> 3" using doe by (auto simp: c_def)
  have "0 \<le> r" using doe unfolding r_def c_def by (auto simp: min_def)
  then have q: "0 \<le> r div 1461" by (simp add: div_int_pos_iff)
  have y: "0 \<le> y" "y \<le> 3" by (auto simp: y_def)
  have r: "r < 146097" using doe c unfolding r_def by linarith
  then have q': "r div 1461 < 101" using div_bounds [of 1461 r] by linarith
  have era: "0 \<le> z div 146097" "z div 146097 < 60"
    using assms(1,2) div_bounds [of 146097 z] unfolding z_def by linarith+
  define q where "q = r div 1461"
  define mp where "mp = (5 * (r mod 1461 - 365 * y) + 2) div 153"
  have Y: "Y = 400 * (z div 146097) + 100 * c + 4 * q + y + (if (if mp < 10 then mp + 3 else mp - 9) \<le> 2 then 1 else 0)"
    using assms(3) [unfolded civil_of_days_def Let_def, folded z_def, folded doe_def, folded c_def,
        folded r_def, folded y_def q_def, folded mp_def] unfolding prod.inject by (elim conjE) (rule sym)
  define j :: int where "j = (if (if mp < 10 then mp + 3 else mp - 9) \<le> 2 then 1 else 0)"
  have j: "0 \<le> j" "j \<le> 1" by (simp_all add: j_def)
  show ?thesis using era c q q' y j unfolding Y q_def [symmetric] j_def [symmetric] by simp
qed

lemma sane_calendar:
  assumes "epoch_sane w t" and c: "c = gps_to_calendar cast w t"
  shows "0 \<le> ca_Y c \<and> ca_Y c < 10 ^ 5 \<and> 1 \<le> ca_Mo c \<and> ca_Mo c \<le> 12 \<and> 1 \<le> ca_D c \<and> ca_D c \<le> 31 \<and>
    0 \<le> ca_h c \<and> ca_h c < 24 \<and> 0 \<le> ca_m c \<and> ca_m c < 60 \<and>
    (\<exists>s. ca_s c = Finite (of_int s) \<and> 0 \<le> s \<and> s < 60)"
proof -
  obtain k where k: "t = Finite (of_int k)" "0 \<le> k" "k \<le> 604800" and w: "0 < w" "w < 1000000"
    using assms(1) by (auto simp: epoch_sane_def)
  have small: "\<bar>k\<bar> < 2 ^ 63" using k by simp
  define n where "n = (315964800 + w * 604800 + k) div 86400"
  have n: "0 \<le> n" "n < 8000000"
    using w k div_bounds [of 86400 "315964800 + w * 604800 + k"] unfolding n_def by linarith+
  obtain Y M D where civ: "civil_of_days n = (Y, M, D)" by (metis prod_cases3)
  have "ca_Y c = Y" using civ small unfolding c k(1) n_def by (simp add: calendar_fields to_signed_of_int)
  then show ?thesis
    using civil_year_bounds [OF n civ] calendar_exact [OF small, of cast w c] c k(1) by blast
qed

lemma length_time_line:
  assumes "epoch_sane w t"
  shows "length (time_line label (gps_to_calendar cast w t)) = 61 + length label"
proof -
  define c where "c = gps_to_calendar cast w t"
  note c = sane_calendar [OF assms c_def]
  obtain s where s: "ca_s c = Finite (of_int s)" "0 \<le> s" "s < 60" using c by blast
  have "length (fmt_f 13 7 (ca_s c)) = 13"
    unfolding s(1) by (rule length_fmt_f [of _ 2]) (use s in auto)
  moreover have "length (fmt_d 6 i) = 6" if "0 \<le> i" "i < 10 ^ 5" for i
    using that length_fmt_d(2) [of 5 i] by simp
  ultimately show ?thesis using c unfolding time_line_def c_def [symmetric] by simp
qed

subsection \<open>A file as header and epochs\<close>

text \<open>
  The abstract view of an open file: the epoch it was opened at, the constellations its header
  declares, and the epochs written, each with its satellites.
\<close>

record rinex_image =
  im_week :: int
  im_tow :: c_double
  im_msk :: u32
  im_epochs :: "(int \<times> c_double \<times> sat_obs list) list"

definition im_last :: "rinex_image \<Rightarrow> int \<times> c_double" where
  "im_last i = (if im_epochs i = [] then (im_week i, im_tow i)
     else (fst (last (im_epochs i)), fst (snd (last (im_epochs i)))))"

definition epoch_block :: "rinex_env \<Rightarrow> u32 \<Rightarrow> int \<times> c_double \<times> sat_obs list \<Rightarrow> string" where
  "epoch_block env msk e = (case e of (w, t, sats) \<Rightarrow>
     epoch_line (gps_to_calendar (re_cast env) w t) (length (epoch_sats msk sats)) @
     concat (map (\<lambda>(sat, i). sat_row i sat) (epoch_sats msk sats)))"

definition image_header :: "rinex_env \<Rightarrow> rinex_logger \<Rightarrow> rinex_image \<Rightarrow> string" where
  "image_header env s i =
     concat (header_lines env (s\<lparr>rx_present_mask := im_msk i\<rparr>) (gps_to_calendar (re_cast env) (im_week i) (im_tow i)))"

definition image_text :: "rinex_env \<Rightarrow> rinex_logger \<Rightarrow> rinex_image \<Rightarrow> string" where
  "image_text env s i =
     image_header env s i @
     last_obs_line (gps_to_calendar (re_cast env) (fst (im_last i)) (snd (im_last i))) @
     end_of_header @ concat (map (epoch_block env (im_msk i)) (im_epochs i))"

text \<open>What an epoch does to the view: a new file after an hour or when none is open, then a block.\<close>

definition image_step :: "rinex_env \<Rightarrow> rinex_image option \<Rightarrow> int \<times> c_double \<times> sat_obs list \<Rightarrow> rinex_image option" where
  "image_step env im e = (case e of (w, t, sats) \<Rightarrow>
     (let keep = (case im of None \<Rightarrow> None
            | Some i \<Rightarrow> if d_at_least (d_add (d_times (Finite (of_int (w - im_week i))) 604800) (d_sub t (im_tow i)))
                          (Finite kSecondsPerFile) then None else Some i);
          cur = (case keep of
              Some i \<Rightarrow> Some i
            | None \<Rightarrow> if re_can_open env (file_name env (gps_to_calendar (re_cast env) w t))
                      then Some \<lparr>im_week = w, im_tow = t, im_msk = mask_of sats, im_epochs = []\<rparr> else None)
      in map_option (\<lambda>i. if epoch_sats (im_msk i) sats = [] then i
           else i\<lparr>im_epochs := im_epochs i @ [(w, t, sats)]\<rparr>) cur))"

definition image_sane :: "rinex_image \<Rightarrow> bool" where
  "image_sane i \<longleftrightarrow> epoch_sane (im_week i) (im_tow i) \<and> (\<forall>(w, t, ss) \<in> set (im_epochs i). epoch_sane w t)"

definition file_shows :: "rinex_env \<Rightarrow> rinex_logger \<Rightarrow> rx_file \<Rightarrow> rinex_image \<Rightarrow> bool" where
  "file_shows env s f i \<longleftrightarrow>
     rf_bytes f = image_text env s i \<and> at_end f \<and> image_sane i \<and>
     rx_last_obs_pos s = length (image_header env s i) \<and>
     rx_gps_week_open s = im_week i \<and> rx_tow_open s = im_tow i \<and> rx_present_mask s = im_msk i \<and>
     (rx_last_obs_week s, rx_last_obs_tow s) = im_last i \<and>
     rx_epochs s = length (im_epochs i) \<and>
     (im_epochs i \<noteq> [] \<longrightarrow> rx_card s (rf_name f) = Some (rf_bytes f))"

definition logger_shows :: "rinex_env \<Rightarrow> rinex_logger \<Rightarrow> rinex_image option \<Rightarrow> bool" where
  "logger_shows env s im = (case (rx_file s, im) of
       (None, None) \<Rightarrow> True
     | (Some f, Some i) \<Rightarrow> file_shows env s f i
     | _ \<Rightarrow> False)"

text \<open>Seeking inside a file succeeds.\<close>

definition seeks_ok :: "rinex_env \<Rightarrow> bool" where
  "seeks_ok env \<longleftrightarrow> (\<forall>f pos. pos \<le> length (rf_bytes f) \<longrightarrow> re_can_seek env f pos)"

lemma image_last_sane:
  assumes "image_sane i" shows "epoch_sane (fst (im_last i)) (snd (im_last i))"
proof (cases "im_epochs i = []")
  case True
  then show ?thesis using assms by (simp add: image_sane_def im_last_def)
next
  case False
  obtain w t ss where l: "last (im_epochs i) = (w, t, ss)" by (rule prod_cases3)
  then have "(w, t, ss) \<in> set (im_epochs i)" using last_in_set [OF False] by simp
  then show ?thesis using assms False l by (auto simp: image_sane_def im_last_def)
qed

lemma header_not_empty: "0 < length (image_header env s i)"
  by (simp add: image_header_def header_lines_def labelled_def)

text \<open>The header depends on the position and the antenna only.\<close>

definition same_station :: "rinex_logger \<Rightarrow> rinex_logger \<Rightarrow> bool" where
  "same_station s s' \<longleftrightarrow>
     rx_ecef_x s = rx_ecef_x s' \<and> rx_ecef_y s = rx_ecef_y s' \<and> rx_ecef_z s = rx_ecef_z s' \<and>
     rx_ant_model s = rx_ant_model s' \<and> rx_ant_radome s = rx_ant_radome s' \<and>
     rx_ant_delta_h s = rx_ant_delta_h s'"

lemma same_station_header:
  "same_station s s' \<Longrightarrow> header_lines env (s\<lparr>rx_present_mask := m\<rparr>) = header_lines env (s'\<lparr>rx_present_mask := m\<rparr>)"
  by (simp add: same_station_def header_lines_def antenna_type_def fun_eq_iff)

lemma same_station_text:
  "same_station s s' \<Longrightarrow> image_header env s i = image_header env s' i \<and> image_text env s i = image_text env s' i"
  by (simp add: image_header_def image_text_def same_station_header)

text \<open>Overwriting the last-time line of a file that shows an image.\<close>

lemma patch_line:
  assumes "seeks_ok env" "rf_bytes f = pre @ old @ post" "length new = length old"
  shows "f_seek env (length pre) f = (True, f\<lparr>rf_pos := length pre\<rparr>)"
    and "f_print new (f\<lparr>rf_pos := length pre\<rparr>) = f\<lparr>rf_bytes := pre @ new @ post, rf_pos := length pre + length new\<rparr>"
  using assms by (simp_all add: seeks_ok_def f_seek_def f_print_def copy_at_replace)

lemma last_line_widths:
  assumes "epoch_sane w t" "epoch_sane w' t'"
  shows "length (last_obs_line (gps_to_calendar cast w t)) = length (last_obs_line (gps_to_calendar cast w' t'))"
  using length_time_line [OF assms(1)] length_time_line [OF assms(2)] by simp

lemma close_patch_same:
  assumes "seeks_ok env" "file_shows env s f i"
  shows "rf_bytes (close_patch env s f) = rf_bytes f"
proof -
  let ?l = "last_obs_line (gps_to_calendar (re_cast env) (fst (im_last i)) (snd (im_last i)))"
  have b: "rf_bytes f = image_header env s i @ ?l @ end_of_header @ concat (map (epoch_block env (im_msk i)) (im_epochs i))"
    and pos: "rx_last_obs_pos s = length (image_header env s i)"
    and last: "rx_last_obs_week s = fst (im_last i)" "rx_last_obs_tow s = snd (im_last i)"
    using assms(2) by (simp_all add: file_shows_def image_text_def) (metis fst_conv snd_conv)+
  show ?thesis
    using patch_line [OF assms(1) b, of ?l] header_not_empty [of env s i]
    by (simp add: close_patch_def pos last b)
qed

lemma close_file_card:
  assumes "seeks_ok env" "rx_file s = Some f" "file_shows env s f i"
  shows "rx_card (close_file env s) (rf_name f) = Some (image_text env s i)" "rx_file (close_file env s) = None"
  using close_patch_same [OF assms(1,3)] assms(2,3) by (simp_all add: close_file_def file_shows_def)

lemma write_header_shows:
  assumes "epoch_sane w t" "rx_gps_week_open s = w" "rx_tow_open s = t" "rx_last_obs_week s = w"
    "rx_last_obs_tow s = t" "rx_epochs s = 0"
  shows "logger_shows env (write_header env w t \<lparr>rf_name = name, rf_bytes = [], rf_pos = 0\<rparr> s)
    (Some \<lparr>im_week = w, im_tow = t, im_msk = rx_present_mask s, im_epochs = []\<rparr>)"
proof -
  let ?f = "\<lparr>rf_name = name, rf_bytes = [], rf_pos = 0\<rparr>"
  let ?c = "gps_to_calendar (re_cast env) w t"
  have e: "at_end ?f" by (simp add: at_end_def)
  let ?s = "write_header env w t ?f s"
  have "?s = s\<lparr>rx_file := Some (appended (concat (header_lines env s ?c) @ last_obs_line ?c @ end_of_header) ?f),
      rx_last_obs_pos := length (concat (header_lines env s ?c))\<rparr>"
    using e by (simp add: write_header_def Let_def f_print_all f_print_at_end)
  moreover have "header_lines env (s\<lparr>rx_file := g, rx_last_obs_pos := p, rx_present_mask := rx_present_mask s\<rparr>) = header_lines env s" for g p
    by (simp add: header_lines_def antenna_type_def fun_eq_iff)
  ultimately show ?thesis using assms e
    by (simp add: logger_shows_def file_shows_def image_text_def image_header_def im_last_def image_sane_def)
qed

lemma write_epoch_file:
  assumes ok: "seeks_ok env" and view: "file_shows env s f i" and sane: "epoch_sane w t"
    and ne: "epoch_sats (rx_present_mask s) sats \<noteq> []"
  defines "i' \<equiv> i\<lparr>im_epochs := im_epochs i @ [(w, t, sats)]\<rparr>"
  shows "\<exists>f2. write_epoch env w t sats f s =
      s\<lparr>rx_last_obs_week := w, rx_last_obs_tow := t, rx_file := Some f2,
        rx_card := (rx_card s)(rf_name f2 \<mapsto> rf_bytes f2), rx_epochs := rx_epochs s + 1\<rparr> \<and>
      rf_bytes f2 = image_text env s i' \<and> at_end f2"
proof -
  let ?c = "gps_to_calendar (re_cast env) w t"
  let ?e = "epoch_sats (rx_present_mask s) sats"
  let ?old = "last_obs_line (gps_to_calendar (re_cast env) (fst (im_last i)) (snd (im_last i)))"
  let ?pre = "image_header env s i"
  let ?blocks = "concat (map (epoch_block env (im_msk i)) (im_epochs i))"
  have msk: "rx_present_mask s = im_msk i" and pos: "rx_last_obs_pos s = length ?pre" and e: "at_end f"
    and b: "rf_bytes f = ?pre @ ?old @ end_of_header @ ?blocks" and isane: "image_sane i"
    using view by (simp_all add: file_shows_def image_text_def)
  have rows: "foldl (\<lambda>f (sat, i). f_print (sat_row i sat) f) g xs = appended (concat (map (\<lambda>(sat, i). sat_row i sat) xs)) g"
    if "at_end g" for g xs
    using f_print_all [OF that, of "map (\<lambda>(sat, i). sat_row i sat) xs"]
    by (simp add: foldl_map split_def)
  define f1 where "f1 = appended (epoch_block env (im_msk i) (w, t, sats)) f"
  have f1: "foldl (\<lambda>f (sat, i). f_print (sat_row i sat) f) (f_print (epoch_line ?c (length ?e)) f) ?e = f1"
    using e by (simp add: rows f_print_at_end f1_def epoch_block_def msk)
  have b1: "rf_bytes f1 = ?pre @ ?old @ (end_of_header @ ?blocks @ epoch_block env (im_msk i) (w, t, sats))"
    and e1: "at_end f1" using e by (simp_all add: f1_def b)
  have len: "length (last_obs_line ?c) = length ?old"
    by (rule last_line_widths [OF sane image_last_sane [OF isane]])
  define f2 where "f2 = epoch_patch env (rx_last_obs_pos s) ?c f1"
  have new: "rf_bytes (f1\<lparr>rf_bytes := ?pre @ last_obs_line ?c @ end_of_header @ ?blocks @ epoch_block env (im_msk i) (w, t, sats),
      rf_pos := p\<rparr>) = ?pre @ last_obs_line ?c @ end_of_header @ ?blocks @ epoch_block env (im_msk i) (w, t, sats)" for p
    by simp
  have f2: "f2 = f1\<lparr>rf_bytes := ?pre @ last_obs_line ?c @ end_of_header @ ?blocks @ epoch_block env (im_msk i) (w, t, sats),
      rf_pos := rf_pos f1\<rparr>"
  proof -
    have same: "length (rf_bytes f1) = length (?pre @ last_obs_line ?c @ end_of_header @ ?blocks @ epoch_block env (im_msk i) (w, t, sats))"
      using len by (simp add: b1)
    have "re_can_seek env g (rf_pos f1)" if "length (rf_bytes g) = length (rf_bytes f1)" for g
      using ok e1 that by (simp add: seeks_ok_def at_end_def)
    then have "f_seek env (rf_pos f1) g = (True, g\<lparr>rf_pos := rf_pos f1\<rparr>)" if "length (rf_bytes g) = length (rf_bytes f1)" for g
      using that by (simp add: f_seek_def)
    then show ?thesis
      using patch_line [OF ok b1 len] header_not_empty [of env s i] same
      unfolding f2_def epoch_patch_def pos by simp
  qed
  have "rf_bytes f2 = image_text env s i'"
    by (simp add: f2 image_text_def image_header_def i'_def im_last_def)
  moreover have "at_end f2" using e1 len by (simp add: f2 at_end_def b1)
  moreover have "write_epoch env w t sats f s =
      s\<lparr>rx_last_obs_week := w, rx_last_obs_tow := t, rx_file := Some f2,
        rx_card := (rx_card s)(rf_name f2 \<mapsto> rf_bytes f2), rx_epochs := rx_epochs s + 1\<rparr>"
    using ne by (simp add: write_epoch_def Let_def f1 f2_def [symmetric])
  ultimately show ?thesis by blast
qed

lemma write_epoch_shows:
  assumes "seeks_ok env" "rx_file s = Some f" "file_shows env s f i" "epoch_sane w t"
  shows "logger_shows env (write_epoch env w t sats f s)
    (Some (if epoch_sats (im_msk i) sats = [] then i else i\<lparr>im_epochs := im_epochs i @ [(w, t, sats)]\<rparr>))"
proof (cases "epoch_sats (im_msk i) sats = []")
  case True
  then have "epoch_sats (rx_present_mask s) sats = []" using assms(3) by (simp add: file_shows_def)
  then show ?thesis using True assms(2,3) by (simp add: write_epoch_def logger_shows_def)
next
  case False
  let ?i = "i\<lparr>im_epochs := im_epochs i @ [(w, t, sats)]\<rparr>"
  have "epoch_sats (rx_present_mask s) sats \<noteq> []" using assms(3) False by (simp add: file_shows_def)
  then obtain f2 where f2: "write_epoch env w t sats f s =
      s\<lparr>rx_last_obs_week := w, rx_last_obs_tow := t, rx_file := Some f2,
        rx_card := (rx_card s)(rf_name f2 \<mapsto> rf_bytes f2), rx_epochs := rx_epochs s + 1\<rparr>"
    "rf_bytes f2 = image_text env s ?i" "at_end f2"
    using write_epoch_file [OF assms(1,3,4)] by blast
  let ?s = "write_epoch env w t sats f s"
  have "same_station ?s s" by (simp add: f2(1) same_station_def)
  then have st: "image_header env ?s j = image_header env s j" "image_text env ?s j = image_text env s j" for j
    using same_station_text by blast+
  have "image_sane ?i" using assms(3,4) by (simp add: file_shows_def image_sane_def)
  moreover have "rx_last_obs_pos s = length (image_header env s ?i)"
    using assms(3) by (simp add: file_shows_def image_header_def)
  ultimately have "file_shows env ?s f2 ?i"
    using assms(3) f2(2,3) unfolding file_shows_def st by (simp add: f2(1) im_last_def)
  moreover have "rx_file ?s = Some f2" by (simp add: f2(1))
  ultimately show ?thesis using False by (simp add: logger_shows_def)
qed

lemma open_file_shows:
  assumes "epoch_sane w t" "rx_file s = None"
  shows "logger_shows env (open_file env w t s)
    (if re_can_open env (file_name env (gps_to_calendar (re_cast env) w t))
     then Some \<lparr>im_week = w, im_tow = t, im_msk = rx_present_mask s, im_epochs = []\<rparr> else None)"
proof (cases "re_can_open env (file_name env (gps_to_calendar (re_cast env) w t))")
  case True
  let ?n = "file_name env (gps_to_calendar (re_cast env) w t)"
  let ?s = "s\<lparr>rx_card := (rx_card s)(?n \<mapsto> []), rx_current_file := ?n, rx_epochs := 0,
           rx_gps_week_open := w, rx_tow_open := t, rx_last_obs_pos := 0,
           rx_last_obs_week := w, rx_last_obs_tow := t\<rparr>"
  have "open_file env w t s = write_header env w t \<lparr>rf_name = ?n, rf_bytes = [], rf_pos = 0\<rparr> ?s"
    using True by (simp add: open_file_def Let_def)
  then show ?thesis using True write_header_shows [OF assms(1), of ?s env ?n] by simp
next
  case False
  then show ?thesis using assms(2) by (simp add: open_file_def Let_def logger_shows_def)
qed

lemma rotate_shows:
  assumes "logger_shows env s im"
  shows "logger_shows env (rotate_if_needed env w t s)
    (case im of None \<Rightarrow> None
     | Some i \<Rightarrow> if d_at_least (d_add (d_times (Finite (of_int (w - im_week i))) 604800) (d_sub t (im_tow i)))
                   (Finite kSecondsPerFile) then None else Some i)"
proof (cases im)
  case None
  then show ?thesis using assms by (auto simp: logger_shows_def rotate_if_needed_def split: option.splits)
next
  case (Some i)
  then obtain f where f: "rx_file s = Some f" "file_shows env s f i"
    using assms by (auto simp: logger_shows_def split: option.splits)
  then have "elapsed_since_open s w t = d_add (d_times (Finite (of_int (w - im_week i))) 604800) (d_sub t (im_tow i))"
    by (simp add: elapsed_since_open_def file_shows_def)
  then show ?thesis using f Some
    by (simp add: rotate_if_needed_def logger_shows_def close_file_def)
qed

lemma record_epoch_shows:
  assumes ok: "seeks_ok env" and view: "logger_shows env s im" and sane: "epoch_sane w t"
  shows "logger_shows env (record_epoch env w t sats s) (image_step env im (w, t, sats))"
proof -
  define s1 where "s1 = rotate_if_needed env w t s"
  define keep where "keep = (case im of None \<Rightarrow> None
     | Some i \<Rightarrow> if d_at_least (d_add (d_times (Finite (of_int (w - im_week i))) 604800) (d_sub t (im_tow i)))
                   (Finite kSecondsPerFile) then None else Some i)"
  define s2 where "s2 = (if rx_file s1 = None then open_file env w t (s1\<lparr>rx_present_mask := mask_of sats\<rparr>) else s1)"
  define cur where "cur = (case keep of Some i \<Rightarrow> Some i
            | None \<Rightarrow> if re_can_open env (file_name env (gps_to_calendar (re_cast env) w t))
                      then Some \<lparr>im_week = w, im_tow = t, im_msk = mask_of sats, im_epochs = []\<rparr> else None)"
  have one: "logger_shows env s1 keep" unfolding s1_def keep_def by (rule rotate_shows [OF view])
  have two: "logger_shows env s2 cur"
  proof (cases keep)
    case None
    then have "rx_file s1 = None" using one by (auto simp: logger_shows_def split: option.splits)
    then show ?thesis using None open_file_shows [OF sane, of "s1\<lparr>rx_present_mask := mask_of sats\<rparr>" env]
      by (cases "re_can_open env (file_name env (gps_to_calendar (re_cast env) w t))")
        (simp_all add: s2_def cur_def)
  next
    case (Some i)
    then have "rx_file s1 \<noteq> None" using one by (auto simp: logger_shows_def split: option.splits)
    then have "s2 = s1" by (simp only: s2_def if_False)
    then show ?thesis using Some one by (simp add: cur_def)
  qed
  have step: "image_step env im (w, t, sats) = map_option (\<lambda>i. if epoch_sats (im_msk i) sats = [] then i
      else i\<lparr>im_epochs := im_epochs i @ [(w, t, sats)]\<rparr>) cur"
    unfolding image_step_def prod.case Let_def keep_def [symmetric] cur_def [symmetric] ..
  have rec: "record_epoch env w t sats s = (case rx_file s2 of None \<Rightarrow> s2 | Some f \<Rightarrow> write_epoch env w t sats f s2)"
    unfolding record_epoch_def Let_def s1_def [symmetric] s2_def [symmetric] ..
  show ?thesis
  proof (cases cur)
    case None
    then have "rx_file s2 = None" using two by (auto simp: logger_shows_def split: option.splits)
    then show ?thesis using None two unfolding rec step by simp
  next
    case (Some i)
    then obtain f where f: "rx_file s2 = Some f" "file_shows env s2 f i"
      using two by (auto simp: logger_shows_def split: option.splits)
    show ?thesis using write_epoch_shows [OF ok f sane] unfolding rec step Some by (simp add: f(1))
  qed
qed

definition record_all :: "rinex_env \<Rightarrow> (int \<times> c_double \<times> sat_obs list) list \<Rightarrow> rinex_logger \<Rightarrow> rinex_logger" where
  "record_all env es s = foldl (\<lambda>s (w, t, sats). record_epoch env w t sats s) s es"

lemma record_all_shows:
  assumes "seeks_ok env" "\<forall>(w, t, sats) \<in> set es. epoch_sane w t" "logger_shows env s im"
  shows "logger_shows env (record_all env es s) (foldl (image_step env) im es)"
  using assms(2,3)
proof (induction es arbitrary: s im)
  case (Cons e es)
  obtain w t sats where e: "e = (w, t, sats)" by (rule prod_cases3)
  then have "logger_shows env (record_epoch env w t sats s) (image_step env im e)"
    using record_epoch_shows [OF assms(1) Cons.prems(2)] Cons.prems(1) by simp
  then show ?case using Cons.IH Cons.prems(1) e by (simp add: record_all_def)
qed (simp add: record_all_def)

lemma shows_file: "logger_shows env s im \<Longrightarrow> rx_file s = Some f \<Longrightarrow> \<exists>i. im = Some i \<and> file_shows env s f i"
  by (auto simp: logger_shows_def split: option.splits)

text \<open>
  C3. Whatever epochs the logger records, its open file always reads as the header
  of the epoch it was opened at, with \<open>TIME OF LAST OBS\<close> naming the last epoch in it, followed
  by exactly the blocks of the epochs since then; the patching of the header in place never
  disturbs the rest. Once an epoch is in it the card holds the same text after each recorded
  epoch, so a power cut between epochs leaves a complete file, and stopping leaves it there
  too. The abstract view is \<open>image_step\<close>: an epoch an hour or more after the opening starts
  a new file.
\<close>

theorem rinex_file_always_complete:
  assumes "seeks_ok env" "\<forall>(w, t, sats) \<in> set es. epoch_sane w t" "rx_file s = None"
    "rx_file (record_all env es s) = Some f"
  shows "\<exists>i. foldl (image_step env) None es = Some i \<and>
    rf_bytes f = image_text env (record_all env es s) i \<and>
    (im_epochs i \<noteq> [] \<longrightarrow> rx_card (record_all env es s) (rf_name f) = Some (rf_bytes f)) \<and>
    (rx_active (record_all env es s) \<longrightarrow>
       rx_card (rinex_stop env (record_all env es s)) (rf_name f) = Some (rf_bytes f) \<and>
       rx_file (rinex_stop env (record_all env es s)) = None)"
proof -
  let ?s = "record_all env es s"
  have "logger_shows env s None" using assms(3) by (simp add: logger_shows_def)
  from shows_file [OF record_all_shows [OF assms(1,2) this] assms(4)]
  obtain i where i: "foldl (image_step env) None es = Some i" "file_shows env ?s f i" by blast
  have st: "same_station (?s\<lparr>rx_active := False\<rparr>) ?s" by (simp add: same_station_def)
  have view: "file_shows env (?s\<lparr>rx_active := False\<rparr>) f i"
    using i(2) same_station_text [OF st] by (simp add: file_shows_def)
  have "rx_card (close_file env (?s\<lparr>rx_active := False\<rparr>)) (rf_name f) = Some (rf_bytes f)"
    "rx_file (close_file env (?s\<lparr>rx_active := False\<rparr>)) = None"
    using close_file_card [OF assms(1) _ view] assms(4) view by (simp_all add: file_shows_def)
  then show ?thesis using i by (intro exI [of _ i]) (simp add: file_shows_def rinex_stop_def)
qed

lemma rinex_file_always_complete_witness:
  "let env = \<lparr>re_can_open = \<lambda>_. True, re_can_seek = \<lambda>_ _. True, re_cast = \<lambda>_ _. 0\<rparr>;
       sat = sat_obs_init\<lparr>sa_prn := 4\<rparr>; es = [(2200, Finite 0, [sat]), (2200, Finite 30, [sat])];
       s = record_all env es rinex_logger_init
   in \<exists>f i. rx_file s = Some f \<and> foldl (image_step env) None es = Some i \<and> rf_bytes f = image_text env s i"
proof -
  let ?env = "\<lparr>re_can_open = \<lambda>_. True, re_can_seek = \<lambda>_ _. True, re_cast = \<lambda>_ _. 0\<rparr>"
  let ?sat = "sat_obs_init\<lparr>sa_prn := 4\<rparr>"
  let ?es = "[(2200, Finite 0, [?sat]), (2200, Finite 30, [?sat])]"
  have ok: "seeks_ok ?env" by (simp add: seeks_ok_def)
  have sane: "\<forall>(w, t, sats) \<in> set ?es. epoch_sane w t"
    by (auto simp: epoch_sane_def intro: exI [of _ "0::int"] exI [of _ "30::int"])
  have "logger_shows ?env (record_all ?env ?es rinex_logger_init) (foldl (image_step ?env) None ?es)"
    by (rule record_all_shows [OF ok sane]) (simp add: logger_shows_def rinex_logger_init_def)
  moreover have "foldl (image_step ?env) None ?es \<noteq> None"
    by (auto simp: image_step_def Let_def split: option.splits)
  ultimately obtain f where f: "rx_file (record_all ?env ?es rinex_logger_init) = Some f"
    by (auto simp: logger_shows_def split: option.splits)
  show ?thesis
    using rinex_file_always_complete [OF ok sane _ f] f unfolding Let_def by (auto simp: rinex_logger_init_def)
qed

subsection \<open>Rotation\<close>

lemma elapsed_exact:
  assumes "epoch_sane w (Finite (of_int k))" "epoch_sane w0 (Finite (of_int k0))"
  shows "d_add (d_times (Finite (of_int (w - w0))) 604800) (d_sub (Finite (of_int k)) (Finite (of_int k0))) =
    Finite (of_int (604800 * (w - w0) + (k - k0)))"
proof -
  have k: "0 \<le> k" "k \<le> 604800" "0 \<le> k0" "k0 \<le> 604800" and w: "0 < w" "w < 1000000" "0 < w0" "w0 < 1000000"
    using assms by (auto simp: epoch_sane_def)
  have small: "\<bar>(w - w0) * 604800\<bar> \<le> 2 ^ 53" "\<bar>k - k0\<bar> \<le> 2 ^ 53" "\<bar>604800 * (w - w0) + (k - k0)\<bar> \<le> 2 ^ 53"
    using k w by (simp_all add: abs_le_iff)
  have a: "d_times (Finite (of_int (w - w0))) 604800 = Finite (of_int ((w - w0) * 604800))"
    using dbl_of_int [OF small(1)] by simp
  have b: "d_sub (Finite (of_int k)) (Finite (of_int k0)) = Finite (of_int (k - k0))"
    using dbl_of_int [OF small(2)] by (simp add: d_sub_def)
  show ?thesis unfolding a b using dbl_of_int [OF small(3)] by (simp add: algebra_simps)
qed

lemma image_step_recent:
  assumes "image_step env im (w, t, sats) = Some i" "epoch_sane w t" "\<And>j. im = Some j \<Longrightarrow> image_sane j"
  shows "image_sane i \<and> (\<exists>k k0. t = Finite (of_int k) \<and> im_tow i = Finite (of_int k0) \<and>
    604800 * (w - im_week i) + (k - k0) < 3600)"
proof -
  obtain k where k: "t = Finite (of_int k)" using assms(2) by (auto simp: epoch_sane_def)
  consider (new) "im_week i = w" "im_tow i = t" "set (im_epochs i) \<subseteq> {(w, t, sats)}"
    | (old) j where "im = Some j" "im_week i = im_week j" "im_tow i = im_tow j"
      "set (im_epochs i) \<subseteq> insert (w, t, sats) (set (im_epochs j))"
      "\<not> d_at_least (d_add (d_times (Finite (of_int (w - im_week j))) 604800) (d_sub t (im_tow j))) (Finite kSecondsPerFile)"
    using assms(1) unfolding image_step_def Let_def
    by (auto split: option.splits if_splits)
  then show ?thesis
  proof cases
    case new
    then show ?thesis using assms(2) k by (auto simp: image_sane_def)
  next
    case old
    then have sane: "image_sane j" using assms(3) by blast
    then obtain k0 where k0: "im_tow j = Finite (of_int k0)" "epoch_sane (im_week j) (Finite (of_int k0))"
      by (auto simp: image_sane_def epoch_sane_def)
    have "604800 * (w - im_week j) + (k - k0) < 3600"
      using old(5) elapsed_exact [OF assms(2) [unfolded k] k0(2)]
      by (simp add: k k0(1) d_at_least_def kSecondsPerFile_def del: d_times.simps)
    then show ?thesis using old sane assms(2) k k0(1) by (auto simp: image_sane_def)
  qed
qed

text \<open>
  C36. An epoch is never written into a file opened an hour or more before it: after an epoch
  has been recorded, the open file was opened less than 3600 s of GPS time earlier, also
  across a week's end.
\<close>

theorem rinex_file_within_the_hour:
  assumes "seeks_ok env" "\<forall>(w, t, sats) \<in> set (es @ [(week, Finite (of_int k), ss)]). epoch_sane w t"
    "rx_file s = None" "rx_file (record_all env (es @ [(week, Finite (of_int k), ss)]) s) = Some f"
  shows "\<exists>k0. rx_tow_open (record_all env (es @ [(week, Finite (of_int k), ss)]) s) = Finite (of_int k0) \<and>
    604800 * (week - rx_gps_week_open (record_all env (es @ [(week, Finite (of_int k), ss)]) s)) + (k - k0) < 3600"
proof -
  let ?e = "(week, Finite (of_int k), ss)"
  let ?s = "record_all env (es @ [?e]) s"
  have start: "logger_shows env s None" using assms(3) by (simp add: logger_shows_def)
  obtain i where i: "foldl (image_step env) None (es @ [?e]) = Some i" "file_shows env ?s f i"
    using shows_file [OF record_all_shows [OF assms(1,2) start] assms(4)] by blast
  have "logger_shows env (record_all env es s) (foldl (image_step env) None es)"
    by (rule record_all_shows [OF assms(1) _ start]) (use assms(2) in auto)
  then have "image_sane j" if "foldl (image_step env) None es = Some j" for j
    using that by (auto simp: logger_shows_def file_shows_def split: option.splits)
  then show ?thesis
    using image_step_recent [of env "foldl (image_step env) None es" week "Finite (of_int k)" ss i] i assms(2)
    by (auto simp: file_shows_def)
qed

lemma rinex_file_within_the_hour_witness:
  "let env = \<lparr>re_can_open = \<lambda>_. True, re_can_seek = \<lambda>_ _. True, re_cast = \<lambda>_ _. 0\<rparr>;
       sat = sat_obs_init\<lparr>sa_prn := 4\<rparr>;
       s = record_all env ([(2200, Finite (of_int 604770), [sat])] @ [(2201, Finite (of_int 3570), [sat])]) rinex_logger_init
   in \<exists>k0. rx_tow_open s = Finite (of_int k0) \<and> 604800 * (2201 - rx_gps_week_open s) + (3570 - k0) < 3600"
proof -
  let ?env = "\<lparr>re_can_open = \<lambda>_. True, re_can_seek = \<lambda>_ _. True, re_cast = \<lambda>_ _. 0\<rparr>"
  let ?sat = "sat_obs_init\<lparr>sa_prn := 4\<rparr>"
  let ?es = "[(2200, Finite (of_int 604770), [?sat])] @ [(2201, Finite (of_int 3570), [?sat])]"
  have ok: "seeks_ok ?env" by (simp add: seeks_ok_def)
  have sane: "\<forall>(w, t, sats) \<in> set ?es. epoch_sane w t"
    by (auto simp: epoch_sane_def intro: exI [of _ "604770::int"] exI [of _ "3570::int"])
  have "logger_shows ?env (record_all ?env ?es rinex_logger_init) (foldl (image_step ?env) None ?es)"
    by (rule record_all_shows [OF ok sane]) (simp add: logger_shows_def rinex_logger_init_def)
  moreover have "foldl (image_step ?env) None ?es \<noteq> None"
    by (auto simp: image_step_def Let_def split: option.splits)
  ultimately obtain f where f: "rx_file (record_all ?env ?es rinex_logger_init) = Some f"
    by (auto simp: logger_shows_def split: option.splits)
  show ?thesis
    using rinex_file_within_the_hour [OF ok sane _ f] unfolding Let_def by (auto simp: rinex_logger_init_def)
qed

subsection \<open>From bytes to epochs\<close>

definition process_all :: "rinex_env \<Rightarrow> string list \<Rightarrow> rinex_logger \<Rightarrow> rinex_logger" where
  "process_all env msgs s = foldl (\<lambda>s m. process_message env m s) s msgs"

definition keeps_reader :: "(rinex_logger \<Rightarrow> rinex_logger) \<Rightarrow> bool" where
  "keeps_reader f \<longleftrightarrow> (\<forall>s r. rx_reader (f s) = rx_reader s \<and> rx_active (f s) = rx_active s \<and>
     f (s\<lparr>rx_reader := r\<rparr>) = (f s)\<lparr>rx_reader := r\<rparr>)"

lemma keeps_readerD:
  "keeps_reader f \<Longrightarrow> rx_reader (f s) = rx_reader s" "keeps_reader f \<Longrightarrow> rx_active (f s) = rx_active s"
  "keeps_reader f \<Longrightarrow> f (s\<lparr>rx_reader := r\<rparr>) = (f s)\<lparr>rx_reader := r\<rparr>"
  by (simp_all add: keeps_reader_def)

lemma header_lines_reader [simp]: "header_lines env (s\<lparr>rx_reader := r\<rparr>) = header_lines env s"
  by (simp add: header_lines_def antenna_type_def fun_eq_iff)

lemma close_keeps: "keeps_reader (close_file env)"
  by (auto simp: keeps_reader_def close_file_def close_patch_def f_seek_def split: option.splits)

lemma rotate_keeps: "keeps_reader (rotate_if_needed env w t)"
  using close_keeps [of env]
  by (auto simp: keeps_reader_def rotate_if_needed_def elapsed_since_open_def)

lemma open_keeps: "keeps_reader (open_file env w t)"
proof -
  have "header_lines env (s\<lparr>rx_reader := r, rx_card := c, rx_current_file := n, rx_epochs := 0,
      rx_gps_week_open := w, rx_tow_open := t, rx_last_obs_pos := 0, rx_last_obs_week := w, rx_last_obs_tow := t\<rparr>)
    = header_lines env (s\<lparr>rx_card := c, rx_current_file := n, rx_epochs := 0,
      rx_gps_week_open := w, rx_tow_open := t, rx_last_obs_pos := 0, rx_last_obs_week := w, rx_last_obs_tow := t\<rparr>)" for s r c n
    by (simp add: header_lines_def antenna_type_def fun_eq_iff)
  then show ?thesis by (simp add: keeps_reader_def open_file_def write_header_def Let_def)
qed

lemma write_epoch_keeps: "keeps_reader (write_epoch env w t sats f)"
  by (auto simp: keeps_reader_def write_epoch_def Let_def epoch_patch_def f_seek_def)

lemma record_keeps: "keeps_reader (record_epoch env w t sats)"
proof -
  define opened where "opened s1 = (if rx_file s1 = None then open_file env w t (s1\<lparr>rx_present_mask := mask_of sats\<rparr>) else s1)" for s1
  have swap: "s1\<lparr>rx_reader := r, rx_present_mask := m\<rparr> = s1\<lparr>rx_present_mask := m, rx_reader := r\<rparr>" for s1 :: rinex_logger and r m
    by simp
  have o: "keeps_reader opened"
    using open_keeps [of env w t] unfolding keeps_reader_def opened_def by (auto simp: swap)
  define written where "written s2 = (case rx_file s2 of None \<Rightarrow> s2 | Some f \<Rightarrow> write_epoch env w t sats f s2)" for s2
  have wr: "keeps_reader written"
    using write_epoch_keeps [of env w t sats] unfolding keeps_reader_def written_def by (auto split: option.splits)
  have "record_epoch env w t sats = (\<lambda>s. written (opened (rotate_if_needed env w t s)))"
    by (simp add: fun_eq_iff record_epoch_def Let_def written_def opened_def)
  then show ?thesis using o wr rotate_keeps [of env w t] unfolding keeps_reader_def by simp
qed

lemma process_keeps: "keeps_reader (process_message env m)"
  using record_keeps unfolding process_message_def [abs_def] keeps_reader_def by (auto split: option.splits)

lemma process_all_keeps: "keeps_reader (process_all env ms)"
  by (induction ms) (use process_keeps in \<open>auto simp: keeps_reader_def process_all_def\<close>)

lemma feed_bytes:
  "foldl (feed_byte env) s bs =
     (process_all env (snd (read_stream (rx_reader s) bs)) s)\<lparr>rx_reader := fst (read_stream (rx_reader s) bs)\<rparr>"
proof (induction bs arbitrary: s)
  case Nil
  then show ?case by (simp add: read_stream_def process_all_def)
next
  case (Cons b bs)
  obtain r ms where one: "reader_byte (rx_reader s) b = (r, ms)" by (rule prod.exhaust)
  let ?s = "(process_all env ms s)\<lparr>rx_reader := r\<rparr>"
  have step: "feed_byte env s b = ?s"
    using keeps_readerD(3) [OF process_all_keeps [of env ms]] by (simp add: feed_byte_def one process_all_def)
  obtain r' ms' where rest: "read_stream r bs = (r', ms')" by (rule prod.exhaust)
  have "read_stream (rx_reader s) (b # bs) = (r', ms @ ms')"
    using rest by (simp add: read_stream_def one)
  then show ?case
    using Cons.IH [of ?s] keeps_readerD(3) [OF process_all_keeps [of env ms']]
    by (simp add: step rest process_all_def)
qed

text \<open>
  C35. Feeding the receiver's bytes to an active logger whose reader is idle, in which RANGEA
  lines lie between bytes without a hash sign, does to the logger exactly what processing
  these lines one after the other does, and leaves the reader idle. An inactive logger
  ignores the bytes.
\<close>

theorem feed_processes_lines:
  assumes "\<forall>(g, m) \<in> set xs. (\<forall>b \<in> set g. char8 b \<noteq> CHR ''#'') \<and> rangea_line m"
    "rx_reader s = rinex_reader_init"
  shows "rinex_feed env (concat (map (\<lambda>(g, m). g @ map byte8 m) xs)) s =
    (if rx_active s then process_all env (map snd xs) s else s)"
proof -
  let ?p = "process_all env (map snd xs) s"
  have "rx_reader ?p = rinex_reader_init"
    using keeps_readerD(1) [OF process_all_keeps] assms(2) by simp
  then have "?p\<lparr>rx_reader := rinex_reader_init\<rparr> = ?p" by simp
  then show ?thesis
    using read_stream_lines [OF assms(1)] by (simp add: rinex_feed_def feed_bytes assms(2))
qed

lemma feed_processes_lines_witness:
  "let m = ''#RANGEA,1;*00000000'' @ crlf; env = \<lparr>re_can_open = \<lambda>_. True, re_can_seek = \<lambda>_ _. True, re_cast = \<lambda>_ _. 0\<rparr> in
     rinex_feed env ([0x61, 0x0A] @ map byte8 m) (rinex_logger_init\<lparr>rx_active := True\<rparr>) =
       process_all env [m] (rinex_logger_init\<lparr>rx_active := True\<rparr>)"
proof -
  have noise: "\<forall>b \<in> set [0x61, 0x0A :: u8]. char8 b \<noteq> CHR ''#''" by code_simp
  show ?thesis
    using feed_processes_lines [of "[([0x61, 0x0A], ''#RANGEA,1;*00000000'' @ crlf)]"
        "rinex_logger_init\<lparr>rx_active := True\<rparr>"] noise rangea_line_example
    by (simp add: Let_def rinex_logger_init_def)
qed

subsection \<open>Columns\<close>

lemma fl64_abs_le: assumes "\<bar>x\<bar> \<le> 2 ^ n" shows "\<bar>fl64 x\<bar> \<le> 2 ^ n"
proof -
  have p: "(2::real) ^ n = 2 powi (int n)" by (simp add: power_int_of_nat)
  have f: "in_format 53 (- 1022) ((2::real) ^ n)" unfolding p by (rule in_format_powi) simp
  then have "fl64 x \<le> 2 ^ n" "- (2 ^ n) \<le> fl64 x"
    using assms by (intro fl_le_bound fl_ge_bound; simp)+
  then show ?thesis by simp
qed

lemma fl64_sin_cos_le: "\<bar>fl64 (sin x)\<bar> \<le> 1" "\<bar>fl64 (cos x)\<bar> \<le> 1"
  using fl64_abs_le [of "sin x" 0] fl64_abs_le [of "cos x" 0] by simp_all

lemma abs_mult_le: "\<bar>a\<bar> \<le> c \<Longrightarrow> \<bar>b\<bar> \<le> 1 \<Longrightarrow> \<bar>a * b\<bar> \<le> (c::real)"
  unfolding abs_mult using mult_mono [of "\<bar>a\<bar>" c "\<bar>b\<bar>" 1] by simp

text \<open>Positions within a thousand kilometres of the ellipsoid stay far below the column width.\<close>

lemma ecef_bound:
  assumes h: "\<bar>h\<bar> \<le> 10 ^ 6" and xyz: "geodetic_to_ecef lat lon h = (x, y, z)"
  shows "\<bar>x\<bar> \<le> 2 ^ 25 \<and> \<bar>y\<bar> \<le> 2 ^ 25 \<and> \<bar>z\<bar> \<le> 2 ^ 25"
proof -
  define kPi where "kPi = fl64 (314159265358979323846 / 10 ^ 20)"
  define la where "la = fl64 (fl64 (lat * kPi) / 180)"
  define lo where "lo = fl64 (fl64 (lon * kPi) / 180)"
  define sl where "sl = fl64 (sin la)"
  define d where "d = fl64 (sqrt (fl64 (1 - fl64 (fl64 (kE2 * sl) * sl))))"
  define N where "N = fl64 (kA / d)"
  have sl: "\<bar>sl\<bar> \<le> 1" unfolding sl_def by (rule fl64_sin_cos_le)
  have quarter: "in_format 53 (- 1022) ((1::real) / 4)"
    using in_format_powi [of "- 1022" 53 "- 2"] by (simp add: power_int_minus field_simps)
  have half: "in_format 53 (- 1022) ((1::real) / 2)"
    using in_format_powi [of "- 1022" 53 "- 1"] by (simp add: power_int_minus field_simps)
  have e2: "0 \<le> kE2" "kE2 \<le> 1 / 4"
    unfolding kE2_def by (rule fl_nonneg, simp) (rule fl_le_bound [OF _ quarter]; simp)
  have "\<bar>kE2 * sl\<bar> \<le> 1 / 4" using e2 sl by (intro abs_mult_le) auto
  then have "kE2 * sl \<le> 1 / 4" "- (1 / 4) \<le> kE2 * sl" by linarith+
  then have "fl64 (kE2 * sl) \<le> 1 / 4" "- (1 / 4) \<le> fl64 (kE2 * sl)"
    using quarter by (intro fl_le_bound fl_ge_bound; simp)+
  then have "\<bar>fl64 (kE2 * sl)\<bar> \<le> 1 / 4" by linarith
  then have "\<bar>fl64 (kE2 * sl) * sl\<bar> \<le> 1 / 4" using sl by (rule abs_mult_le)
  then have "fl64 (fl64 (kE2 * sl) * sl) \<le> 1 / 4" by (intro fl_le_bound [OF _ quarter]) auto
  then have "1 / 2 \<le> fl64 (1 - fl64 (fl64 (kE2 * sl) * sl))" by (intro fl_ge_bound [OF _ half]) auto
  then have "1 / 2 \<le> sqrt (fl64 (1 - fl64 (fl64 (kE2 * sl) * sl)))"
    by (intro real_le_rsqrt) (simp add: power2_eq_square)
  then have "1 / 2 \<le> d" unfolding d_def by (intro fl_ge_bound [OF _ half]) auto
  then have "\<bar>kA / d\<bar> \<le> 2 ^ 24" by (simp add: kA_def field_simps)
  then have N: "\<bar>N\<bar> \<le> 2 ^ 24" unfolding N_def by (rule fl64_abs_le)
  have one: "\<bar>fl64 (N + h)\<bar> \<le> 2 ^ 25" using N h by (intro fl64_abs_le) auto
  have e1: "\<bar>fl64 (1 - kE2)\<bar> \<le> 1" using e2 fl64_abs_le [of "1 - kE2" 0] by simp
  have "\<bar>fl64 (N * fl64 (1 - kE2))\<bar> \<le> 2 ^ 24" using N e1 by (intro fl64_abs_le abs_mult_le)
  then have three: "\<bar>fl64 (fl64 (N * fl64 (1 - kE2)) + h)\<bar> \<le> 2 ^ 25" using h by (intro fl64_abs_le) auto
  note two = fl64_abs_le [OF abs_mult_le [OF one fl64_sin_cos_le(2) [of la]]]
  have "\<bar>fl64 (fl64 (fl64 (N + h) * fl64 (cos la)) * u)\<bar> \<le> 2 ^ 25" if "\<bar>u\<bar> \<le> 1" for u
    by (rule fl64_abs_le [OF abs_mult_le [OF two that]])
  moreover have "\<bar>fl64 (fl64 (fl64 (N * fl64 (1 - kE2)) + h) * sl)\<bar> \<le> 2 ^ 25"
    by (rule fl64_abs_le [OF abs_mult_le [OF three sl]])
  moreover have "x = fl64 (fl64 (fl64 (N + h) * fl64 (cos la)) * fl64 (cos lo))"
    "y = fl64 (fl64 (fl64 (N + h) * fl64 (cos la)) * fl64 (sin lo))"
    "z = fl64 (fl64 (fl64 (N * fl64 (1 - kE2)) + h) * sl)"
    using xyz [unfolded geodetic_to_ecef_def Let_def, folded kPi_def, folded la_def lo_def,
      folded sl_def, folded d_def, folded N_def] by simp_all
  ultimately show ?thesis using fl64_sin_cos_le by simp
qed

text \<open>A header line as RINEX wants it: 60 columns, then the label.\<close>

definition header_line :: "string \<Rightarrow> bool" where
  "header_line l \<longleftrightarrow> (\<exists>content label. l = labelled content label \<and> length content = 60 \<and>
     0 < length label \<and> length label \<le> 20)"

lemma header_lineI:
  "length content = 60 \<Longrightarrow> 0 < length label \<Longrightarrow> length label \<le> 20 \<Longrightarrow> header_line (labelled content label)"
  by (auto simp: header_line_def)

lemma time_line_header:
  assumes "epoch_sane w t" "0 < length label" "length label \<le> 20"
  shows "header_line (time_line label (gps_to_calendar cast w t))"
proof -
  let ?c = "gps_to_calendar cast w t"
  let ?content = "fmt_d 6 (ca_Y ?c) @ fmt_d 6 (ca_Mo ?c) @ fmt_d 6 (ca_D ?c) @ fmt_d 6 (ca_h ?c) @
      fmt_d 6 (ca_m ?c) @ fmt_f 13 7 (ca_s ?c) @ ''     GPS         ''"
  have l: "time_line label ?c = labelled ?content label" by (simp add: time_line_def labelled_def)
  have "length (labelled ?content label) = 61 + length label"
    using length_time_line [OF assms(1)] by (simp only: l [symmetric])
  then have "length ?content = 60" by (simp add: labelled_def)
  then show ?thesis unfolding l using assms(2,3) by (rule header_lineI)
qed

lemma obs_types_header: "d \<in> set systems \<Longrightarrow> header_line (obs_types_line d)"
proof -
  assume d: "d \<in> set systems"
  have "list_all (\<lambda>d. length (sy_code d # ''  '' @ fmt_d 3 (int (sy_nobs d)) @ '' '' @ sy_obs d) \<le> 60) systems"
    by code_simp
  then have "length (pad_right 60 (take 79 (sy_code d # ''  '' @ fmt_d 3 (int (sy_nobs d)) @ '' '' @ sy_obs d))) = 60"
    using d unfolding list_all_iff length_pad_right length_take by (auto simp: min_def max_def)
  from header_lineI [OF this, of "''SYS / # / OBS TYPES''"] show ?thesis
    by (simp add: obs_types_line_def labelled_def)
qed

text \<open>
  Every line of a file's header has exactly 60 columns before its label and a label of at
  most 20, as RINEX requires, for any position within a thousand kilometres of the ellipsoid
  and any antenna height below a thousand kilometres, whatever the antenna is called and
  whichever constellations are declared.
\<close>

theorem header_labels_in_column_61:
  assumes "\<bar>height\<bar> \<le> 10 ^ 6" "\<bar>delta\<bar> \<le> 10 ^ 6" "epoch_sane w t" "\<not> rx_active s0"
    and s: "s = (rinex_start lat lon height model radome delta s0)\<lparr>rx_present_mask := msk\<rparr>"
    and l: "l \<in> set (header_lines env s (gps_to_calendar (re_cast env) w t)) \<union>
      {last_obs_line (gps_to_calendar (re_cast env) w t), end_of_header}"
  shows "header_line l"
proof -
  let ?c = "gps_to_calendar (re_cast env) w t"
  have big: "(2::real) ^ 25 \<le> 10 ^ 8 - 1" "(10::real) ^ 6 \<le> 10 ^ 8 - 1" by simp_all
  have w14: "length (fmt_f 14 4 (Finite r)) = 14" if "\<bar>r\<bar> \<le> 10 ^ 8 - 1" for r
    by (rule length_fmt_f [OF that]) simp_all
  have e: "length (fmt_f 14 4 (Finite (rx_ecef_x s))) = 14" "length (fmt_f 14 4 (Finite (rx_ecef_y s))) = 14"
    "length (fmt_f 14 4 (Finite (rx_ecef_z s))) = 14"
  proof (atomize (full))
    obtain x y z where xyz: "geodetic_to_ecef lat lon height = (x, y, z)" by (rule prod_cases3)
    then have "rx_ecef_x s = x" "rx_ecef_y s = y" "rx_ecef_z s = z"
      unfolding s rinex_start_def using assms(4) by simp_all
    then show "length (fmt_f 14 4 (Finite (rx_ecef_x s))) = 14 \<and> length (fmt_f 14 4 (Finite (rx_ecef_y s))) = 14 \<and>
      length (fmt_f 14 4 (Finite (rx_ecef_z s))) = 14"
      using ecef_bound [OF assms(1) xyz] big by (auto intro!: w14 intro: order_trans)
  qed
  have d: "length (fmt_f 14 4 (Finite (rx_ant_delta_h s))) = 14"
    unfolding s rinex_start_def using assms(2,4) big
    by (intro w14) (auto split: prod.splits intro: order_trans)
  have z: "length (fmt_f 14 4 (Finite 0)) = 14" by (rule w14) simp
  have i: "length (fmt_f 10 3 (Finite (of_int kEpochInterval))) = 10"
    by (rule length_fmt_f [of _ 2]) (simp_all add: kEpochInterval_def)
  have dates: "length (date_column (re_cast env) ?c) \<le> 20" "length (antenna_type s) \<le> 20"
    by (simp_all add: date_column_def antenna_type_def)
  have t1: "header_line (first_obs_line ?c)" and t2: "header_line (last_obs_line ?c)"
    by (rule time_line_header [OF assms(3)]; simp)+
  have e1: "header_line end_of_header"
    unfolding end_of_header_def by (rule header_lineI) (simp_all add: length_pad_right)
  have sys: "\<forall>l \<in> set (map obs_types_line (filter (\<lambda>d. in_mask (rx_present_mask s) (sy_sys d)) systems)). header_line l"
    using obs_types_header by auto
  have "\<forall>l \<in> set (header_lines env s ?c). header_line l"
    unfolding header_lines_def set_append ball_Un using sys
    by (auto intro!: header_lineI t1 simp: length_pad_right e d z i dates max_absorb1)
  then show ?thesis using l t2 e1 by blast
qed

lemma header_labels_in_column_61_witness:
  "let env = \<lparr>re_can_open = \<lambda>_. True, re_can_seek = \<lambda>_ _. True, re_cast = \<lambda>_ _. 0\<rparr>;
       s = (rinex_start 45 10 100 ''TRM59800.00'' [] 0 rinex_logger_init)\<lparr>rx_present_mask := 1\<rparr>
   in header_line (hd (header_lines env s (gps_to_calendar (re_cast env) 2200 (Finite (of_int 30)))))"
proof -
  let ?env = "\<lparr>re_can_open = \<lambda>_. True, re_can_seek = \<lambda>_ _. True, re_cast = \<lambda>_ _. 0\<rparr>"
  let ?s = "(rinex_start 45 10 100 ''TRM59800.00'' [] 0 rinex_logger_init)\<lparr>rx_present_mask := 1\<rparr>"
  have sane: "epoch_sane 2200 (Finite (of_int 30))"
    unfolding epoch_sane_def by (intro conjI exI [of _ 30]) simp_all
  have mem: "hd (header_lines ?env ?s c) \<in> set (header_lines ?env ?s c) \<union> B" for c B
    by (simp add: header_lines_def)
  show ?thesis unfolding Let_def
    by (rule header_labels_in_column_61 [where height = 100 and delta = 0 and s = ?s and ?s0.0 = rinex_logger_init
        and lat = 45 and lon = 10 and model = "''TRM59800.00''" and radome = "[]" and msk = 1, OF _ _ sane _ refl mem])
      (simp_all add: rinex_logger_init_def)
qed

text \<open>Not every label is 20 columns long, so not every line is 80, as a comment of the source says.\<close>

lemma marker_line_is_short:
  "\<exists>l \<in> set (header_lines env s c). length (butlast l) = 77"
  by (rule bexI [of _ "labelled (pad_right 60 ''GPS_BASE_STATION'') ''MARKER NAME      ''"])
    (simp_all add: header_lines_def labelled_def pad_right_def)

definition sn_fits :: "signed_double \<Rightarrow> bool" where
  "sn_fits x \<longleftrightarrow> (\<exists>r. sn_val x = Finite r \<and> \<bar>r\<bar> \<le> 10 ^ 9 - 1)"

definition obs_fits :: "sig_obs \<Rightarrow> bool" where
  "obs_fits g \<longleftrightarrow> sn_fits (so_pseudorange g) \<and> sn_fits (so_carrier_phase g) \<and>
     sn_fits (so_doppler g) \<and> sn_fits (so_cn0 g)"

lemma length_write_obs: assumes "valid \<Longrightarrow> sn_fits x" shows "length (write_obs valid x) = 16"
proof (cases valid)
  case True
  then obtain r where r: "sn_val x = Finite r" "\<bar>r\<bar> \<le> 10 ^ 9 - 1" using assms by (auto simp: sn_fits_def)
  have "length (fixed_magnitude 3 \<bar>r\<bar>) \<le> 9 + 1 + 3" by (rule length_fixed_magnitude) (use r(2) in simp_all)
  then have "length (fixed_signed 3 x) \<le> 14" by (simp add: fixed_signed_def r(1) Let_def)
  then show ?thesis using True by (simp add: write_obs_def length_pad_left)
qed (simp add: write_obs_def)

lemma length_band_columns: "(so_valid g \<Longrightarrow> obs_fits g) \<Longrightarrow> length (band_columns g) = 64"
  by (simp add: band_columns_def length_write_obs obs_fits_def)

lemma length_concat_const: "(\<And>x. x \<in> set xs \<Longrightarrow> length (f x) = n) \<Longrightarrow> length (concat (map f xs)) = n * length xs"
  by (induction xs) simp_all

lemma system_bands_nobs:
  assumes "find_system sys = Some d" shows "64 * min (system_bands (Some d)) kBands = 16 * sy_nobs d"
  using systems_set [of d] find_system_mem [OF assms] by (auto simp: system_bands_def kBands_def)

lemma epoch_sats_mem:
  assumes "(sat, i) \<in> set (epoch_sats msk sats)"
  shows "sat \<in> set sats \<and> in_mask msk (sa_system sat) \<and> format_sat_id (sa_system sat) (sa_prn sat) = Some i"
  using assms by (auto simp: epoch_sats_def List.map_filter_def split: if_splits)

text \<open>What one satellite contributes: its identifier, then sixteen columns for each code of its constellation.\<close>

definition row_of :: "sat_obs \<Rightarrow> string \<Rightarrow> bool" where
  "row_of sat row \<longleftrightarrow> (\<exists>d i cols. row = i @ cols @ [CHR 0x0A] \<and>
     find_system (sa_system sat) = Some d \<and> format_sat_id (sa_system sat) (sa_prn sat) = Some i \<and>
     length i = 3 \<and> length cols = 16 * sy_nobs d)"

text \<open>The satellites of an epoch that a file with a given mask can hold.\<close>

definition recordable :: "u32 \<Rightarrow> sat_obs \<Rightarrow> bool" where
  "recordable msk sat \<longleftrightarrow> in_mask msk (sa_system sat) \<and> format_sat_id (sa_system sat) (sa_prn sat) \<noteq> None"

lemma epoch_sats_fst: "map fst (epoch_sats msk sats) = filter (recordable msk) sats"
  by (induction sats) (auto simp: epoch_sats_def List.map_filter_def recordable_def)

lemma sat_row_of:
  assumes "parse_message m = Some (w, t, sats)"
    "\<forall>s \<in> set sats. \<forall>g \<in> set (sa_sig s). so_valid g \<longrightarrow> obs_fits g" "(s, i) \<in> set (epoch_sats msk sats)"
  shows "row_of s (sat_row i s)"
proof -
  have s: "s \<in> set sats" "format_sat_id (sa_system s) (sa_prn s) = Some i"
    using epoch_sats_mem [OF assms(3)] by auto
  obtain d where d: "find_system (sa_system s) = Some d" using s(2) by (rule format_sat_id_Some)
  have "sat_ok s" using assms(1) s(1) by (auto elim: parse_message_cases simp: table_of_def)
  let ?bands = "[0 ..< min (system_bands (Some d)) kBands]"
  let ?cols = "concat (map (\<lambda>b. band_columns (sa_sig s ! b)) ?bands)"
  have "length (band_columns (sa_sig s ! b)) = 64" if "b \<in> set ?bands" for b
  proof (rule length_band_columns)
    have "sa_sig s ! b \<in> set (sa_sig s)" using that \<open>sat_ok s\<close> by (auto simp: sat_ok_def)
    then show "so_valid (sa_sig s ! b) \<Longrightarrow> obs_fits (sa_sig s ! b)" using assms(2) s(1) by blast
  qed
  then have "length ?cols = 64 * length ?bands" by (rule length_concat_const)
  then have "length ?cols = 16 * sy_nobs d" using system_bands_nobs [OF d] by simp
  moreover have "sat_row i s = i @ ?cols @ [CHR 0x0A]" by (simp add: sat_row_def d)
  ultimately show ?thesis using s(2) d length_sat_id [OF s(2)] unfolding row_of_def by blast
qed

lemma drop_past_patch:
  assumes "pos + length l \<le> n" "n \<le> length bs"
  shows "drop n (copy_at bs pos l) = drop n bs"
proof (cases "l = []")
  case False
  then have "pos < length bs" using assms by (cases l) auto
  then show ?thesis using assms by (simp add: copy_at_def min_def)
qed (simp add: copy_at_def)

text \<open>Whatever the seeks answer, the patch of the header leaves the text after the header alone.\<close>

lemma epoch_patch_after:
  assumes "pos + length (last_obs_line c) \<le> n" "n \<le> length (rf_bytes f)"
  shows "drop n (rf_bytes (epoch_patch env pos c f)) = drop n (rf_bytes f)"
    "rf_name (epoch_patch env pos c f) = rf_name f"
  using drop_past_patch [OF assms] by (simp_all add: epoch_patch_def f_seek_def f_print_def)

lemma write_epoch_appends:
  assumes "at_end f" "epoch_sats (rx_present_mask s) sats \<noteq> []"
    and "rx_last_obs_pos s + length (last_obs_line (gps_to_calendar (re_cast env) w t)) \<le> length (rf_bytes f)"
  shows "\<exists>f'. rx_file (write_epoch env w t sats f s) = Some f' \<and>
    rx_card (write_epoch env w t sats f s) (rf_name f) = Some (rf_bytes f') \<and>
    drop (length (rf_bytes f)) (rf_bytes f') =
      epoch_line (gps_to_calendar (re_cast env) w t) (length (epoch_sats (rx_present_mask s) sats)) @
      concat (map (\<lambda>(sat, i). sat_row i sat) (epoch_sats (rx_present_mask s) sats))"
proof -
  let ?c = "gps_to_calendar (re_cast env) w t"
  let ?e = "epoch_sats (rx_present_mask s) sats"
  let ?new = "epoch_line ?c (length ?e) @ concat (map (\<lambda>(sat, i). sat_row i sat) ?e)"
  have "foldl (\<lambda>f (sat, i). f_print (sat_row i sat) f) (f_print (epoch_line ?c (length ?e)) f) ?e = appended ?new f"
    using f_print_all [of "appended (epoch_line ?c (length ?e)) f" "map (\<lambda>(sat, i). sat_row i sat) ?e"] assms(1)
    by (simp add: foldl_map split_def f_print_at_end)
  moreover define f' where "f' = epoch_patch env (rx_last_obs_pos s) ?c (appended ?new f)"
  ultimately have "write_epoch env w t sats f s = s\<lparr>rx_last_obs_week := w, rx_last_obs_tow := t, rx_file := Some f',
      rx_card := (rx_card s)(rf_name f' \<mapsto> rf_bytes f'), rx_epochs := rx_epochs s + 1\<rparr>"
    using assms(2) by (simp add: write_epoch_def Let_def)
  moreover have "drop (length (rf_bytes f)) (rf_bytes f') = ?new" "rf_name f' = rf_name f"
    using epoch_patch_after [OF assms(3), of "appended ?new f" env] by (simp_all add: f'_def appended_def)
  ultimately show ?thesis by simp
qed

text \<open>
  C37. What \<open>write_epoch\<close> adds to the open file for a received message, whatever its seeks answer:
  nothing when no satellite can be recorded; otherwise, after the text already there, a line with
  the epoch's calendar time and the number of rows that follow, and one row for each satellite that
  can be recorded, in order: the three columns of its legal identifier and then sixteen columns for
  each of the observation codes the header declares for its constellation, whichever of its signals
  were received, provided the numbers received are below a thousand million. The card then holds
  the text of the open file.
\<close>

theorem epoch_rows_match_header:
  assumes "parse_message m = Some (w, t, sats)"
    "\<forall>s \<in> set sats. \<forall>g \<in> set (sa_sig s). so_valid g \<longrightarrow> obs_fits g"
    "at_end f" "rx_last_obs_pos s + length (last_obs_line (gps_to_calendar (re_cast env) w t)) \<le> length (rf_bytes f)"
  defines "c \<equiv> gps_to_calendar (re_cast env) w t" and "listed \<equiv> filter (recordable (rx_present_mask s)) sats"
    and "s' \<equiv> write_epoch env w t sats f s"
  shows "(if listed = [] then s' = s
    else \<exists>f' rows. rx_file s' = Some f' \<and> rx_card s' (rf_name f) = Some (rf_bytes f') \<and>
      drop (length (rf_bytes f)) (rf_bytes f') =
        ''> '' @ fmt_d 4 (ca_Y c) @ fmt_d 3 (ca_Mo c) @ fmt_d 3 (ca_D c) @ fmt_d 3 (ca_h c) @ fmt_d 3 (ca_m c) @
        fmt_f 11 7 (ca_s c) @ ''  0'' @ fmt_d 3 (int (length rows)) @ [CHR 0x0A] @ concat rows \<and>
      list_all2 row_of listed rows)"
proof (cases "epoch_sats (rx_present_mask s) sats = []")
  case True
  then have "listed = []" using epoch_sats_fst [of "rx_present_mask s" sats] by (simp add: listed_def)
  then show ?thesis using True by (simp add: s'_def write_epoch_def Let_def)
next
  case False
  let ?e = "epoch_sats (rx_present_mask s) sats"
  let ?rows = "map (\<lambda>(sat, i). sat_row i sat) ?e"
  have l: "listed = map fst ?e" by (simp add: listed_def epoch_sats_fst)
  obtain f' where f': "rx_file s' = Some f'" "rx_card s' (rf_name f) = Some (rf_bytes f')"
    "drop (length (rf_bytes f)) (rf_bytes f') = epoch_line c (length ?rows) @ concat ?rows"
    using write_epoch_appends [OF assms(3) False assms(4)] by (auto simp: s'_def c_def)
  have "list_all2 row_of listed ?rows"
    using sat_row_of [OF assms(1,2), of _ _ "rx_present_mask s"]
    unfolding l list_all2_map1 list_all2_map2 by (intro list.rel_refl_strong) auto
  then show ?thesis using False f' unfolding l epoch_line_def by fastforce
qed

lemma store_record_values:
  assumes "s \<in> set (store_record f [])" "g \<in> set (sa_sig s)"
  shows "g = field_obs f \<or> g = sig_obs_init"
proof -
  obtain prn sys glo band pref where s: "s = keep_best band pref (field_obs f)
      (sat_obs_init\<lparr>sa_prn := prn, sa_system := sys, sa_glo_freq := glo\<rparr>)"
    using assms(1) by (auto simp: store_record_def Let_def split: if_splits option.splits)
  have "set (sa_sig s) \<subseteq> insert (field_obs f) {sig_obs_init}"
    unfolding s keep_best_def sat_obs_init_def
    using set_update_subset_insert [of "replicate kBands sig_obs_init" band "field_obs f"] by auto
  then show ?thesis using assms(2) by blast
qed

lemma example_obs_fit:
  "\<forall>s \<in> set (store_record example_fields []). \<forall>g \<in> set (sa_sig s). so_valid g \<longrightarrow> obs_fits g"
proof -
  have z: "sn_fits (atof_signed ''0'')" "sn_fits (sn_negate (atof_signed ''0''))" "sn_fits (sn_float (atof_signed ''0''))"
    by (simp_all add: sn_fits_def atof_signed_def sn_negate_def sn_float_def atof_0)
  have "obs_fits (field_obs example_fields)"
    unfolding obs_fits_def field_obs_def example_fields_def using z by simp
  moreover have "\<not> so_valid sig_obs_init" by (simp add: sig_obs_init_def Let_def)
  ultimately show ?thesis using store_record_values by blast
qed

lemma example_sats:
  "\<exists>s. store_record example_fields [] = [s] \<and> recordable 1 s"
proof -
  have num: "field_prn ''G04'' = 4" "format_sat_id 0 4 = Some ''G04''" "signal_band 0 16 = Some (0, 5)"
    by code_simp+
  have tstat: "field_sys ''02000000'' = 0" "field_sig ''02000000'' = 16"
    by (simp_all add: field_sys_def field_sig_def strtoul_pilot)
  show ?thesis
    by (simp add: store_record_def num tstat Let_def example_fields_def recordable_def keep_best_def in_mask_def)
qed

lemma epoch_rows_match_header_witness:
  "let sats = store_record example_fields [];
       env = \<lparr>re_can_open = \<lambda>_. True, re_can_seek = \<lambda>_ _. True, re_cast = \<lambda>_ _. 0\<rparr>;
       s = open_file env 2200 (Finite 0) (rinex_logger_init\<lparr>rx_present_mask := 1\<rparr>);
       f = the (rx_file s)
   in \<exists>f' row. rx_file (write_epoch env 2200 (Finite 0) sats f s) = Some f' \<and>
        (\<exists>stamp. drop (length (rf_bytes f)) (rf_bytes f') = ''> '' @ stamp @ ''  0  1'' @ [CHR 0x0A] @ row) \<and>
        row_of (hd sats) row"
proof -
  define env where "env = \<lparr>re_can_open = \<lambda>_. True, re_can_seek = \<lambda>_ _. True, re_cast = \<lambda>_ _. 0\<rparr>"
  define s where "s = open_file env 2200 (Finite 0) (rinex_logger_init\<lparr>rx_present_mask := 1\<rparr>)"
  define i where "i = \<lparr>im_week = 2200, im_tow = Finite 0, im_msk = 1, im_epochs = []\<rparr>"
  define sats where "sats = store_record example_fields []"
  let ?c = "gps_to_calendar (re_cast env) 2200 (Finite 0)"
  have sane: "epoch_sane 2200 (Finite 0)"
    unfolding epoch_sane_def by (intro conjI exI [of _ 0]) simp_all
  have "logger_shows env s (Some i)"
    using open_file_shows [OF sane, of "rinex_logger_init\<lparr>rx_present_mask := 1\<rparr>" env]
    by (simp add: s_def i_def env_def rinex_logger_init_def)
  then obtain f where f: "rx_file s = Some f" and view: "file_shows env s f i"
    by (auto simp: logger_shows_def split: option.splits)
  have at: "at_end f" and msk: "rx_present_mask s = 1"
    and slot: "rx_last_obs_pos s + length (last_obs_line (gps_to_calendar (re_cast env) 2200 (Finite 0))) \<le> length (rf_bytes f)"
    using view by (simp_all add: file_shows_def image_text_def i_def im_last_def)
  obtain sat where sat: "sats = [sat]" "recordable 1 sat" using example_sats by (auto simp: sats_def)
  have "filter (recordable (rx_present_mask s)) sats = [sat]" by (simp add: sat msk)
  moreover have one: "fmt_d 3 1 = ''  1''" by code_simp
  ultimately obtain f' rows where r: "rx_file (write_epoch env 2200 (Finite 0) sats f s) = Some f'"
    "list_all2 row_of [sat] rows"
    and t: "drop (length (rf_bytes f)) (rf_bytes f') =
        ''> '' @ fmt_d 4 (ca_Y ?c) @ fmt_d 3 (ca_Mo ?c) @ fmt_d 3 (ca_D ?c) @ fmt_d 3 (ca_h ?c) @ fmt_d 3 (ca_m ?c) @
        fmt_f 11 7 (ca_s ?c) @ ''  0'' @ fmt_d 3 (int (length rows)) @ [CHR 0x0A] @ concat rows"
    using epoch_rows_match_header [OF parse_example example_obs_fit at slot]
    unfolding sats_def [symmetric] by (simp del: append.simps) blast
  obtain row where row: "rows = [row]" "row_of sat row" using r(2) by (auto simp: list_all2_Cons1)
  have "\<exists>stamp. drop (length (rf_bytes f)) (rf_bytes f') = ''> '' @ stamp @ ''  0  1'' @ [CHR 0x0A] @ row"
    by (rule exI [of _ "fmt_d 4 (ca_Y ?c) @ fmt_d 3 (ca_Mo ?c) @ fmt_d 3 (ca_D ?c) @ fmt_d 3 (ca_h ?c) @
      fmt_d 3 (ca_m ?c) @ fmt_f 11 7 (ca_s ?c)"]) (simp add: t row(1) one)
  then show ?thesis
    unfolding env_def [symmetric] s_def [symmetric] sats_def [symmetric] Let_def f option.sel
    using r(1) row(2) sat(1) by auto
qed

end
