(* ===== verification/BaseStation.thy ===== *)
theory BaseStation
  imports Corrections Survey Storage Um980 LocalCaster NtripPush RinexLogger
begin

text \<open>
  The coordinator of \<open>src/main/base_station.cpp\<close>: it owns the receiver driver, the survey, the
  local caster, the three outbound clients, the RINEX logger and the RTCM path, switches
  between surveying, transmitting and raw collection, and decides when streams may run. The
  lemmas show the stream gate, the exclusion of raw collection and transmission, and the path
  of a frame from the receiver's bytes to the casters.

  \<^item> The clock is read through arguments: one reading serves one call of an operation (the
    three clients that \<open>apply_stream_state\<close> resumes get the same one).
  \<^item> \<open>uart_read_bytes\<close> is an input: the chunks it returns in one pass, each byte with the time
    it is handled; \<open>uart_flush_input\<close> acts on the driver only.
  \<^item> An operation another task calls runs as one step; \<open>apply_stream_state\<close> is also split into
    its reading and its writing half.
\<close>

subsection \<open>State\<close>

datatype base_mode = Survey | Transmit

datatype base_action =
    ActSurvey
  | ActPosition u64 u64 u64
  | ActStartRaw
  | ActStopRaw
  | ActResetUm980

record ('n, 'u, 'q, 'a) base_env =
  be_nvs :: "'n nvs"
  be_uart :: "'u uart"
  be_packets :: "('q, u8 list) queue_ops"
  be_actions :: "('a, base_action) queue_ops"
  be_rinex :: rinex_env

record ('n, 'u, 'q, 'a) base_station =
  bs_storage :: "'n storage"
  bs_receiver :: "'u um980"
  bs_survey :: survey
  bs_caster :: "'q local_caster"
  bs_rtk2go :: "'q ntrip"
  bs_onocoy :: "'q ntrip"
  bs_rtkdata :: "'q ntrip"
  bs_rinex :: rinex_logger
  bs_actions :: "'a option"
  bs_stopping :: bool
  bs_transient_suspended :: bool
  bs_user_enabled :: bool
  bs_network_available :: bool
  bs_has_rtcm :: bool
  bs_rate_ready :: bool
  bs_raw :: bool
  bs_mode :: base_mode
  bs_rtcm_bps :: u32
  bs_rtcm_total :: u64
  bs_heartbeat_us :: time_us
  bs_parser :: rtcm_parser
  bs_batch :: rtcm_batch
  bs_corrections :: corrections
  bs_rate_started :: time_us
  bs_rate_bytes :: u32

text \<open>The object as constructed; the last two fields are locals of \<open>run\<close>.\<close>

definition base_station_init :: "'n storage \<Rightarrow> 'u um980 \<Rightarrow> ('n, 'u, 'q, 'a) base_station" where
  "base_station_init st um = \<lparr>bs_storage = st, bs_receiver = um, bs_survey = survey_init,
     bs_caster = local_caster_init, bs_rtk2go = ntrip_init, bs_onocoy = ntrip_init, bs_rtkdata = ntrip_init,
     bs_rinex = rinex_logger_init, bs_actions = None, bs_stopping = False, bs_transient_suspended = True,
     bs_user_enabled = True, bs_network_available = False, bs_has_rtcm = False, bs_rate_ready = False,
     bs_raw = False, bs_mode = Survey, bs_rtcm_bps = 0, bs_rtcm_total = 0, bs_heartbeat_us = 0,
     bs_parser = rtcm_parser_init, bs_batch = rtcm_batch_init, bs_corrections = corrections_init,
     bs_rate_started = 0, bs_rate_bytes = 0\<rparr>"

definition kMinOutboundRtcmBps :: u32 where "kMinOutboundRtcmBps = 900"

subsection \<open>The stream gate\<close>

definition effective_streams_suspended :: "('n, 'u, 'q, 'a) base_station \<Rightarrow> bool" where
  "effective_streams_suspended s =
     (bs_transient_suspended s \<or> \<not> bs_user_enabled s \<or> bs_mode s \<noteq> Transmit \<or> \<not> bs_has_rtcm s \<or> bs_raw s)"

definition effective_outbound_streams_suspended :: "('n, 'u, 'q, 'a) base_station \<Rightarrow> bool" where
  "effective_outbound_streams_suspended s =
     (effective_streams_suspended s \<or> \<not> bs_network_available s \<or> \<not> bs_rate_ready s)"

text \<open>The writing half of \<open>apply_stream_state\<close>, given the two decisions.\<close>

definition write_stream_state :: "time_us \<Rightarrow> bool \<times> bool \<Rightarrow> ('n, 'u, 'q, 'a) base_station \<Rightarrow> ('n, 'u, 'q, 'a) base_station" where
  "write_stream_state now d s = (case d of (suspended, outbound_suspended) \<Rightarrow>
     s\<lparr>bs_caster := lc_set_suspended suspended (bs_caster s),
       bs_rtk2go := np_set_suspended outbound_suspended now (bs_rtk2go s),
       bs_onocoy := np_set_suspended outbound_suspended now (bs_onocoy s),
       bs_rtkdata := np_set_suspended outbound_suspended now (bs_rtkdata s)\<rparr>)"

definition apply_stream_state :: "time_us \<Rightarrow> ('n, 'u, 'q, 'a) base_station \<Rightarrow> ('n, 'u, 'q, 'a) base_station" where
  "apply_stream_state now s =
     write_stream_state now (effective_streams_suspended s, effective_outbound_streams_suspended s) s"

definition set_streams_suspended :: "time_us \<Rightarrow> bool \<Rightarrow> ('n, 'u, 'q, 'a) base_station \<Rightarrow> ('n, 'u, 'q, 'a) base_station" where
  "set_streams_suspended now suspended s = apply_stream_state now (s\<lparr>bs_transient_suspended := suspended\<rparr>)"

definition set_streams_enabled ::
  "('n, 'u, 'q, 'a) base_env \<Rightarrow> time_us \<Rightarrow> bool \<Rightarrow> ('n, 'u, 'q, 'a) base_station \<Rightarrow> ('n, 'u, 'q, 'a) base_station" where
  "set_streams_enabled env now enabled s =
     apply_stream_state now
       (s\<lparr>bs_storage := snd (set_ntrip_streams_enabled (be_nvs env) enabled (bs_storage s)),
          bs_user_enabled := enabled\<rparr>)"

definition apply_persisted_streams ::
  "('n, 'u, 'q, 'a) base_env \<Rightarrow> time_us \<Rightarrow> ('n, 'u, 'q, 'a) base_station \<Rightarrow> ('n, 'u, 'q, 'a) base_station" where
  "apply_persisted_streams env now s =
     apply_stream_state now
       (s\<lparr>bs_user_enabled := ntrip_streams_enabled (be_nvs env) (bs_storage s) True,
          bs_transient_suspended := False\<rparr>)"

definition set_network_available :: "time_us \<Rightarrow> bool \<Rightarrow> ('n, 'u, 'q, 'a) base_station \<Rightarrow> ('n, 'u, 'q, 'a) base_station" where
  "set_network_available now available s =
     (if bs_network_available s = available then s
      else apply_stream_state now (s\<lparr>bs_network_available := available\<rparr>))"

text \<open>\<open>configure\<close> one client from the stored settings of its service.\<close>

definition configured ::
  "('n, 'u, 'q, 'a) base_env \<Rightarrow> 'n storage \<Rightarrow> string \<Rightarrow> 'q ntrip \<Rightarrow> 'q ntrip" where
  "configured env st service p =
     (let c = load_service (be_nvs env) st service in
      np_configure (service_enabled (be_nvs env) st service True) (sc_mountpoint c) (sc_password c) p)"

definition reload_services ::
  "('n, 'u, 'q, 'a) base_env \<Rightarrow> time_us \<Rightarrow> ('n, 'u, 'q, 'a) base_station \<Rightarrow> ('n, 'u, 'q, 'a) base_station" where
  "reload_services env now s =
     apply_stream_state now
       (s\<lparr>bs_rtk2go := configured env (bs_storage s) ''rtk2go'' (bs_rtk2go s),
          bs_onocoy := configured env (bs_storage s) ''onocoy'' (bs_onocoy s),
          bs_rtkdata := configured env (bs_storage s) ''rtkdata'' (bs_rtkdata s)\<rparr>)"

subsection \<open>Requests of other tasks\<close>

definition send_action ::
  "('n, 'u, 'q, 'a) base_env \<Rightarrow> base_action \<Rightarrow> ('n, 'u, 'q, 'a) base_station \<Rightarrow> esp_err \<times> ('n, 'u, 'q, 'a) base_station" where
  "send_action env a s =
     (case bs_actions s of
        None \<Rightarrow> (ESP_ERR_INVALID_STATE, s)
      | Some q \<Rightarrow> (let (ok, q) = q_send (be_actions env) a q
                  in (if ok then ESP_OK else ESP_ERR_TIMEOUT, s\<lparr>bs_actions := Some q\<rparr>)))"

definition request_survey ::
  "('n, 'u, 'q, 'a) base_env \<Rightarrow> ('n, 'u, 'q, 'a) base_station \<Rightarrow> esp_err \<times> ('n, 'u, 'q, 'a) base_station" where
  "request_survey env = send_action env ActSurvey"

definition request_um980_reset ::
  "('n, 'u, 'q, 'a) base_env \<Rightarrow> ('n, 'u, 'q, 'a) base_station \<Rightarrow> esp_err \<times> ('n, 'u, 'q, 'a) base_station" where
  "request_um980_reset env = send_action env ActResetUm980"

definition request_position ::
  "('n, 'u, 'q, 'a) base_env \<Rightarrow> u64 \<Rightarrow> u64 \<Rightarrow> u64 \<Rightarrow> ('n, 'u, 'q, 'a) base_station \<Rightarrow> esp_err \<times> ('n, 'u, 'q, 'a) base_station" where
  "request_position env lat lon height = send_action env (ActPosition lat lon height)"

definition request_raw_collection ::
  "('n, 'u, 'q, 'a) base_env \<Rightarrow> bool \<Rightarrow> ('n, 'u, 'q, 'a) base_station \<Rightarrow> esp_err \<times> ('n, 'u, 'q, 'a) base_station" where
  "request_raw_collection env enable s =
     (if bs_actions s = None then (ESP_ERR_INVALID_STATE, s)
      else send_action env (if enable then ActStartRaw else ActStopRaw)
        (s\<lparr>bs_storage := snd (set_rinex_collection_enabled (be_nvs env) enable (bs_storage s))\<rparr>))"

definition resume_persisted_rinex ::
  "('n, 'u, 'q, 'a) base_env \<Rightarrow> ('n, 'u, 'q, 'a) base_station \<Rightarrow> ('n, 'u, 'q, 'a) base_station" where
  "resume_persisted_rinex env s =
     (if bs_actions s = None \<or> \<not> rinex_collection_enabled (be_nvs env) (bs_storage s) False then s
      else snd (send_action env ActStartRaw s))"

subsection \<open>Modes\<close>

definition reset_rtcm_state :: "time_us \<Rightarrow> ('n, 'u, 'q, 'a) base_station \<Rightarrow> ('n, 'u, 'q, 'a) base_station" where
  "reset_rtcm_state now s =
     s\<lparr>bs_batch := reset_batch (bs_batch s), bs_corrections := reset_corrections (bs_corrections s) now\<rparr>"

definition reset_parser :: "('n, 'u, 'q, 'a) base_station \<Rightarrow> ('n, 'u, 'q, 'a) base_station" where
  "reset_parser s = s\<lparr>bs_parser := reset_rtcm_parser (bs_parser s)\<rparr>"

text \<open>\<open>receiver_.configure_base\<close> with its error logged only.\<close>

definition configure_receiver_base ::
  "('n, 'u, 'q, 'a) base_env \<Rightarrow> u64 \<Rightarrow> u64 \<Rightarrow> u64 \<Rightarrow> ('n, 'u, 'q, 'a) base_station \<Rightarrow> ('n, 'u, 'q, 'a) base_station" where
  "configure_receiver_base env lat lon height s =
     s\<lparr>bs_receiver := snd (configure_base (be_uart env) lat lon height
         (antenna_model (be_nvs env) (bs_storage s)) (bs_receiver s))\<rparr>"

definition enter_survey ::
  "('n, 'u, 'q, 'a) base_env \<Rightarrow> time_us \<Rightarrow> bool \<Rightarrow> ('n, 'u, 'q, 'a) base_station \<Rightarrow> ('n, 'u, 'q, 'a) base_station" where
  "enter_survey env now clear_pos s =
     (let s = apply_stream_state now (s\<lparr>bs_mode := Survey, bs_has_rtcm := False, bs_rate_ready := False\<rparr>);
          s = (if clear_pos then s\<lparr>bs_storage := snd (clear_position (be_nvs env) (bs_storage s))\<rparr> else s);
          s = reset_rtcm_state now (reset_parser s);
          s = s\<lparr>bs_survey := survey_start (bs_survey s) now\<rparr>
      in s\<lparr>bs_receiver := snd (configure_survey_output (be_uart env) (bs_receiver s))\<rparr>)"

definition enter_transmit ::
  "('n, 'u, 'q, 'a) base_env \<Rightarrow> time_us \<Rightarrow> u64 \<Rightarrow> u64 \<Rightarrow> u64 \<Rightarrow> ('n, 'u, 'q, 'a) base_station \<Rightarrow> ('n, 'u, 'q, 'a) base_station" where
  "enter_transmit env now lat lon height s =
     (let s = s\<lparr>bs_mode := Transmit, bs_has_rtcm := False, bs_rate_ready := False,
                bs_survey := survey_reset (bs_survey s)\<rparr>;
          s = reset_rtcm_state now (reset_parser s);
          s = configure_receiver_base env lat lon height s
      in apply_stream_state now s)"

definition enter_raw_collection ::
  "('n, 'u, 'q, 'a) base_env \<Rightarrow> time_us \<Rightarrow> ('n, 'u, 'q, 'a) base_station \<Rightarrow> ('n, 'u, 'q, 'a) base_station" where
  "enter_raw_collection env now s =
     (if bs_mode s \<noteq> Transmit then s
      else if bs_raw s then s
      else
        let s = apply_stream_state now (s\<lparr>bs_raw := True\<rparr>);
            s = reset_rtcm_state now (reset_parser s);
            s = s\<lparr>bs_receiver := snd (configure_raw_output (be_uart env) (bs_receiver s))\<rparr>;
            st = bs_storage s; pos = load_position (be_nvs env) st
        in s\<lparr>bs_rinex := rinex_start (f64_value (bp_lat pos)) (f64_value (bp_lon pos)) (f64_value (bp_height pos))
               (antenna_model (be_nvs env) st) (antenna_radome (be_nvs env) st)
               (f64_value (antenna_height (be_nvs env) st)) (bs_rinex s)\<rparr>)"

definition exit_raw_collection ::
  "('n, 'u, 'q, 'a) base_env \<Rightarrow> time_us \<Rightarrow> ('n, 'u, 'q, 'a) base_station \<Rightarrow> ('n, 'u, 'q, 'a) base_station" where
  "exit_raw_collection env now s =
     (if \<not> bs_raw s then s
      else
        let s = s\<lparr>bs_rinex := rinex_stop (be_rinex env) (bs_rinex s), bs_raw := False\<rparr>;
            pos = load_position (be_nvs env) (bs_storage s);
            s = s\<lparr>bs_has_rtcm := False, bs_rate_ready := False\<rparr>;
            s = reset_rtcm_state now (reset_parser s);
            s = configure_receiver_base env (bp_lat pos) (bp_lon pos) (bp_height pos) s
        in apply_stream_state now s)"

definition reset_um980 ::
  "('n, 'u, 'q, 'a) base_env \<Rightarrow> time_us \<Rightarrow> ('n, 'u, 'q, 'a) base_station \<Rightarrow> ('n, 'u, 'q, 'a) base_station" where
  "reset_um980 env now s =
     (if bs_mode s \<noteq> Transmit \<or> bs_raw s then s
      else
        let s = apply_stream_state now (s\<lparr>bs_has_rtcm := False, bs_rate_ready := False\<rparr>);
            s = s\<lparr>bs_receiver := snd (configure_signal_group (be_uart env) (bs_receiver s))\<rparr>;
            pos = load_position (be_nvs env) (bs_storage s);
            s = reset_rtcm_state now (reset_parser s);
            s = configure_receiver_base env (bp_lat pos) (bp_lon pos) (bp_height pos) s
        in apply_stream_state now s)"

definition handle_action ::
  "('n, 'u, 'q, 'a) base_env \<Rightarrow> time_us \<Rightarrow> base_action \<Rightarrow> ('n, 'u, 'q, 'a) base_station \<Rightarrow> ('n, 'u, 'q, 'a) base_station" where
  "handle_action env now a s =
     (case a of
        ActSurvey \<Rightarrow> enter_survey env now True (if bs_raw s then exit_raw_collection env now s else s)
      | ActStartRaw \<Rightarrow> enter_raw_collection env now s
      | ActStopRaw \<Rightarrow> exit_raw_collection env now s
      | ActResetUm980 \<Rightarrow> reset_um980 env now s
      | ActPosition lat lon height \<Rightarrow>
          (let s = (if bs_raw s then exit_raw_collection env now s else s);
               (e, st) = save_position (be_nvs env) lat lon height (bs_storage s);
               s = s\<lparr>bs_storage := st\<rparr>
           in if e \<noteq> ESP_OK then s else enter_transmit env now lat lon height s))"

text \<open>\<open>while (xQueueReceive(...) == pdTRUE) handle_action(action)\<close>.\<close>

partial_function (option) drain_actions ::
  "('n, 'u, 'q, 'a) base_env \<Rightarrow> time_us \<Rightarrow> ('n, 'u, 'q, 'a) base_station \<Rightarrow> ('n, 'u, 'q, 'a) base_station option" where
  "drain_actions env now s =
     (case bs_actions s of
        None \<Rightarrow> Some s
      | Some q \<Rightarrow>
          (case q_receive (be_actions env) q of
             (None, q) \<Rightarrow> Some (s\<lparr>bs_actions := Some q\<rparr>)
           | (Some a, q) \<Rightarrow> drain_actions env now (handle_action env now a (s\<lparr>bs_actions := Some q\<rparr>))))"

subsection \<open>The RTCM path\<close>

text \<open>\<open>publish_rtcm_frame\<close>: the first frame opens the gate, the batch and the mailbox take the frame.\<close>

definition publish_rtcm_frame ::
  "('n, 'u, 'q, 'a) base_env \<Rightarrow> time_us \<Rightarrow> u8 list \<Rightarrow> ('n, 'u, 'q, 'a) base_station \<Rightarrow> ('n, 'u, 'q, 'a) base_station" where
  "publish_rtcm_frame env now d s =
     (if d = [] then s
      else if kMaxRtcmFrame < length d then s
      else
        let s = (if \<not> bs_has_rtcm s then apply_stream_state now (s\<lparr>bs_has_rtcm := True\<rparr>) else s);
            (b, c) = publish_to_batch (\<lambda>c d. lc_push (be_packets env) d c) (bs_batch s) d now 0 (bs_caster s)
        in s\<lparr>bs_batch := b, bs_caster := c,
             bs_corrections := publish_to_corrections (bs_corrections s) d (rtcm_message_number d) now,
             bs_rtcm_total := bs_rtcm_total s + of_nat (length d)\<rparr>)"

definition feed_data_byte ::
  "('n, 'u, 'q, 'a) base_env \<Rightarrow> ('n, 'u, 'q, 'a) base_station \<Rightarrow> time_us \<times> u8 \<Rightarrow> ('n, 'u, 'q, 'a) base_station" where
  "feed_data_byte env s x = (case x of (now, b) \<Rightarrow>
     (let (p, es) = feed_rtcm_byte (bs_parser s) b
      in foldl (\<lambda>s e. case e of RtcmFrame d \<Rightarrow> publish_rtcm_frame env now d s | RtcmBadCrc \<Rightarrow> s)
           (s\<lparr>bs_parser := p\<rparr>) es))"

text \<open>The client a destination's flush pushes to.\<close>

definition push_client ::
  "('n, 'u, 'q, 'a) base_env \<Rightarrow> push_destination \<Rightarrow> ('n, 'u, 'q, 'a) base_station \<Rightarrow> u8 list \<Rightarrow>
     bool \<times> ('n, 'u, 'q, 'a) base_station" where
  "push_client env dest s d = (case dest of
       PushRtk2go \<Rightarrow> (let (ok, p) = np_push (be_packets env) d (bs_rtk2go s) in (ok, s\<lparr>bs_rtk2go := p\<rparr>))
     | PushOnocoy \<Rightarrow> (let (ok, p) = np_push (be_packets env) d (bs_onocoy s) in (ok, s\<lparr>bs_onocoy := p\<rparr>))
     | PushRtkdata \<Rightarrow> (let (ok, p) = np_push (be_packets env) d (bs_rtkdata s) in (ok, s\<lparr>bs_rtkdata := p\<rparr>)))"

definition flush_streams ::
  "('n, 'u, 'q, 'a) base_env \<Rightarrow> time_us \<Rightarrow> ('n, 'u, 'q, 'a) base_station \<Rightarrow> ('n, 'u, 'q, 'a) base_station" where
  "flush_streams env now s =
     (let (b, c) = flush_due_batch (\<lambda>c d. lc_push (be_packets env) d c) (bs_batch s) now (bs_caster s);
          s = s\<lparr>bs_batch := b, bs_caster := c\<rparr>;
          (co, s) = flush_due_corrections (bs_corrections s) now (push_client env) s
      in s\<lparr>bs_corrections := co\<rparr>)"

text \<open>
  The chunks a reading loop takes: it goes on while \<open>uart_read_bytes\<close> fills the buffer of 256
  bytes (\<open>read_full\<close>), or while it returns any byte (\<open>read_any\<close>).
\<close>

definition kUartBuffer :: nat where "kUartBuffer = 256"

fun read_full :: "'b list list \<Rightarrow> 'b list" where
  "read_full [] = []"
| "read_full (c # cs) = c @ (if length c = kUartBuffer then read_full cs else [])"

fun read_any :: "'b list list \<Rightarrow> 'b list" where
  "read_any [] = []"
| "read_any (c # cs) = (if c = [] then [] else c @ read_any cs)"

definition read_command_uart ::
  "(time_us \<times> u8) list list \<Rightarrow> ('n, 'u, 'q, 'a) base_station \<Rightarrow> ('n, 'u, 'q, 'a) base_station" where
  "read_command_uart chunks s = s\<lparr>bs_survey := survey_feed (bs_survey s) (read_full chunks)\<rparr>"

definition read_data_uart_raw ::
  "('n, 'u, 'q, 'a) base_env \<Rightarrow> (time_us \<times> u8) list list \<Rightarrow> ('n, 'u, 'q, 'a) base_station \<Rightarrow> ('n, 'u, 'q, 'a) base_station" where
  "read_data_uart_raw env chunks s =
     s\<lparr>bs_rinex := rinex_feed (be_rinex env) (map snd (read_any chunks)) (bs_rinex s)\<rparr>"

definition read_data_uart ::
  "('n, 'u, 'q, 'a) base_env \<Rightarrow> (time_us \<times> u8) list list \<Rightarrow> time_us \<Rightarrow> ('n, 'u, 'q, 'a) base_station \<Rightarrow>
     ('n, 'u, 'q, 'a) base_station" where
  "read_data_uart env chunks now s =
     flush_streams env now (foldl (feed_data_byte env) s (read_full chunks))"

subsection \<open>The task\<close>

text \<open>What one pass of the loop reads: the clock at its three places and the two UARTs.\<close>

record pass_input =
  pi_start_us :: time_us
  pi_command :: "(time_us \<times> u8) list list"
  pi_data :: "(time_us \<times> u8) list list"
  pi_read_us :: time_us
  pi_end_us :: time_us

text \<open>A survey that has completed is saved, and the station transmits from it.\<close>

definition finish_survey ::
  "('n, 'u, 'q, 'a) base_env \<Rightarrow> time_us \<Rightarrow> ('n, 'u, 'q, 'a) base_station \<Rightarrow> ('n, 'u, 'q, 'a) base_station" where
  "finish_survey env now s =
     (let (sv, completed) = take_completed_result (bs_survey s); s = s\<lparr>bs_survey := sv\<rparr> in
      case completed of
        None \<Rightarrow> s
      | Some r \<Rightarrow>
          (let lat = f64_bits (sr_lat r); lon = f64_bits (sr_lon r); height = f64_bits (sr_height r);
               (e, st) = save_position (be_nvs env) lat lon height (bs_storage s);
               s = s\<lparr>bs_storage := st\<rparr>
           in if e = ESP_OK then enter_transmit env now lat lon height s else s))"

text \<open>The rate over the window that ends now; the first time it is high enough opens the gate.\<close>

definition measure_rate ::
  "time_us \<Rightarrow> ('n, 'u, 'q, 'a) base_station \<Rightarrow> ('n, 'u, 'q, 'a) base_station" where
  "measure_rate now s =
     (if now - bs_rate_started s < 1000000 then s
      else
        let elapsed = now - bs_rate_started s;
            s = s\<lparr>bs_rtcm_bps := ucast ((ucast (bs_rate_bytes s) * 1000000 :: u64) div of_int elapsed),
                  bs_rate_bytes := 0, bs_rate_started := now\<rparr>
        in if kMinOutboundRtcmBps \<le> bs_rtcm_bps s then
             (if \<not> bs_rate_ready s then apply_stream_state now (s\<lparr>bs_rate_ready := True\<rparr>) else s)
           else s)"

definition serve_data ::
  "('n, 'u, 'q, 'a) base_env \<Rightarrow> pass_input \<Rightarrow> ('n, 'u, 'q, 'a) base_station \<Rightarrow> ('n, 'u, 'q, 'a) base_station" where
  "serve_data env i s =
     (if bs_mode s = Survey then finish_survey env (pi_read_us i) s
      else if bs_raw s then read_data_uart_raw env (pi_data i) s
      else
        let before = bs_rtcm_total s; s = read_data_uart env (pi_data i) (pi_read_us i) s
        in s\<lparr>bs_rate_bytes := bs_rate_bytes s + ucast (bs_rtcm_total s - before)\<rparr>)"

definition run_pass ::
  "('n, 'u, 'q, 'a) base_env \<Rightarrow> pass_input \<Rightarrow> ('n, 'u, 'q, 'a) base_station \<Rightarrow> ('n, 'u, 'q, 'a) base_station option" where
  "run_pass env i s =
     (case drain_actions env (pi_start_us i) (s\<lparr>bs_heartbeat_us := pi_start_us i\<rparr>) of
        None \<Rightarrow> None
      | Some s \<Rightarrow> Some (measure_rate (pi_end_us i) (serve_data env i (read_command_uart (pi_command i) s))))"

text \<open>\<open>run\<close> before its loop, and after it.\<close>

definition run_begin ::
  "('n, 'u, 'q, 'a) base_env \<Rightarrow> time_us \<Rightarrow> ('n, 'u, 'q, 'a) base_station \<Rightarrow> ('n, 'u, 'q, 'a) base_station" where
  "run_begin env now s =
     (let pos = load_position (be_nvs env) (bs_storage s);
          s = (if bp_valid pos then enter_transmit env now (bp_lat pos) (bp_lon pos) (bp_height pos) s
               else enter_survey env now False s)
      in s\<lparr>bs_rate_started := now, bs_rate_bytes := 0\<rparr>)"

definition run_end :: "time_us \<Rightarrow> ('n, 'u, 'q, 'a) base_station \<Rightarrow> ('n, 'u, 'q, 'a) base_station" where
  "run_end now s = set_streams_suspended now True s"

subsection \<open>Start, stop and status\<close>

text \<open>What the kernel grants a start: queues and tasks.\<close>

record ('q, 'a) start_grants =
  sg_actions :: "'a option"
  sg_rtk2go :: "'q option \<times> bool"
  sg_onocoy :: "'q option \<times> bool"
  sg_rtkdata :: "'q option \<times> bool"
  sg_caster :: "'q option \<times> bool"
  sg_task :: bool

definition start_client ::
  "('n, 'u, 'q, 'a) base_env \<Rightarrow> 'n storage \<Rightarrow> string \<Rightarrow> 'q option \<times> bool \<Rightarrow> 'q ntrip \<Rightarrow> esp_err \<times> 'q ntrip" where
  "start_client env st service grant p =
     (let c = load_service (be_nvs env) st service in
      np_start (fst grant) (snd grant) (service_enabled (be_nvs env) st service True)
        (sc_mountpoint c) (sc_password c) p)"

text \<open>\<open>stop\<close> of the four network components, in the order given by the caller.\<close>

definition stop_caster ::
  "'k wan \<Rightarrow> ('n, 'u, 'q, 'a) base_station \<times> 'k \<Rightarrow> ('n, 'u, 'q, 'a) base_station \<times> 'k" where
  "stop_caster w sk = (case sk of (s, k) \<Rightarrow>
     (let (c, k) = lc_stop (net.truncate w) (bs_caster s) k in (s\<lparr>bs_caster := c\<rparr>, k)))"

definition stop_rtk2go ::
  "'k wan \<Rightarrow> ('n, 'u, 'q, 'a) base_station \<times> 'k \<Rightarrow> ('n, 'u, 'q, 'a) base_station \<times> 'k" where
  "stop_rtk2go w sk = (case sk of (s, k) \<Rightarrow>
     (let (p, k) = np_stop w (bs_rtk2go s) k in (s\<lparr>bs_rtk2go := p\<rparr>, k)))"

definition stop_onocoy ::
  "'k wan \<Rightarrow> ('n, 'u, 'q, 'a) base_station \<times> 'k \<Rightarrow> ('n, 'u, 'q, 'a) base_station \<times> 'k" where
  "stop_onocoy w sk = (case sk of (s, k) \<Rightarrow>
     (let (p, k) = np_stop w (bs_onocoy s) k in (s\<lparr>bs_onocoy := p\<rparr>, k)))"

definition stop_rtkdata ::
  "'k wan \<Rightarrow> ('n, 'u, 'q, 'a) base_station \<times> 'k \<Rightarrow> ('n, 'u, 'q, 'a) base_station \<times> 'k" where
  "stop_rtkdata w sk = (case sk of (s, k) \<Rightarrow>
     (let (p, k) = np_stop w (bs_rtkdata s) k in (s\<lparr>bs_rtkdata := p\<rparr>, k)))"

definition cleanup_failed_start ::
  "'k wan \<Rightarrow> ('n, 'u, 'q, 'a) base_station \<times> 'k \<Rightarrow> ('n, 'u, 'q, 'a) base_station \<times> 'k" where
  "cleanup_failed_start w sk =
     (case stop_rtk2go w (stop_onocoy w (stop_rtkdata w (stop_caster w sk))) of
        (s, k) \<Rightarrow> (s\<lparr>bs_actions := None\<rparr>, k))"

definition base_start ::
  "('n, 'u, 'q, 'a) base_env \<Rightarrow> 'k wan \<Rightarrow> ('q, 'a) start_grants \<Rightarrow> ('n, 'u, 'q, 'a) base_station \<Rightarrow> 'k \<Rightarrow>
     esp_err \<times> ('n, 'u, 'q, 'a) base_station \<times> 'k" where
  "base_start env w g s k =
     (let s = s\<lparr>bs_stopping := False, bs_actions := sg_actions g\<rparr> in
      if sg_actions g = None then (ESP_ERR_NO_MEM, s, k)
      else
        let st = bs_storage s;
            s = s\<lparr>bs_user_enabled := ntrip_streams_enabled (be_nvs env) st True, bs_transient_suspended := True\<rparr>;
            (e, p) = start_client env st ''rtk2go'' (sg_rtk2go g) (bs_rtk2go s); s = s\<lparr>bs_rtk2go := p\<rparr> in
        if e \<noteq> ESP_OK then (e, cleanup_failed_start w (s, k))
        else
          let (e, p) = start_client env st ''onocoy'' (sg_onocoy g) (bs_onocoy s); s = s\<lparr>bs_onocoy := p\<rparr> in
          if e \<noteq> ESP_OK then (e, cleanup_failed_start w (s, k))
          else
            let (e, p) = start_client env st ''rtkdata'' (sg_rtkdata g) (bs_rtkdata s); s = s\<lparr>bs_rtkdata := p\<rparr> in
            if e \<noteq> ESP_OK then (e, cleanup_failed_start w (s, k))
            else
              let (e, c) = lc_start (fst (sg_caster g)) (snd (sg_caster g)) (bs_caster s); s = s\<lparr>bs_caster := c\<rparr> in
              if e \<noteq> ESP_OK then (e, cleanup_failed_start w (s, k))
              else if \<not> sg_task g then (ESP_ERR_NO_MEM, cleanup_failed_start w (s, k))
              else (ESP_OK, s, k))"

text \<open>\<open>stop\<close>, once the task has seen \<open>stopping_\<close> and ended.\<close>

definition base_stop ::
  "'k wan \<Rightarrow> ('n, 'u, 'q, 'a) base_station \<times> 'k \<Rightarrow> ('n, 'u, 'q, 'a) base_station \<times> 'k" where
  "base_stop w sk = (case sk of (s, k) \<Rightarrow>
     (case stop_rtkdata w (stop_onocoy w (stop_rtk2go w (stop_caster w (s\<lparr>bs_stopping := True\<rparr>, k)))) of
        (s, k) \<Rightarrow> (s\<lparr>bs_actions := None\<rparr>, k)))"

definition healthy :: "time_us \<Rightarrow> ('n, 'u, 'q, 'a) base_station \<Rightarrow> bool" where
  "healthy now s = (0 < bs_heartbeat_us s \<and> now - bs_heartbeat_us s < 2000000)"

record base_status =
  st_mode :: base_mode
  st_survey :: survey_snapshot
  st_rtk2go :: ntrip_status
  st_onocoy :: ntrip_status
  st_rtkdata :: ntrip_status
  st_local_clients :: nat
  st_local_client_ips :: "u32 list"
  st_rtcm_bps :: u32
  st_rtcm_total :: u64

definition base_status_of :: "time_us \<Rightarrow> ('n, 'u, 'q, 'a) base_station \<Rightarrow> base_status" where
  "base_status_of now s =
     \<lparr>st_mode = bs_mode s, st_survey = survey_snapshot_of (bs_survey s) now,
      st_rtk2go = np_status now (bs_rtk2go s), st_onocoy = np_status now (bs_onocoy s),
      st_rtkdata = np_status now (bs_rtkdata s),
      st_local_clients = length (client_snapshot (bs_caster s)),
      st_local_client_ips = client_snapshot (bs_caster s),
      st_rtcm_bps = bs_rtcm_bps s, st_rtcm_total = bs_rtcm_total s\<rparr>"

end
