(* ===== verification/BaseGate.thy ===== *)
theory BaseGate
  imports BaseStation
begin

text \<open>
  The coordinator's operations, each run as a whole: after every one of them the streams follow the
  gate - mode, user, network, data rate - if they did before, and raw collection and transmission
  exclude each other. \<open>base_op\<close> and \<open>base_step\<close> are the operations in any order;
  \<open>BaseTasks\<close> takes them apart where tasks really interleave.
\<close>

subsection \<open>What the RTCM path leaves alone\<close>

lemma flush_loop_keeps:
  assumes "\<And>w d. P w \<Longrightarrow> P (f w d)" "P w" shows "P (flush_loop f b i start w)"
  using assms
proof (induction f b i start w rule: flush_loop.induct)
  case (1 flush b i start w)
  show ?case using 1 by (subst flush_loop.simps) (auto simp: Let_def)
qed

lemma flush_due_batch_keeps:
  "(\<And>w d. P w \<Longrightarrow> P (f w d)) \<Longrightarrow> P w \<Longrightarrow> P (snd (flush_due_batch f b now w))"
  by (simp add: flush_due_batch_def flush_batch_frames_def Let_def flush_loop_keeps)

lemma publish_to_batch_keeps:
  assumes "\<And>w d. P w \<Longrightarrow> P (f w d)" "P w" shows "P (snd (publish_to_batch f b d now ph w))"
  using assms
  by (simp add: publish_to_batch_def flush_batch_frames_def Let_def flush_loop_keeps)

lemma flush_slots_keeps:
  "(\<And>w d. P w \<Longrightarrow> P (snd (f w d))) \<Longrightarrow> P w \<Longrightarrow> P (snd (flush_slots f m ss w))"
proof (induction ss arbitrary: w)
  case (Cons s ss)
  have "P (snd (flush_slots f m ss w'))" if "P w'" for w' using Cons that by blast
  then show ?case using Cons.prems by (auto simp: Let_def split: prod.splits) (metis snd_conv)+
qed simp

lemma flush_due_corrections_keeps:
  assumes "\<And>dest w d. P w \<Longrightarrow> P (snd (f dest w d))" "P w"
  shows "P (snd (flush_due_corrections co now f w))"
proof -
  have one: "P (snd (flush_destination_if_due co dest now (f dest) w))" if "P w" for co dest w
    using that flush_slots_keeps [of P "f dest"] assms(1)
    by (auto simp: flush_destination_if_due_def split: prod.splits) (metis snd_conv)
  show ?thesis using one [OF assms(2)] one
    by (auto simp: flush_due_corrections_def Let_def split: prod.splits) (metis snd_conv)+
qed

text \<open>The flags of the four clients, and what the gate wants each to be.\<close>

datatype stream_client = Caster | Rtk2go | Onocoy | Rtkdata

fun stream_gate :: "('n, 'u, 'q, 'a) base_station \<Rightarrow> stream_client \<Rightarrow> bool" where
  "stream_gate s Caster = lc_suspended (bs_caster s)"
| "stream_gate s Rtk2go = np_suspended (bs_rtk2go s)"
| "stream_gate s Onocoy = np_suspended (bs_onocoy s)"
| "stream_gate s Rtkdata = np_suspended (bs_rtkdata s)"

definition decision :: "('n, 'u, 'q, 'a) base_station \<Rightarrow> bool \<times> bool" where
  "decision s = (effective_streams_suspended s, effective_outbound_streams_suspended s)"

definition wanted :: "bool \<times> bool \<Rightarrow> stream_client \<Rightarrow> bool" where
  "wanted d c = (if c = Caster then fst d else snd d)"

definition client_gates :: "('n, 'u, 'q, 'a) base_station \<Rightarrow> bool \<times> bool \<times> bool \<times> bool" where
  "client_gates s = (lc_suspended (bs_caster s), np_suspended (bs_rtk2go s), np_suspended (bs_onocoy s),
     np_suspended (bs_rtkdata s))"

lemma stream_gate_cong: "client_gates s = client_gates t \<Longrightarrow> stream_gate s c = stream_gate t c"
  by (cases c) (simp_all add: client_gates_def)

definition gated :: "stream_client set \<Rightarrow> ('n, 'u, 'q, 'a) base_station \<Rightarrow> bool" where
  "gated G s \<longleftrightarrow> (\<forall>c \<in> G. stream_gate s c = wanted (decision s) c)"

lemma gated_UNIV:
  "gated UNIV s \<longleftrightarrow> client_gates s =
     (let out = effective_outbound_streams_suspended s in (effective_streams_suspended s, out, out, out))"
proof
  assume "gated UNIV s"
  then have "stream_gate s c = wanted (decision s) c" for c by (simp add: gated_def)
  from this [of Caster] this [of Rtk2go] this [of Onocoy] this [of Rtkdata]
  show "client_gates s = (let out = effective_outbound_streams_suspended s in (effective_streams_suspended s, out, out, out))"
    by (simp add: client_gates_def wanted_def decision_def Let_def)
next
  assume "client_gates s = (let out = effective_outbound_streams_suspended s in (effective_streams_suspended s, out, out, out))"
  then have "stream_gate s c = wanted (decision s) c" for c
    by (cases c) (simp_all add: client_gates_def wanted_def decision_def Let_def)
  then show "gated UNIV s" by (simp add: gated_def)
qed

definition raw_exclusive :: "('n, 'u, 'q, 'a) base_station \<Rightarrow> bool" where
  "raw_exclusive s \<longleftrightarrow> rx_active (bs_rinex s) = bs_raw s \<and> (bs_raw s \<longrightarrow> bs_mode s = Transmit)"

text \<open>The clients that follow the gate, and whether raw collection is exclusive.\<close>

definition station_ok :: "stream_client set \<Rightarrow> bool \<Rightarrow> ('n, 'u, 'q, 'a) base_station \<Rightarrow> bool" where
  "station_ok g r s \<longleftrightarrow> gated g s \<and> (r \<longrightarrow> raw_exclusive s)"

text \<open>A change that leaves all of that alone.\<close>

definition same_gate :: "('n, 'u, 'q, 'a) base_station \<Rightarrow> ('n, 'u, 'q, 'a) base_station \<Rightarrow> bool" where
  "same_gate s t \<longleftrightarrow> client_gates t = client_gates s \<and>
     (bs_transient_suspended t, bs_user_enabled t, bs_mode t, bs_has_rtcm t, bs_raw t, bs_network_available t,
      bs_rate_ready t, rx_active (bs_rinex t)) =
     (bs_transient_suspended s, bs_user_enabled s, bs_mode s, bs_has_rtcm s, bs_raw s, bs_network_available s,
      bs_rate_ready s, rx_active (bs_rinex s))"

lemma same_gate_refl [simp]: "same_gate s s" by (simp add: same_gate_def)

lemma same_gate_trans: "same_gate s t \<Longrightarrow> same_gate t u \<Longrightarrow> same_gate s u" by (simp add: same_gate_def)

lemma same_gate_ok: "same_gate s t \<Longrightarrow> station_ok g r s \<Longrightarrow> station_ok g r t"
proof -
  assume same: "same_gate s t" and ok: "station_ok g r s"
  from same have f: "bs_transient_suspended t = bs_transient_suspended s" "bs_user_enabled t = bs_user_enabled s"
    "bs_mode t = bs_mode s" "bs_has_rtcm t = bs_has_rtcm s" "bs_raw t = bs_raw s"
    "bs_network_available t = bs_network_available s" "bs_rate_ready t = bs_rate_ready s"
    "rx_active (bs_rinex t) = rx_active (bs_rinex s)"
    unfolding same_gate_def prod.inject by blast+
  have "decision t = decision s" "raw_exclusive t = raw_exclusive s"
    unfolding raw_exclusive_def decision_def effective_streams_suspended_def
      effective_outbound_streams_suspended_def f by (rule refl)+
  moreover have "stream_gate t c = stream_gate s c" for c
    using same unfolding same_gate_def by (elim conjE) (rule stream_gate_cong)
  ultimately show ?thesis using ok by (simp add: station_ok_def gated_def)
qed

lemmas gate_defs = same_gate_def client_gates_def

lemma np_set_suspended_flag [simp]: "np_suspended (np_set_suspended b now p) = b"
  by (simp add: np_set_suspended_def Let_def)

lemma lc_set_suspended_flag [simp]: "lc_suspended (lc_set_suspended b c) = b"
  by (simp add: lc_set_suspended_def Let_def)

lemma np_push_flag [simp]: "np_suspended (snd (np_push qo d p)) = np_suspended p"
  by (simp add: np_push_def Let_def split: option.splits prod.splits)

lemma lc_push_flag [simp]: "lc_suspended (lc_push qo d c) = lc_suspended c"
  by (simp add: lc_push_def split: option.splits)

lemma np_configure_flag [simp]: "np_suspended (configured env st svc p) = np_suspended p"
  by (simp add: configured_def np_configure_def Let_def)

lemma apply_fields:
  "bs_transient_suspended (apply_stream_state now s) = bs_transient_suspended s"
  "bs_user_enabled (apply_stream_state now s) = bs_user_enabled s"
  "bs_mode (apply_stream_state now s) = bs_mode s" "bs_has_rtcm (apply_stream_state now s) = bs_has_rtcm s"
  "bs_raw (apply_stream_state now s) = bs_raw s" "bs_rate_ready (apply_stream_state now s) = bs_rate_ready s"
  "bs_network_available (apply_stream_state now s) = bs_network_available s"
  "bs_rinex (apply_stream_state now s) = bs_rinex s" "bs_actions (apply_stream_state now s) = bs_actions s"
  "bs_storage (apply_stream_state now s) = bs_storage s" "bs_survey (apply_stream_state now s) = bs_survey s"
  "bs_parser (apply_stream_state now s) = bs_parser s" "bs_corrections (apply_stream_state now s) = bs_corrections s"
  "bs_batch (apply_stream_state now s) = bs_batch s" "bs_rtcm_total (apply_stream_state now s) = bs_rtcm_total s"
  "bs_receiver (apply_stream_state now s) = bs_receiver s"
  by (simp_all add: apply_stream_state_def write_stream_state_def)

lemma apply_gated: "gated g (apply_stream_state now s)"
proof -
  have d: "decision (apply_stream_state now s) = decision s"
    by (simp add: decision_def effective_streams_suspended_def effective_outbound_streams_suspended_def apply_fields)
  have "stream_gate (apply_stream_state now s) c = wanted (decision s) c" for c
    by (cases c) (simp_all add: apply_stream_state_def write_stream_state_def wanted_def decision_def)
  then show ?thesis by (simp add: gated_def d)
qed

text \<open>So an operation that ends with \<open>apply_stream_state\<close> has only the raw mode to answer for.\<close>

lemma apply_ok: "(r \<Longrightarrow> raw_exclusive s) \<Longrightarrow> station_ok g r (apply_stream_state now s)"
  by (simp add: station_ok_def apply_gated) (simp add: raw_exclusive_def apply_fields)

lemma ok_raw: "station_ok g r s \<Longrightarrow> r \<Longrightarrow> raw_exclusive s" by (simp add: station_ok_def)

subsection \<open>Every operation keeps the gate\<close>

lemma setters_ok [inv_intro]:
  assumes "station_ok g r s"
  shows "station_ok g r (set_streams_suspended now b s)" "station_ok g r (set_streams_enabled env now b s)"
    "station_ok g r (apply_persisted_streams env now s)" "station_ok g r (set_network_available now b s)"
    "station_ok g r (reload_services env now s)" "station_ok g r (run_end now s)"
  using ok_raw [OF assms] assms
  by (auto simp: set_streams_suspended_def set_streams_enabled_def apply_persisted_streams_def
      set_network_available_def reload_services_def run_end_def raw_exclusive_def intro!: apply_ok)

lemma send_action_same: "same_gate s (snd (send_action env a s))"
  by (simp add: send_action_def gate_defs split: option.splits prod.splits)

lemma requests_ok [inv_intro]:
  assumes "station_ok g r s"
  shows "station_ok g r (snd (send_action env a s))" "station_ok g r (snd (request_raw_collection env b s))"
    "station_ok g r (resume_persisted_rinex env s)"
proof -
  have "same_gate s (snd (request_raw_collection env b s))"
    using send_action_same [of "s\<lparr>bs_storage := st\<rparr>" env a for st a]
    by (auto simp: request_raw_collection_def gate_defs)
  moreover have "same_gate s (resume_persisted_rinex env s)"
    by (simp add: resume_persisted_rinex_def send_action_same)
  ultimately show "station_ok g r (snd (send_action env a s))" "station_ok g r (snd (request_raw_collection env b s))"
    "station_ok g r (resume_persisted_rinex env s)"
    using assms send_action_same same_gate_ok by blast+
qed

lemma rinex_active:
  "rx_active (rinex_stop e r) = False" "rx_active (rinex_start a b c m rd h r) = True"
  using keeps_readerD(2) [OF close_keeps, of e "r\<lparr>rx_active := False\<rparr>"]
  by (auto simp: rinex_stop_def rinex_start_def split: prod.splits)

lemma exit_raw_ok [inv_intro]: "station_ok g r s \<Longrightarrow> station_ok g r (exit_raw_collection env now s)"
  by (auto simp: exit_raw_collection_def Let_def reset_rtcm_state_def reset_parser_def
      configure_receiver_base_def rinex_active raw_exclusive_def intro!: apply_ok)

lemma exit_raw_done: "\<not> bs_raw (exit_raw_collection env now s)"
  by (simp add: exit_raw_collection_def Let_def apply_fields reset_rtcm_state_def reset_parser_def
      configure_receiver_base_def)

lemma enter_survey_ok: "station_ok g r s \<Longrightarrow> \<not> bs_raw s \<Longrightarrow> station_ok g r (enter_survey env now c s)"
proof -
  assume "station_ok g r s" "\<not> bs_raw s"
  then have "station_ok g r (apply_stream_state now (s\<lparr>bs_mode := Survey, bs_has_rtcm := False, bs_rate_ready := False\<rparr>))"
    by (intro apply_ok) (simp add: station_ok_def raw_exclusive_def)
  then show ?thesis
    by (rule same_gate_ok [rotated])
      (simp add: enter_survey_def Let_def gate_defs reset_rtcm_state_def reset_parser_def)
qed

lemma enter_transmit_ok: "station_ok g r s \<Longrightarrow> station_ok g r (enter_transmit env now lat lon h s)"
  unfolding enter_transmit_def Let_def
  by (rule apply_ok) (auto dest!: ok_raw simp: reset_rtcm_state_def reset_parser_def
      configure_receiver_base_def raw_exclusive_def)

lemma enter_raw_gated: "bs_mode s = Transmit \<Longrightarrow> \<not> bs_raw s \<Longrightarrow> gated g (enter_raw_collection env now s)"
proof -
  assume "bs_mode s = Transmit" "\<not> bs_raw s"
  let ?a = "apply_stream_state now (s\<lparr>bs_raw := True\<rparr>)" and ?e = "enter_raw_collection env now s"
  have "stream_gate ?e c = stream_gate ?a c" for c
    by (rule stream_gate_cong) (simp add: \<open>bs_mode s = Transmit\<close> \<open>\<not> bs_raw s\<close> enter_raw_collection_def Let_def
        client_gates_def reset_rtcm_state_def reset_parser_def)
  moreover have "decision ?e = decision ?a"
    by (simp add: \<open>bs_mode s = Transmit\<close> \<open>\<not> bs_raw s\<close> enter_raw_collection_def Let_def reset_rtcm_state_def
        reset_parser_def decision_def effective_streams_suspended_def effective_outbound_streams_suspended_def)
  ultimately show ?thesis using apply_gated [of g now "s\<lparr>bs_raw := True\<rparr>"] by (simp add: gated_def)
qed

lemma enter_raw_ok: "station_ok g r s \<Longrightarrow> station_ok g r (enter_raw_collection env now s)"
proof (cases "bs_mode s = Transmit \<and> \<not> bs_raw s")
  case True
  then have "raw_exclusive (enter_raw_collection env now s)"
    by (simp add: enter_raw_collection_def Let_def raw_exclusive_def rinex_active apply_fields
        reset_rtcm_state_def reset_parser_def)
  then show ?thesis using True by (simp add: station_ok_def enter_raw_gated)
qed (auto simp: enter_raw_collection_def)

lemma reset_um980_ok: "station_ok g r s \<Longrightarrow> station_ok g r (reset_um980 env now s)"
  by (auto dest!: ok_raw simp: reset_um980_def Let_def reset_rtcm_state_def reset_parser_def
      configure_receiver_base_def apply_fields raw_exclusive_def intro!: apply_ok)

lemma handle_action_ok [inv_intro]:
  assumes "station_ok g r s" shows "station_ok g r (handle_action env now a s)"
proof (cases a)
  case ActSurvey
  then show ?thesis using assms
    by (auto simp: handle_action_def exit_raw_done intro!: enter_survey_ok intro: exit_raw_ok)
next
  case (ActPosition lat lon height)
  let ?s = "if bs_raw s then exit_raw_collection env now s else s"
  obtain e st where sv: "save_position (be_nvs env) lat lon height (bs_storage ?s) = (e, st)" by (rule prod.exhaust)
  have eq: "handle_action env now a s =
      (if e \<noteq> ESP_OK then ?s\<lparr>bs_storage := st\<rparr> else enter_transmit env now lat lon height (?s\<lparr>bs_storage := st\<rparr>))"
    by (simp only: handle_action_def ActPosition base_action.case Let_def sv prod.case)
  have "station_ok g r ?s" using assms by (simp add: exit_raw_ok)
  then have "station_ok g r (?s\<lparr>bs_storage := st\<rparr>)"
    by (rule same_gate_ok [rotated]) (simp add: gate_defs)
  then show ?thesis unfolding eq by (simp add: enter_transmit_ok)
qed (use assms in \<open>auto simp: handle_action_def intro: enter_raw_ok exit_raw_ok reset_um980_ok\<close>)

lemma publish_frame_ok: "station_ok g r s \<Longrightarrow> station_ok g r (publish_rtcm_frame env now d s)"
proof (cases "d = [] \<or> kMaxRtcmFrame < length d")
  case False
  assume ok: "station_ok g r s"
  let ?s = "if \<not> bs_has_rtcm s then apply_stream_state now (s\<lparr>bs_has_rtcm := True\<rparr>) else s"
  have "station_ok g r ?s" using ok ok_raw [OF ok] by (auto simp: raw_exclusive_def intro!: apply_ok)
  moreover have "lc_suspended (snd (publish_to_batch (\<lambda>c d. lc_push (be_packets env) d c) (bs_batch ?s) d now 0 (bs_caster ?s)))
      = lc_suspended (bs_caster ?s)"
    by (rule publish_to_batch_keeps) simp_all
  ultimately show ?thesis using False
    by (auto simp: publish_rtcm_frame_def Let_def gate_defs split: prod.splits elim!: same_gate_ok [rotated])
qed (auto simp: publish_rtcm_frame_def)

lemma feed_data_ok: "station_ok g r s \<Longrightarrow> station_ok g r (feed_data_byte env s x)"
proof -
  have keep: "station_ok g r t \<Longrightarrow> station_ok g r (foldl (\<lambda>s e. case e of RtcmFrame d \<Rightarrow> publish_rtcm_frame env now d s | RtcmBadCrc \<Rightarrow> s) t es)"
    for now t es
    by (induction es arbitrary: t) (auto simp: publish_frame_ok split: rtcm_event.splits)
  assume "station_ok g r s"
  then have "station_ok g r (s\<lparr>bs_parser := p\<rparr>)" for p by (rule same_gate_ok [rotated]) (simp add: gate_defs)
  then show ?thesis by (auto simp: feed_data_byte_def keep split: prod.splits)
qed

lemma push_client_same: "same_gate s (snd (push_client env dest s d))"
  by (simp add: push_client_def gate_defs Let_def split: push_destination.splits prod.splits)
    (metis np_push_flag snd_conv)

lemma flush_streams_same: "same_gate s (flush_streams env now s)"
proof -
  let ?b = "flush_due_batch (\<lambda>c d. lc_push (be_packets env) d c) (bs_batch s) now (bs_caster s)"
  let ?s = "s\<lparr>bs_batch := fst ?b, bs_caster := snd ?b\<rparr>"
  have "lc_suspended (snd ?b) = lc_suspended (bs_caster s)" by (rule flush_due_batch_keeps) simp_all
  then have gate: "same_gate s ?s" by (simp add: gate_defs)
  have "same_gate s (snd (flush_due_corrections (bs_corrections ?s) now (push_client env) ?s))"
    using same_gate_trans [OF _ push_client_same] gate
    by (rule flush_due_corrections_keeps [where P = "same_gate s"])
  moreover have "flush_streams env now s =
      (snd (flush_due_corrections (bs_corrections ?s) now (push_client env) ?s))
        \<lparr>bs_corrections := fst (flush_due_corrections (bs_corrections ?s) now (push_client env) ?s)\<rparr>"
    by (simp add: flush_streams_def Let_def case_prod_beta)
  moreover have "same_gate s t \<Longrightarrow> same_gate s (t\<lparr>bs_corrections := c\<rparr>)" for t c
    by (simp add: gate_defs)
  ultimately show ?thesis by presburger
qed

lemma read_data_ok: "station_ok g r s \<Longrightarrow> station_ok g r (read_data_uart env chunks now s)"
proof -
  have "station_ok g r t \<Longrightarrow> station_ok g r (foldl (feed_data_byte env) t xs)" for t xs
    by (induction xs arbitrary: t) (auto simp: feed_data_ok)
  then show "station_ok g r s \<Longrightarrow> ?thesis"
    unfolding read_data_uart_def by (blast intro: same_gate_ok [OF flush_streams_same])
qed

lemma rinex_feed_active: "rx_active (rinex_feed env bs r) = rx_active r"
  using keeps_readerD(2) [OF process_all_keeps] by (simp add: rinex_feed_def feed_bytes)

lemma read_raw_ok: "station_ok g r s \<Longrightarrow> station_ok g r (read_data_uart_raw env chunks s)"
  by (rule same_gate_ok [rotated]) (simp_all add: read_data_uart_raw_def gate_defs rinex_feed_active)

lemma finish_survey_ok: "station_ok g r s \<Longrightarrow> station_ok g r (finish_survey env now s)"
proof -
  assume "station_ok g r s"
  then have "station_ok g r (s\<lparr>bs_survey := sv, bs_storage := st\<rparr>)" "station_ok g r (s\<lparr>bs_survey := sv\<rparr>)" for sv st
    by (auto elim!: same_gate_ok [rotated] simp: gate_defs)
  then show ?thesis
    by (auto simp: finish_survey_def Let_def enter_transmit_ok split: prod.splits option.splits)
qed

lemma measure_rate_ok: "station_ok g r s \<Longrightarrow> station_ok g r (measure_rate now s)"
proof -
  assume ok: "station_ok g r s"
  have "station_ok g r (s\<lparr>bs_rtcm_bps := v, bs_rate_bytes := 0, bs_rate_started := now\<rparr>)" for v
    using ok by (rule same_gate_ok [rotated]) (simp add: gate_defs)
  moreover have "station_ok g r (apply_stream_state now
      (s\<lparr>bs_rtcm_bps := v, bs_rate_bytes := 0, bs_rate_started := now, bs_rate_ready := True\<rparr>))" for v
    using ok_raw [OF ok] by (intro apply_ok) (simp add: raw_exclusive_def)
  ultimately show ?thesis using ok by (simp add: measure_rate_def Let_def)
qed

lemma serve_data_ok: "station_ok g r s \<Longrightarrow> station_ok g r (serve_data env i s)"
proof -
  assume ok: "station_ok g r s"
  have "station_ok g r (t\<lparr>bs_rate_bytes := v\<rparr>)" if "station_ok g r t" for t :: "('a, 'b, 'c, 'd) base_station" and v
    using that by (rule same_gate_ok [rotated]) (simp add: gate_defs)
  then show ?thesis using ok by (simp add: serve_data_def Let_def finish_survey_ok read_raw_ok read_data_ok)
qed

text \<open>Fields the gate does not look at.\<close>

lemma other_fields_ok:
  assumes "station_ok g r s"
  shows "station_ok g r (s\<lparr>bs_actions := x\<rparr>)" "station_ok g r (s\<lparr>bs_heartbeat_us := v\<rparr>)"
    "station_ok g r (read_command_uart chunks s)"
  using assms by (auto elim!: same_gate_ok [rotated] simp: gate_defs read_command_uart_def)

text \<open>What an action and the queue field leave alone, the loop over the queue leaves alone.\<close>

lemma drain_actions_keeps:
  assumes action: "\<And>a s. P s \<Longrightarrow> P (handle_action env now a s)" and field: "\<And>s q. P s \<Longrightarrow> P (s\<lparr>bs_actions := q\<rparr>)"
    and run: "drain_actions env now s = Some t" and start: "P s"
  shows "P t"
proof -
  have "(\<forall>a s. P s \<longrightarrow> P (handle_action env now a s)) \<longrightarrow> P s \<longrightarrow> P t" (is "?P env now s t")
  proof (rule drain_actions.raw_induct [where P = ?P, OF _ run], goal_cases)
    case (1 drain env now s t)
    show ?case
    proof (intro impI)
      assume act: "\<forall>a s. P s \<longrightarrow> P (handle_action env now a s)" and P: "P s"
      show "P t"
      proof (cases "bs_actions s")
        case None
        then show ?thesis using 1(2) P by simp
      next
        case (Some q)
        obtain a q' where r: "q_receive (be_actions env) q = (a, q')" by (rule prod.exhaust)
        show ?thesis
        proof (cases a)
          case None
          then show ?thesis using 1(2) Some r P by (auto simp: field)
        next
          case (Some x)
          then have "drain env now (handle_action env now x (s\<lparr>bs_actions := Some q'\<rparr>)) = Some t"
            using 1(2) \<open>bs_actions s = Some q\<close> r by simp
          from 1(1) [OF this] show ?thesis using act P field by blast
        qed
      qed
    qed
  qed
  then show ?thesis using action start by blast
qed

lemma drain_actions_ok: "drain_actions env now s = Some t \<Longrightarrow> station_ok g r s \<Longrightarrow> station_ok g r t"
  by (rule drain_actions_keeps [where P = "station_ok g r"]) (auto intro: other_fields_ok handle_action_ok)

lemma run_pass_ok:
  "run_pass env i s = Some t \<Longrightarrow> station_ok g r s \<Longrightarrow> station_ok g r t"
  by (auto simp: run_pass_def other_fields_ok split: option.splits
      intro!: measure_rate_ok serve_data_ok other_fields_ok(3) dest!: drain_actions_ok)

lemma run_begin_ok: "station_ok g r s \<Longrightarrow> \<not> bs_raw s \<Longrightarrow> station_ok g r (run_begin env now s)"
proof -
  assume "station_ok g r s" "\<not> bs_raw s"
  moreover have "station_ok g r (t\<lparr>bs_rate_started := u, bs_rate_bytes := v\<rparr>)" if "station_ok g r t"
    for t :: "('a, 'b, 'c, 'd) base_station" and u v
    using that by (rule same_gate_ok [rotated]) (simp add: gate_defs)
  ultimately show ?thesis by (simp add: run_begin_def Let_def enter_transmit_ok enter_survey_ok)
qed

subsection \<open>All tasks together\<close>

text \<open>
  One operation of any task. The task itself begins once, on an object that is not collecting;
  a pass of a client's own task (and its start and stop) may change everything of the client
  but the flag that only \<open>set_suspended\<close> writes.
\<close>

inductive base_op :: "('n, 'u, 'q, 'a) base_env \<Rightarrow> ('n, 'u, 'q, 'a) base_station \<Rightarrow> ('n, 'u, 'q, 'a) base_station \<Rightarrow> bool"
  for env where
  Begin: "\<not> bs_raw s \<Longrightarrow> base_op env s (run_begin env now s)"
| Pass: "run_pass env i s = Some t \<Longrightarrow> base_op env s t"
| End: "base_op env s (run_end now s)"
| SetSuspended: "base_op env s (set_streams_suspended now b s)"
| SetEnabled: "base_op env s (set_streams_enabled env now b s)"
| ApplyPersisted: "base_op env s (apply_persisted_streams env now s)"
| Reload: "base_op env s (reload_services env now s)"
| Request: "base_op env s (snd (send_action env a s))"
| RequestRaw: "base_op env s (snd (request_raw_collection env b s))"
| Resume: "base_op env s (resume_persisted_rinex env s)"
| CasterTask: "lc_suspended c = lc_suspended (bs_caster s) \<Longrightarrow> base_op env s (s\<lparr>bs_caster := c\<rparr>)"
| Rtk2goTask: "np_suspended p = np_suspended (bs_rtk2go s) \<Longrightarrow> base_op env s (s\<lparr>bs_rtk2go := p\<rparr>)"
| OnocoyTask: "np_suspended p = np_suspended (bs_onocoy s) \<Longrightarrow> base_op env s (s\<lparr>bs_onocoy := p\<rparr>)"
| RtkdataTask: "np_suspended p = np_suspended (bs_rtkdata s) \<Longrightarrow> base_op env s (s\<lparr>bs_rtkdata := p\<rparr>)"

text \<open>The network gate's task is the only one that reports the network.\<close>

inductive base_step :: "('n, 'u, 'q, 'a) base_env \<Rightarrow> ('n, 'u, 'q, 'a) base_station \<Rightarrow> ('n, 'u, 'q, 'a) base_station \<Rightarrow> bool"
  for env where
  Op: "base_op env s t \<Longrightarrow> base_step env s t"
| SetNetwork: "base_step env s (set_network_available now b s)"

inductive_cases base_opE: "base_op env s t"
inductive_cases base_stepE: "base_step env s t"

lemma client_task_ok:
  assumes "station_ok g r s"
  shows "lc_suspended c = lc_suspended (bs_caster s) \<Longrightarrow> station_ok g r (s\<lparr>bs_caster := c\<rparr>)"
    "np_suspended p = np_suspended (bs_rtk2go s) \<Longrightarrow> station_ok g r (s\<lparr>bs_rtk2go := p\<rparr>)"
    "np_suspended p = np_suspended (bs_onocoy s) \<Longrightarrow> station_ok g r (s\<lparr>bs_onocoy := p\<rparr>)"
    "np_suspended p = np_suspended (bs_rtkdata s) \<Longrightarrow> station_ok g r (s\<lparr>bs_rtkdata := p\<rparr>)"
  by (rule same_gate_ok [OF _ assms], simp add: gate_defs)+

interpretation base_tasks: transition_system "base_step env" "station_ok g r" for env g r
  by unfold_locales
    (auto elim!: base_stepE base_opE intro!: inv_intro client_task_ok run_begin_ok dest: run_pass_ok)

text \<open>A start that succeeds leaves every stream suspended, and so does a fresh object.\<close>

lemma start_client_flag: "start_client env st svc g p = (e, p') \<Longrightarrow> np_suspended p' = np_suspended p"
  by (auto simp: start_client_def np_start_def np_configure_def Let_def split: if_splits)

lemma lc_start_flag: "lc_start created ok c = (e, c') \<Longrightarrow> lc_suspended c' = lc_suspended c"
  by (auto simp: lc_start_def Let_def split: if_splits)

lemma base_start_gate:
  assumes "base_start env w grants s0 k = (ESP_OK, s, k')" and "client_gates s0 = (True, True, True, True)" "raw_exclusive s0"
  shows "station_ok g r s" "bs_raw s = bs_raw s0" "bs_transient_suspended s" "bs_network_available s = bs_network_available s0"
    "bs_user_enabled s = ntrip_streams_enabled (be_nvs env) (bs_storage s0) True" "bs_storage s = bs_storage s0"
    "bs_actions s = sg_actions grants"
proof -
  let ?nv = "be_nvs env" and ?st = "bs_storage s0"
  obtain e1 p1 where c1: "start_client env ?st ''rtk2go'' (sg_rtk2go grants) (bs_rtk2go s0) = (e1, p1)" by (rule prod.exhaust)
  obtain e2 p2 where c2: "start_client env ?st ''onocoy'' (sg_onocoy grants) (bs_onocoy s0) = (e2, p2)" by (rule prod.exhaust)
  obtain e3 p3 where c3: "start_client env ?st ''rtkdata'' (sg_rtkdata grants) (bs_rtkdata s0) = (e3, p3)" by (rule prod.exhaust)
  obtain e4 c where c4: "lc_start (fst (sg_caster grants)) (snd (sg_caster grants)) (bs_caster s0) = (e4, c)" by (rule prod.exhaust)
  have s: "s = s0\<lparr>bs_stopping := False, bs_actions := sg_actions grants,
      bs_user_enabled := ntrip_streams_enabled ?nv ?st True, bs_transient_suspended := True,
      bs_rtk2go := p1, bs_onocoy := p2, bs_rtkdata := p3, bs_caster := c\<rparr>"
    using assms(1) by (simp add: base_start_def Let_def c1 c2 c3 c4 split: if_splits)
  have "np_suspended p1" "np_suspended p2" "np_suspended p3" "lc_suspended c"
    using start_client_flag [OF c1] start_client_flag [OF c2] start_client_flag [OF c3] lc_start_flag [OF c4] assms(2)
    by (simp_all add: client_gates_def)
  then have "gated UNIV s"
    by (simp add: s gated_UNIV client_gates_def effective_streams_suspended_def effective_outbound_streams_suspended_def)
  then have "gated g s" by (simp add: gated_def)
  moreover have "raw_exclusive s" using assms(3) by (simp add: s raw_exclusive_def)
  ultimately show "station_ok g r s" by (simp add: station_ok_def)
  show "bs_raw s = bs_raw s0" "bs_transient_suspended s" "bs_network_available s = bs_network_available s0"
    "bs_user_enabled s = ntrip_streams_enabled (be_nvs env) (bs_storage s0) True" "bs_storage s = bs_storage s0"
    "bs_actions s = sg_actions grants" by (simp_all add: s)
qed

lemma fresh_gates:
  "client_gates (base_station_init st um) = (True, True, True, True)" "raw_exclusive (base_station_init st um)"
  "\<not> bs_raw (base_station_init st um)"
  by (simp_all add: client_gates_def raw_exclusive_def base_station_init_def ntrip_init_def local_caster_init_def
      rinex_logger_init_def)

lemma base_start_ok:
  assumes "base_start env w grants (base_station_init st um) k = (ESP_OK, s, k')"
  shows "station_ok g r s" "\<not> bs_raw s"
  using base_start_gate(1,2) [OF assms fresh_gates(1,2)] fresh_gates(3) by simp_all

end
