(* ===== verification/BaseTasks.thy ===== *)
theory BaseTasks
  imports BaseGate
begin

text \<open>
  The coordinator's operations as several tasks run them. \<open>apply_stream_state\<close>
  (\<open>src/main/base_station.cpp\<close>) takes no lock: it reads the flags, and then writes the four
  clients one after the other, while other tasks go on. Here every task may be anywhere between its
  change of a flag, its decision and its four writes. The lemmas show what holds as long as no
  task is overtaken between its decision and its last write, and that without this streams can
  stay open during a survey.
\<close>

subsection \<open>Tasks in the middle of applying\<close>

text \<open>\<open>Owing\<close>: it has changed what the decision depends on; \<open>Writing\<close>: its decision, the clients to write.\<close>

datatype task_phase = Quiet | Owing | Writing "bool \<times> bool" "stream_client list"

definition write_order :: "stream_client list" where
  "write_order = [Caster, Rtk2go, Onocoy, Rtkdata]"

definition write_client :: "time_us \<Rightarrow> bool \<times> bool \<Rightarrow> stream_client \<Rightarrow> ('n, 'u, 'q, 'a) base_station \<Rightarrow> ('n, 'u, 'q, 'a) base_station" where
  "write_client now d c s = (case c of
       Caster \<Rightarrow> s\<lparr>bs_caster := lc_set_suspended (fst d) (bs_caster s)\<rparr>
     | Rtk2go \<Rightarrow> s\<lparr>bs_rtk2go := np_set_suspended (snd d) now (bs_rtk2go s)\<rparr>
     | Onocoy \<Rightarrow> s\<lparr>bs_onocoy := np_set_suspended (snd d) now (bs_onocoy s)\<rparr>
     | Rtkdata \<Rightarrow> s\<lparr>bs_rtkdata := np_set_suspended (snd d) now (bs_rtkdata s)\<rparr>)"

text \<open>These are the parts of \<open>apply_stream_state\<close>.\<close>

lemma apply_in_parts:
  "apply_stream_state now s = foldl (\<lambda>s c. write_client now (decision s0) c s) s write_order" if "s0 = s"
  by (simp add: that apply_stream_state_def write_stream_state_def write_order_def write_client_def decision_def)

text \<open>
  One step of any task: an operation that runs undisturbed; a part of an operation that writes no
  client's flag - it may change anything else, and then owes an apply when the decision
  changed; the decision; a write.
\<close>

inductive task_step ::
  "('n, 'u, 'q, 'a) base_env \<Rightarrow> ('n, 'u, 'q, 'a) base_station \<times> (nat \<Rightarrow> task_phase) \<Rightarrow>
   ('n, 'u, 'q, 'a) base_station \<times> (nat \<Rightarrow> task_phase) \<Rightarrow> bool" for env where
  Whole: "base_step env s t \<Longrightarrow> task_step env (s, ph) (t, ph)"
| Part: "ph i \<in> {Quiet, Owing} \<Longrightarrow> client_gates t = client_gates s \<Longrightarrow>
    task_step env (s, ph) (t, ph(i := if decision t = decision s then ph i else Owing))"
| Decide: "ph i \<in> {Quiet, Owing} \<Longrightarrow> task_step env (s, ph) (s, ph(i := Writing (decision s) write_order))"
| Write: "ph i = Writing d (c # cs) \<Longrightarrow>
    task_step env (s, ph) (write_client now d c s, ph(i := if cs = [] then Quiet else Writing d cs))"

inductive_cases task_stepE: "task_step env x y"

text \<open>A step after which no task holds a decision that is out of date.\<close>

definition not_overtaken :: "('n, 'u, 'q, 'a) base_station \<times> (nat \<Rightarrow> task_phase) \<Rightarrow> bool" where
  "not_overtaken x \<longleftrightarrow> (\<forall>i d cs. snd x i = Writing d cs \<longrightarrow> d = decision (fst x))"

definition orderly_step ::
  "('n, 'u, 'q, 'a) base_env \<Rightarrow> ('n, 'u, 'q, 'a) base_station \<times> (nat \<Rightarrow> task_phase) \<Rightarrow>
   ('n, 'u, 'q, 'a) base_station \<times> (nat \<Rightarrow> task_phase) \<Rightarrow> bool" where
  "orderly_step env x y \<longleftrightarrow> task_step env x y \<and> not_overtaken y"

subsection \<open>Orderly runs\<close>

text \<open>
  The clients a task has written follow the gate; when every task is quiet all do.
\<close>

definition tasks_ok :: "('n, 'u, 'q, 'a) base_station \<times> (nat \<Rightarrow> task_phase) \<Rightarrow> bool" where
  "tasks_ok x \<longleftrightarrow> not_overtaken x \<and>
     (\<forall>i d cs. snd x i = Writing d cs \<longrightarrow> gated (- set cs) (fst x)) \<and>
     ((\<forall>i. snd x i = Quiet) \<longrightarrow> gated UNIV (fst x))"

lemma base_step_gated: "base_step env s t \<Longrightarrow> gated g s \<Longrightarrow> gated g t"
  using base_tasks.step_keeps [of g False s env t] by (simp add: station_ok_def)

lemma part_gated:
  "client_gates t = client_gates s \<Longrightarrow> decision t = decision s \<Longrightarrow> gated g s \<Longrightarrow> gated g t"
  by (metis gated_def stream_gate_cong)

lemma write_client_keeps:
  "decision (write_client now d c s) = decision s" "bs_mode (write_client now d c s) = bs_mode s"
  "bs_raw (write_client now d c s) = bs_raw s" "bs_rinex (write_client now d c s) = bs_rinex s"
  by (cases c; simp add: write_client_def decision_def effective_streams_suspended_def
      effective_outbound_streams_suspended_def)+

lemma write_client_gate: "stream_gate (write_client now d c s) c' = (if c' = c then wanted d c else stream_gate s c')"
  by (cases c; cases c') (simp_all add: write_client_def wanted_def)

lemma write_gated:
  "d = decision s \<Longrightarrow> gated g s \<Longrightarrow> g' \<subseteq> insert c g \<Longrightarrow> gated g' (write_client now d c s)"
  by (auto simp: gated_def write_client_keeps write_client_gate)

lemma gated_subset: "gated g s \<Longrightarrow> g' \<subseteq> g \<Longrightarrow> gated g' s"
  by (auto simp: gated_def)

interpretation orderly: transition_system "orderly_step env" tasks_ok for env
proof
  fix x y :: "('a, 'b, 'c, 'd) base_station \<times> (nat \<Rightarrow> task_phase)"
  assume inv: "tasks_ok x" and step: "orderly_step env x y"
  then have fresh: "not_overtaken y" and ts: "task_step env x y" by (simp_all add: orderly_step_def)
  from ts show "tasks_ok y"
  proof cases
    case (Whole s t ph)
    then show ?thesis using inv fresh base_step_gated by (auto simp: tasks_ok_def)
  next
    case (Part ph i t s)
    show ?thesis
    proof (cases "decision t = decision s")
      case True
      then have "ph(i := if decision t = decision s then ph i else Owing) = ph" by simp
      then show ?thesis using Part(1,2,4) True inv fresh part_gated by (auto simp: tasks_ok_def)
    next
      case False
      have "ph j \<noteq> Writing d cs" for j d cs
      proof
        assume w: "ph j = Writing d cs"
        then have "j \<noteq> i" using Part(3) by auto
        then have "snd y j = Writing d cs" using w Part(2) False by simp
        then have "d = decision (fst y)" using fresh unfolding not_overtaken_def by blast
        moreover have "d = decision (fst x)"
          using inv w Part(1) unfolding tasks_ok_def not_overtaken_def by (metis snd_conv)
        ultimately show False using False Part(1,2) by simp
      qed
      then show ?thesis using Part(1,2) False fresh by (auto simp: tasks_ok_def)
    qed
  next
    case (Decide ph i s)
    have "set write_order = UNIV" using stream_client.exhaust by (auto simp: write_order_def)
    then show ?thesis using Decide inv fresh by (auto simp: tasks_ok_def gated_def)
  next
    case (Write ph i d c cs s now)
    let ?s = "write_client now d c s"
    have d: "d = decision s" and g: "gated (- set (c # cs)) s"
      using inv Write(1,3) unfolding tasks_ok_def not_overtaken_def by (metis fst_conv snd_conv)+
    have mine: "gated (- set cs) ?s" by (rule write_gated [OF d g]) auto
    have others: "gated (- set cs') ?s" if "ph j = Writing d' cs'" for j d' cs'
    proof (rule write_gated [OF d])
      show "gated (- set cs') s" using inv that Write(1) unfolding tasks_ok_def by (metis fst_conv snd_conv)
    qed auto
    have "gated UNIV ?s" if "\<forall>j. (ph(i := if cs = [] then Quiet else Writing d cs)) j = Quiet"
    proof -
      have "cs = []" using that [rule_format, of i] by (auto split: if_splits)
      then show ?thesis using mine by simp
    qed
    then show ?thesis using mine others fresh Write(2) by (auto simp: tasks_ok_def split: if_splits)
  qed
qed

subsection \<open>A decision that is overtaken\<close>

text \<open>
  \<open>task\<close> decides while the streams are open; then another task - the station's - begins a survey,
  with its own apply; then the first writes what it had decided. Every stream is open during
  the survey, and no task has anything left to write.
\<close>

lemma writes_reachable:
  assumes "ph i = Writing d cs" "cs \<noteq> []"
  shows "rtranclp (task_step env) (s, ph) (foldl (\<lambda>s c. write_client now d c s) s cs, ph(i := Quiet))"
  using assms
proof (induction cs arbitrary: s ph)
  case (Cons c cs)
  have step: "task_step env (s, ph) (write_client now d c s, ph(i := if cs = [] then Quiet else Writing d cs))"
    using Cons.prems(1) by (rule task_step.Write [of ph i d c cs])
  show ?case
  proof (cases "cs = []")
    case True
    then show ?thesis using step by (simp add: r_into_rtranclp del: fun_upd_apply)
  next
    case False
    have "rtranclp (task_step env) (write_client now d c s, ph(i := Writing d cs))
        (foldl (\<lambda>s c. write_client now d c s) (write_client now d c s) cs, (ph(i := Writing d cs))(i := Quiet))"
      by (rule Cons.IH) (simp_all add: False)
    then show ?thesis using step False by (simp add: converse_rtranclp_into_rtranclp del: fun_upd_apply)
  qed
qed simp

lemma apply_reachable:
  assumes "ph i \<in> {Quiet, Owing}"
  shows "rtranclp (task_step env) (s, ph) (apply_stream_state now s, ph(i := Quiet))"
proof -
  let ?ph = "ph(i := Writing (decision s) write_order)"
  have "task_step env (s, ph) (s, ?ph)" by (rule task_step.Decide [of ph i env s]) (rule assms)
  moreover have "rtranclp (task_step env) (s, ?ph) (apply_stream_state now s, ?ph(i := Quiet))"
    using writes_reachable [of ?ph i "decision s" write_order env s now] apply_in_parts [of s s now]
    by (simp add: write_order_def)
  ultimately show ?thesis by (simp add: converse_rtranclp_into_rtranclp)
qed

lemma stale_decision_opens_streams:
  assumes "decision s = (False, False)" "bs_mode s = Transmit"
  shows "\<exists>t. rtranclp (task_step env) (s, \<lambda>_. Quiet) (t, \<lambda>_. Quiet) \<and> bs_mode t = Survey \<and>
    client_gates t = (False, False, False, False)"
proof -
  let ?ph = "(\<lambda>_. Quiet)(0 :: nat := Writing (False, False) write_order)"
  let ?s1 = "s\<lparr>bs_mode := Survey, bs_has_rtcm := False, bs_rate_ready := False\<rparr>"
  let ?s2 = "apply_stream_state 0 ?s1" and ?w = "\<lambda>s c. write_client 0 (False, False) c s"
  have changed: "decision ?s1 \<noteq> decision s"
    by (simp add: assms(1)) (simp add: decision_def effective_streams_suspended_def)
  have "task_step env (s, \<lambda>_. Quiet) (s, ?ph)"
    using task_step.Decide [of "\<lambda>_. Quiet" 0 env s] by (simp add: assms(1))
  moreover have "task_step env (s, ?ph) (?s1, ?ph(1 := Owing))"
    using task_step.Part [of ?ph 1 ?s1 s env] changed by (simp add: client_gates_def)
  moreover have "rtranclp (task_step env) (?s1, ?ph(1 := Owing)) (?s2, (?ph(1 := Owing))(1 := Quiet))"
    by (rule apply_reachable) simp
  moreover have "(?ph(1 := Owing))(1 := Quiet) = ?ph" by (simp add: fun_eq_iff)
  moreover have "rtranclp (task_step env) (?s2, ?ph) (foldl ?w ?s2 write_order, ?ph(0 := Quiet))"
    by (rule writes_reachable) (simp_all add: write_order_def)
  moreover have "?ph(0 := Quiet) = (\<lambda>_. Quiet)" by (auto simp: fun_eq_iff)
  ultimately have "rtranclp (task_step env) (s, \<lambda>_. Quiet) (foldl ?w ?s2 write_order, \<lambda>_. Quiet)"
    by (metis (no_types, lifting) converse_rtranclp_into_rtranclp rtranclp_trans)
  moreover have "bs_mode (foldl ?w ?s2 write_order) = Survey"
    by (simp add: write_order_def write_client_keeps apply_fields)
  moreover have "client_gates (foldl ?w ?s2 write_order) = (False, False, False, False)"
    by (simp add: write_order_def write_client_def client_gates_def)
  ultimately show ?thesis by blast
qed

end
