(* ===== verification/BaseFlow.thy ===== *)
theory BaseFlow
  imports BaseTasks
begin

text \<open>
  The properties of the coordinator: when streams are open, raw collection, the action queue,
  the path of an RTCM byte, and what a reboot finds.
\<close>

subsection \<open>The action queue\<close>

text \<open>No action looks at the queue.\<close>

lemma actions_out:
  "s\<lparr>bs_actions := x, bs_storage := v1\<rparr> = s\<lparr>bs_storage := v1, bs_actions := x\<rparr>"
  "s\<lparr>bs_actions := x, bs_receiver := v2\<rparr> = s\<lparr>bs_receiver := v2, bs_actions := x\<rparr>"
  "s\<lparr>bs_actions := x, bs_survey := v3\<rparr> = s\<lparr>bs_survey := v3, bs_actions := x\<rparr>"
  "s\<lparr>bs_actions := x, bs_rinex := v4\<rparr> = s\<lparr>bs_rinex := v4, bs_actions := x\<rparr>"
  "s\<lparr>bs_actions := x, bs_has_rtcm := v5\<rparr> = s\<lparr>bs_has_rtcm := v5, bs_actions := x\<rparr>"
  "s\<lparr>bs_actions := x, bs_rate_ready := v6\<rparr> = s\<lparr>bs_rate_ready := v6, bs_actions := x\<rparr>"
  "s\<lparr>bs_actions := x, bs_raw := v7\<rparr> = s\<lparr>bs_raw := v7, bs_actions := x\<rparr>"
  "s\<lparr>bs_actions := x, bs_mode := v8\<rparr> = s\<lparr>bs_mode := v8, bs_actions := x\<rparr>"
  by simp_all

lemma helpers_actions:
  "apply_stream_state now (s\<lparr>bs_actions := x\<rparr>) = (apply_stream_state now s)\<lparr>bs_actions := x\<rparr>"
  "reset_rtcm_state now (s\<lparr>bs_actions := x\<rparr>) = (reset_rtcm_state now s)\<lparr>bs_actions := x\<rparr>"
  "reset_parser (s\<lparr>bs_actions := x\<rparr>) = (reset_parser s)\<lparr>bs_actions := x\<rparr>"
  "configure_receiver_base env lat lon h (s\<lparr>bs_actions := x\<rparr>) = (configure_receiver_base env lat lon h s)\<lparr>bs_actions := x\<rparr>"
  by (simp_all add: apply_stream_state_def write_stream_state_def effective_streams_suspended_def
      effective_outbound_streams_suspended_def reset_rtcm_state_def reset_parser_def configure_receiver_base_def)

lemma enter_actions:
  "enter_survey env now c (s\<lparr>bs_actions := x\<rparr>) = (enter_survey env now c s)\<lparr>bs_actions := x\<rparr>"
  "enter_transmit env now lat lon h (s\<lparr>bs_actions := x\<rparr>) = (enter_transmit env now lat lon h s)\<lparr>bs_actions := x\<rparr>"
  "enter_raw_collection env now (s\<lparr>bs_actions := x\<rparr>) = (enter_raw_collection env now s)\<lparr>bs_actions := x\<rparr>"
  "exit_raw_collection env now (s\<lparr>bs_actions := x\<rparr>) = (exit_raw_collection env now s)\<lparr>bs_actions := x\<rparr>"
  "reset_um980 env now (s\<lparr>bs_actions := x\<rparr>) = (reset_um980 env now s)\<lparr>bs_actions := x\<rparr>"
  by (simp_all add: enter_survey_def enter_transmit_def enter_raw_collection_def exit_raw_collection_def
      reset_um980_def Let_def actions_out helpers_actions)

lemma handle_action_queue:
  "handle_action env now a (s\<lparr>bs_actions := x\<rparr>) = (handle_action env now a s)\<lparr>bs_actions := x\<rparr>"
proof (cases a)
  case (ActPosition lat lon height)
  obtain e1 st1 where sv1: "save_position (be_nvs env) lat lon height (bs_storage s) = (e1, st1)" by (rule prod.exhaust)
  obtain e2 st2 where sv2: "save_position (be_nvs env) lat lon height (bs_storage (exit_raw_collection env now s)) = (e2, st2)"
    by (rule prod.exhaust)
  show ?thesis
    by (cases "bs_raw s") (simp_all add: handle_action_def ActPosition sv1 sv2 actions_out enter_actions Let_def)
qed (auto simp: handle_action_def enter_actions)

lemma drain_all:
  assumes laws: "queue_laws depth (be_actions env) contents"
  shows "bs_actions s = Some q \<Longrightarrow> \<exists>q'. contents q' = [] \<and>
    drain_actions env now s =
      Some ((foldl (\<lambda>s a. handle_action env now a s) s (contents q))\<lparr>bs_actions := Some q'\<rparr>)"
proof (induction "contents q" arbitrary: s q)
  case Nil
  then obtain q' where "q_receive (be_actions env) q = (None, q')" "contents q' = []"
    using queue_receive(1) [OF laws, of q] by (metis prod.collapse)
  then show ?case using Nil by (auto simp: drain_actions.simps [of env now s])
next
  case (Cons a as)
  obtain q1 where r: "q_receive (be_actions env) q = (Some a, q1)" "contents q1 = as"
    using queue_receive(2) [OF laws Cons.hyps(2) [symmetric]] by (metis prod.collapse)
  let ?s = "handle_action env now a (s\<lparr>bs_actions := Some q1\<rparr>)"
  have keep: "foldl (\<lambda>s a. handle_action env now a s) (u\<lparr>bs_actions := x\<rparr>) as =
      (foldl (\<lambda>s a. handle_action env now a s) u as)\<lparr>bs_actions := x\<rparr>" for u x as
    by (induction as arbitrary: u) (simp_all add: handle_action_queue)
  have q1: "bs_actions ?s = Some q1" by (simp add: handle_action_queue)
  show ?case
    using Cons.hyps(1) [OF r(2) [symmetric] q1] Cons.hyps(2) [symmetric] Cons.prems r
    by (simp add: drain_actions.simps [of env now s] handle_action_queue keep)
qed

text \<open>
  C15. The loop that empties the action queue returns, and does what handling the queued actions
  one after the other, oldest first, does; the queue is empty afterwards.
\<close>

theorem actions_served_in_order:
  assumes "queue_laws depth (be_actions env) contents" and "bs_actions s = Some q"
  shows "\<exists>q'. contents q' = [] \<and>
    drain_actions env now s =
      Some ((foldl (\<lambda>s a. handle_action env now a s) s (contents q))\<lparr>bs_actions := Some q'\<rparr>)"
  by (rule drain_all [OF assms])

subsection \<open>The gate\<close>


subsection \<open>Raw collection\<close>

text \<open>The operations in any order, with the write of any decision, however old, at any place.\<close>

definition racy_step ::
  "('n, 'u, 'q, 'a) base_env \<Rightarrow> ('n, 'u, 'q, 'a) base_station \<Rightarrow> ('n, 'u, 'q, 'a) base_station \<Rightarrow> bool" where
  "racy_step env s t \<longleftrightarrow> base_step env s t \<or> (\<exists>now d c. t = write_client now d c s)"

interpretation racy: transition_system "racy_step env" raw_exclusive for env
proof
  fix s t :: "('a, 'b, 'c, 'd) base_station"
  assume "raw_exclusive s" "racy_step env s t"
  then show "raw_exclusive t"
    using base_tasks.step_keeps [of "{}" True s env t]
    by (auto simp: racy_step_def station_ok_def gated_def raw_exclusive_def write_client_keeps)
qed

definition takes_no_byte :: "('n, 'u, 'q, 'a) base_station \<Rightarrow> bool" where
  "takes_no_byte t \<longleftrightarrow> (\<forall>qo d. lc_push qo d (bs_caster t) = bs_caster t \<and>
     np_push qo d (bs_rtk2go t) = (False, bs_rtk2go t) \<and> np_push qo d (bs_onocoy t) = (False, bs_onocoy t) \<and>
     np_push qo d (bs_rtkdata t) = (False, bs_rtkdata t))"

lemma suspended_takes_no_byte: "client_gates t = (True, True, True, True) \<Longrightarrow> takes_no_byte t"
  by (auto simp: takes_no_byte_def client_gates_def lc_push_def np_push_def split: option.splits)

lemma base_steps_gated: "rtranclp (base_step env) s t \<Longrightarrow> gated g s \<Longrightarrow> gated g t"
  using base_tasks.reachable_inv [of env s t g False] by (simp add: station_ok_def)


subsection \<open>A byte's way\<close>

definition publish_all ::
  "('n, 'u, 'q, 'a) base_env \<Rightarrow> time_us \<Rightarrow> rtcm_event list \<Rightarrow> ('n, 'u, 'q, 'a) base_station \<Rightarrow> ('n, 'u, 'q, 'a) base_station" where
  "publish_all env now es s =
     foldl (\<lambda>s e. case e of RtcmFrame d \<Rightarrow> publish_rtcm_frame env now d s | RtcmBadCrc \<Rightarrow> s) s es"

lemma apply_parser: "apply_stream_state now (s\<lparr>bs_parser := p\<rparr>) = (apply_stream_state now s)\<lparr>bs_parser := p\<rparr>"
  by (simp add: apply_stream_state_def write_stream_state_def effective_streams_suspended_def
      effective_outbound_streams_suspended_def)

lemma publish_parser: "publish_rtcm_frame env now d (s\<lparr>bs_parser := p\<rparr>) = (publish_rtcm_frame env now d s)\<lparr>bs_parser := p\<rparr>"
proof -
  have swap: "s\<lparr>bs_parser := p, bs_has_rtcm := h\<rparr> = s\<lparr>bs_has_rtcm := h, bs_parser := p\<rparr>" for h by simp
  show ?thesis by (simp add: publish_rtcm_frame_def Let_def apply_parser swap split: prod.splits)
qed

lemma publish_all_parser: "publish_all env now es (s\<lparr>bs_parser := p\<rparr>) = (publish_all env now es s)\<lparr>bs_parser := p\<rparr>"
  by (induction es arbitrary: s) (auto simp: publish_all_def publish_parser split: rtcm_event.splits)

text \<open>Feeding bytes is running the parser and publishing what it reports.\<close>

lemma feed_data_run:
  "foldl (feed_data_byte env) s (map (Pair now) bs) =
     (publish_all env now (snd (feed_all feed_rtcm_byte (bs_parser s) bs)) s)
       \<lparr>bs_parser := fst (feed_all feed_rtcm_byte (bs_parser s) bs)\<rparr>"
proof (induction bs arbitrary: s)
  case Nil
  then show ?case by (simp add: publish_all_def)
next
  case (Cons b bs)
  obtain p es where one: "feed_rtcm_byte (bs_parser s) b = (p, es)" by (rule prod.exhaust)
  obtain p' es' where rest: "feed_all feed_rtcm_byte p bs = (p', es')" by (rule prod.exhaust)
  have step: "feed_data_byte env s (now, b) = (publish_all env now es s)\<lparr>bs_parser := p\<rparr>"
    using publish_all_parser by (simp add: feed_data_byte_def one publish_all_def)
  show ?case
    by (simp add: step Cons.IH one rest publish_all_parser) (simp add: publish_all_def)
qed

lemma publish_frame_fields:
  assumes "d \<noteq> []" "length d \<le> kMaxRtcmFrame"
  shows "bs_has_rtcm (publish_rtcm_frame env now d s)"
    "bs_rtcm_total (publish_rtcm_frame env now d s) = bs_rtcm_total s + of_nat (length d)"
    "bs_corrections (publish_rtcm_frame env now d s) =
       publish_to_corrections (bs_corrections s) d (rtcm_message_number d) now"
  using assms by (simp_all add: publish_rtcm_frame_def Let_def apply_fields split: prod.splits)

text \<open>What a list of frames makes of the mailbox.\<close>

definition latest :: "mailbox \<Rightarrow> u8 list list \<Rightarrow> mailbox" where
  "latest m fs = foldl (\<lambda>m f. m(rtcm_message_number f \<mapsto> (f, {}))) m fs"

lemma latest_dom: "dom (latest m fs) = dom m \<union> rtcm_message_number ` set fs"
  by (induction fs arbitrary: m) (auto simp: latest_def)

lemma finite_mailbox [simp]: "finite (dom (mailbox co))"
  unfolding mailbox_def dom_mailbox_of by simp

lemma publish_frames:
  assumes "\<forall>f \<in> set fs. rtcm_valid f" "corrections_inv (bs_corrections s)"
    and "card (dom (mailbox (bs_corrections s)) \<union> rtcm_message_number ` set fs) \<le> kMaxCorrectionSlots"
  shows "let t = publish_all env now (map RtcmFrame fs) s in
    mailbox (bs_corrections t) = latest (mailbox (bs_corrections s)) fs \<and> corrections_inv (bs_corrections t) \<and>
    bs_rtcm_total t = bs_rtcm_total s + of_nat (sum_list (map length fs)) \<and>
    bs_has_rtcm t = (bs_has_rtcm s \<or> fs \<noteq> [])"
  using assms
proof (induction fs arbitrary: s)
  case Nil
  then show ?case by (simp add: publish_all_def latest_def)
next
  case (Cons f fs)
  have f: "f \<noteq> []" "length f \<le> kMaxRtcmFrame"
    using Cons.prems(1) rtcm_valid_length [of f] by (auto simp: rtcm_valid_def kMaxRtcmFrame_def)
  let ?s = "publish_rtcm_frame env now f s" and ?n = "rtcm_message_number f" and ?m = "mailbox (bs_corrections s)"
  note fields = publish_frame_fields [OF f, of env now s]
  have room: "?n \<in> dom ?m \<or> card (dom ?m) < kMaxCorrectionSlots"
  proof (rule ccontr)
    assume full: "\<not> ?thesis"
    then have "card (insert ?n (dom ?m)) = Suc (card (dom ?m))" by simp
    moreover have "card (insert ?n (dom ?m)) \<le> card (dom ?m \<union> rtcm_message_number ` set (f # fs))"
      by (intro card_mono) auto
    ultimately show False using full Cons.prems(3) by simp
  qed
  have pub: "corrections_inv (bs_corrections ?s)" "mailbox (bs_corrections ?s) = ?m(?n \<mapsto> (f, {}))"
    using publish_slot [OF Cons.prems(2) f, of ?n now] room by (auto simp: fields)
  have dom: "dom (mailbox (bs_corrections ?s)) \<union> rtcm_message_number ` set fs =
      dom ?m \<union> rtcm_message_number ` set (f # fs)" by (auto simp: pub)
  have "card (dom (mailbox (bs_corrections ?s)) \<union> rtcm_message_number ` set fs) \<le> kMaxCorrectionSlots"
    using Cons.prems(3) by (simp only: dom)
  moreover have "\<forall>f \<in> set fs. rtcm_valid f" using Cons.prems(1) by simp
  ultimately show ?case
    using Cons.IH [of ?s] pub fields(1,2)
    by (simp only: Let_def publish_all_def latest_def foldl_Cons list.map rtcm_event.case sum_list.Cons of_nat_add add.assoc
        list.distinct simp_thms)
qed

text \<open>
  C12. From the receiver's bytes to the mailbox: when correctly encoded messages arrive on the
  data port, with bytes other than the preamble between them, while the parser is idle and
  their message numbers fit the mailbox, then afterwards the stream gate knows that frames
  arrive, the mailbox holds for every message number the latest frame, unsent to all three
  services, the byte counter has grown by exactly the frames' lengths, and the parser is idle.
\<close>

theorem bytes_become_corrections:
  assumes "rtcm_parser_inv (bs_parser s)" "rtcm_held (bs_parser s) = []" "corrections_inv (bs_corrections s)"
    and "list_all (\<lambda>(noise, payload). 0xD3 \<notin> set noise \<and> length payload \<le> 1023) msgs"
    and "frames = map (\<lambda>(noise, payload). rtcm_encode payload) msgs"
    and "card (dom (mailbox (bs_corrections s)) \<union> rtcm_message_number ` set frames) \<le> kMaxCorrectionSlots"
  shows "let t = foldl (feed_data_byte env) s
      (map (Pair now) (concat (map (\<lambda>(noise, payload). noise @ rtcm_encode payload) msgs))) in
    mailbox (bs_corrections t) = latest (mailbox (bs_corrections s)) frames \<and>
    bs_rtcm_total t = bs_rtcm_total s + of_nat (sum_list (map length frames)) \<and>
    bs_has_rtcm t = (bs_has_rtcm s \<or> msgs \<noteq> []) \<and> rtcm_held (bs_parser t) = []"
proof -
  let ?gs = "map (\<lambda>(noise, payload). (noise, rtcm_encode payload)) msgs"
  let ?bs = "concat (map (\<lambda>(noise, payload). noise @ rtcm_encode payload) msgs)"
  have gs: "list_all (\<lambda>(g, f). 0xD3 \<notin> set g \<and> rtcm_valid f) ?gs"
    using assms(4) by (auto simp: list_all_iff intro: rtcm_encode_valid)
  have eq: "concat (map (\<lambda>(g, f). g @ f) ?gs) = ?bs" by (simp add: case_prod_beta' comp_def)
  have ev: "map (\<lambda>(g, f). RtcmFrame f) ?gs = map RtcmFrame frames"
    unfolding assms(5) by (simp add: case_prod_beta' comp_def)
  have run: "feed_all rtcm_spec_step [] ?bs = ([], map RtcmFrame frames)"
    using rtcm_spec_run_stream [OF gs] by (simp only: eq ev)
  have parser: "snd (feed_all feed_rtcm_byte (bs_parser s) ?bs) = map RtcmFrame frames"
    "rtcm_held (fst (feed_all feed_rtcm_byte (bs_parser s) ?bs)) = []"
    using rtcm.run_events [OF assms(1), of ?bs] rtcm.run_held [OF assms(1), of ?bs] by (simp_all add: assms(2) run)
  have "\<forall>f \<in> set frames. rtcm_valid f"
    using assms(4) unfolding assms(5) by (auto simp: list_all_iff intro: rtcm_encode_valid)
  from publish_frames [OF this assms(3,6), of env now]
  show ?thesis using assms(5) by (simp add: feed_data_run parser Let_def)
qed

subsection \<open>What a reboot finds\<close>

lemma modes_storage:
  "bs_storage (enter_transmit env now lat lon h s) = bs_storage s"
  "bs_storage (exit_raw_collection env now s) = bs_storage s"
  "bs_storage (enter_survey env now True s) = snd (clear_position (be_nvs env) (bs_storage s))"
  "bs_mode (enter_transmit env now lat lon h s) = Transmit" "bs_mode (enter_survey env now c s) = Survey"
  by (simp_all add: enter_transmit_def enter_survey_def exit_raw_collection_def Let_def apply_fields
      reset_rtcm_state_def reset_parser_def configure_receiver_base_def)

lemma position_action_storage:
  "bs_storage (handle_action env now (ActPosition lat lon h) s) =
     snd (save_position (be_nvs env) lat lon h (bs_storage s))"
  by (auto simp: handle_action_def Let_def modes_storage split: prod.splits)

lemma survey_action_storage:
  "bs_storage (handle_action env now ActSurvey s) = snd (clear_position (be_nvs env) (bs_storage s))"
  by (simp add: handle_action_def modes_storage)

text \<open>
  C14. A requested position survives a loss of power: if the settings could be written, a station
  that starts on what the flash holds after a restart goes straight into transmission with the
  very same latitude, longitude and height. A requested survey survives it too: the old
  position is forgotten, and the station starts with a new survey.
\<close>

theorem mode_survives_reboot:
  assumes "nvs_laws (be_nvs env) cell" and "restart_laws (be_nvs env) cell unsettled restart"
    and "a = ActPosition lat lon h \<or> a = ActSurvey"
    and "storage_open (be_nvs env)
      \<lparr>st_nvs = restart (st_nvs (bs_storage (handle_action env now a s))), st_open = False\<rparr> = (ESP_OK, bs_storage r)"
  shows "(a = ActPosition lat lon h \<and> fst (save_position (be_nvs env) lat lon h (bs_storage s)) = ESP_OK \<longrightarrow>
      run_begin env later r = (enter_transmit env later lat lon h r)\<lparr>bs_rate_started := later, bs_rate_bytes := 0\<rparr> \<and>
      bs_mode (run_begin env later r) = Transmit) \<and>
    (a = ActSurvey \<and> fst (clear_position (be_nvs env) (bs_storage s)) = ESP_OK \<longrightarrow>
      bs_mode (run_begin env later r) = Survey)"
proof (intro conjI impI; elim conjE)
  assume a: "a = ActPosition lat lon h" and "fst (save_position (be_nvs env) lat lon h (bs_storage s)) = ESP_OK"
  then obtain t where saved: "save_position (be_nvs env) lat lon h (bs_storage s) = (ESP_OK, t)" by (metis prod.collapse)
  have "bs_storage (handle_action env now a s) = t" by (simp add: a position_action_storage saved)
  then have "load_position (be_nvs env) (bs_storage r) = load_position (be_nvs env) t"
    using after_save [OF assms(1,2) saved [unfolded save_position_def] save_position_OK(1) [OF assms(1) saved]] assms(4) by simp
  then have "load_position (be_nvs env) (bs_storage r) = \<lparr>bp_lat = lat, bp_lon = lon, bp_height = h, bp_valid = True\<rparr>"
    using load_saved_position [OF assms(1) saved] by simp
  then show "run_begin env later r = (enter_transmit env later lat lon h r)\<lparr>bs_rate_started := later, bs_rate_bytes := 0\<rparr>"
    "bs_mode (run_begin env later r) = Transmit"
    by (simp_all add: run_begin_def Let_def modes_storage)
next
  assume a: "a = ActSurvey" and "fst (clear_position (be_nvs env) (bs_storage s)) = ESP_OK"
  then obtain t where cleared: "clear_position (be_nvs env) (bs_storage s) = (ESP_OK, t)" by (metis prod.collapse)
  have "bs_storage (handle_action env now a s) = t" by (simp add: a survey_action_storage cleared)
  then have "load_position (be_nvs env) (bs_storage r) = load_position (be_nvs env) t"
    using after_save [OF assms(1,2) cleared [unfolded clear_position_def] clear_position_open [OF assms(1) cleared]] assms(4) by simp
  then have "\<not> bp_valid (load_position (be_nvs env) (bs_storage r))"
    using load_cleared_position [OF assms(1) cleared] by simp
  then show "bs_mode (run_begin env later r) = Survey"
    by (simp add: run_begin_def Let_def modes_storage)
qed

subsection \<open>The rate window\<close>

text \<open>
  The rate window is a local of \<open>run\<close> that no mode change resets: bytes counted before the
  receiver is reset still make the station ready after it.
\<close>

lemma rate_window_survives_reset:
  assumes "bs_mode s = Transmit" "\<not> bs_raw s" "bs_rate_bytes s = 1000" "bs_rate_started s = 0"
  shows "bs_rate_ready (measure_rate 1000000 (reset_um980 env now s))"
proof -
  have "bs_rate_bytes (reset_um980 env now s) = 1000" "bs_rate_started (reset_um980 env now s) = 0"
    using assms by (simp_all add: reset_um980_def Let_def reset_rtcm_state_def reset_parser_def
        configure_receiver_base_def apply_stream_state_def write_stream_state_def)
  then show ?thesis by (simp add: measure_rate_def Let_def kMinOutboundRtcmBps_def apply_fields)
qed

subsection \<open>Concrete runs\<close>

text \<open>A station on an empty flash, a UART that takes everything, and queues held in lists.\<close>

definition demo_env :: "(string \<Rightarrow> nvs_value option, string, u8 list list, base_action list) base_env" where
  "demo_env = \<lparr>be_nvs = ram_nvs, be_uart = wire, be_packets = list_queue 12, be_actions = list_queue 4,
     be_rinex = \<lparr>re_can_open = \<lambda>_. True, re_can_seek = \<lambda>_ _. True, re_cast = \<lambda>_ _. 0\<rparr>\<rparr>"

definition demo_grants :: "(u8 list list, base_action list) start_grants" where
  "demo_grants = \<lparr>sg_actions = Some [], sg_rtk2go = (Some [], True), sg_onocoy = (Some [], True),
     sg_rtkdata = (Some [], True), sg_caster = (Some [], True), sg_task = True\<rparr>"

definition demo_station :: "(string \<Rightarrow> nvs_value option, string, u8 list list, base_action list) base_station" where
  "demo_station = base_station_init ram_storage \<lparr>um_uart = [], um_waited_ms = 0\<rparr>"

lemma demo_start:
  obtains s where "base_start demo_env ram_wan demo_grants demo_station ([], []) = (ESP_OK, s, [], [])"
    "bs_mode s = Survey"
  by (simp add: base_start_def demo_env_def demo_grants_def demo_station_def base_station_init_def Let_def
      start_client_def np_start_def lc_start_def)

lemma actions_served_in_order_witness:
  "drain_actions demo_env 5 (demo_station\<lparr>bs_actions := Some [ActStopRaw, ActStartRaw]\<rparr>) =
     Some (demo_station\<lparr>bs_actions := Some []\<rparr>)"
proof -
  have laws: "queue_laws 4 (be_actions demo_env) (\<lambda>q. q)" by (simp add: demo_env_def list_queue_laws)
  have q: "bs_actions (demo_station\<lparr>bs_actions := Some [ActStopRaw, ActStartRaw]\<rparr>) = Some [ActStopRaw, ActStartRaw]"
    by simp
  show ?thesis using actions_served_in_order [OF laws q, of 5]
    by (simp add: handle_action_def exit_raw_collection_def enter_raw_collection_def demo_station_def base_station_init_def)
qed


text \<open>A station whose flash holds a position enters raw collection.\<close>

definition fixed_flash :: "(string \<Rightarrow> nvs_value option) storage" where
  "fixed_flash = \<lparr>st_nvs = [''pos_valid'' \<mapsto> NvU8 1], st_open = True\<rparr>"

lemma fixed_start:
  obtains s where "base_start demo_env ram_wan demo_grants (base_station_init fixed_flash \<lparr>um_uart = [], um_waited_ms = 0\<rparr>)
      ([], []) = (ESP_OK, s, [], [])"
    "bp_valid (load_position (be_nvs demo_env) (bs_storage s))"
proof -
  let ?s0 = "base_station_init fixed_flash \<lparr>um_uart = [], um_waited_ms = 0\<rparr> :: (string \<Rightarrow> nvs_value option, string, u8 list list, base_action list) base_station"
  obtain s where s: "base_start demo_env ram_wan demo_grants ?s0 ([], []) = (ESP_OK, s, [], [])"
    by (simp add: base_start_def demo_env_def demo_grants_def base_station_init_def Let_def
        start_client_def np_start_def lc_start_def)
  have "bs_storage s = fixed_flash"
    using base_start_gate(6) [OF s fresh_gates(1,2)] by (simp add: base_station_init_def)
  then show thesis
    using that [OF s] by (simp add: load_position_def get_bool_def fixed_flash_def demo_env_def ram_nvs_def)
qed


lemma bytes_become_corrections_witness:
  "let f = rtcm_encode [0x3E, 0xD0];
     t = foldl (feed_data_byte demo_env) demo_station (map (Pair 3) ([1, 2] @ f @ [0x0A] @ f)) in
   mailbox (bs_corrections t) = [rtcm_message_number f \<mapsto> (f, {})] \<and> bs_rtcm_total t = 16 \<and> bs_has_rtcm t"
proof -
  let ?f = "rtcm_encode [0x3E, 0xD0]" and ?msgs = "[([1, 2], [0x3E, 0xD0]), ([0x0A], [0x3E, 0xD0])] :: (u8 list \<times> u8 list) list"
  have init: "rtcm_parser_inv (bs_parser demo_station)" "rtcm_held (bs_parser demo_station) = []"
    "corrections_inv (bs_corrections demo_station)" "mailbox (bs_corrections demo_station) = Map.empty"
    "bs_rtcm_total demo_station = 0"
    by (simp_all add: demo_station_def base_station_init_def)
  have "card (dom (mailbox (bs_corrections demo_station)) \<union> rtcm_message_number ` set [?f, ?f]) \<le> kMaxCorrectionSlots"
    by (simp add: init kMaxCorrectionSlots_def)
  from bytes_become_corrections [OF init(1-3) _ _ this, of ?msgs demo_env 3]
  show ?thesis by (simp add: Let_def init latest_def)
qed

text \<open>The same station on flash with a write buffer.\<close>

definition flash_env ::
  "((string \<Rightarrow> nvs_value option) \<times> (string \<Rightarrow> nvs_value option), string, u8 list list, base_action list) base_env" where
  "flash_env = \<lparr>be_nvs = buffered_nvs, be_uart = wire, be_packets = list_queue 12, be_actions = list_queue 4,
     be_rinex = \<lparr>re_can_open = \<lambda>_. True, re_can_seek = \<lambda>_ _. True, re_cast = \<lambda>_ _. 0\<rparr>\<rparr>"

definition flash_station ::
  "((string \<Rightarrow> nvs_value option) \<times> (string \<Rightarrow> nvs_value option), string, u8 list list, base_action list) base_station" where
  "flash_station = base_station_init buffered_storage \<lparr>um_uart = [], um_waited_ms = 0\<rparr>"

lemma mode_survives_reboot_witness:
  "let n = st_nvs (bs_storage (handle_action flash_env 5 (ActPosition 1 2 3) flash_station));
     r = flash_station\<lparr>bs_storage := \<lparr>st_nvs = (snd n, snd n), st_open = True\<rparr>\<rparr> in
   bs_mode (run_begin flash_env 6 r) = Transmit"
proof -
  let ?n = "st_nvs (bs_storage (handle_action flash_env 5 (ActPosition 1 2 3) flash_station))"
  let ?r = "flash_station\<lparr>bs_storage := \<lparr>st_nvs = (snd ?n, snd ?n), st_open = True\<rparr>\<rparr>"
  have laws: "nvs_laws (be_nvs flash_env) fst"
    "restart_laws (be_nvs flash_env) fst (\<lambda>n. {k. fst n k \<noteq> snd n k}) (\<lambda>n. (snd n, snd n))"
    by (simp_all add: flash_env_def buffered_nvs_laws buffered_restart_laws)
  have op: "storage_open (be_nvs flash_env) \<lparr>st_nvs = (snd ?n, snd ?n), st_open = False\<rparr> = (ESP_OK, bs_storage ?r)"
    by (simp add: storage_open_def flash_env_def buffered_nvs_def)
  have "fst (save_position (be_nvs flash_env) 1 2 3 (bs_storage flash_station)) = ESP_OK"
    by (simp add: flash_env_def flash_station_def base_station_init_def save_position_def buffered_storage_def
        ram_run buffered_nvs_def)
  then show ?thesis
    using mode_survives_reboot [OF laws disjI1 op, of 1 2 3 6] by (simp add: Let_def modes_storage)
qed

end
