(* ===== verification/WebText.thy ===== *)
theory WebText
  imports CText SdManager
begin

text \<open>
  The text functions of \<open>src/main/web_server.cpp\<close>: what the administration server takes out of
  request bodies, query strings and cookies, and what it puts into pages and JSON. The lemmas
  show that the decoders read back what browsers encode, that the array parser bounds what it
  accepts, and that escaped text cannot leave its place in the page.

  \<^item> \<open>std::string::find\<close> of a text is \<open>find_after\<close>, which gives what follows the first place.
  \<^item> Names of fields, cookies and keys are the constants of the source: without ampersands,
    semicolons or equal signs.
\<close>

subsection \<open>Searching\<close>

fun find_after :: "string \<Rightarrow> string \<Rightarrow> string option" where
  "find_after needle s =
     (if starts_with s needle then Some (drop (length needle) s)
      else case s of [] \<Rightarrow> None | c # cs \<Rightarrow> find_after needle cs)"

declare find_after.simps [simp del]

lemma find_after_here: "find_after needle (needle @ s) = Some s"
  by (subst find_after.simps) simp

lemma find_after_skip: "\<not> starts_with (c # cs) needle \<Longrightarrow> find_after needle (c # cs) = find_after needle cs"
  by (subst find_after.simps) simp

text \<open>\<open>strtol(s, &end, 16)\<close> of a text of a few characters: the value, and what \<open>end\<close> points to.\<close>

definition strtol16 :: "string \<Rightarrow> int \<times> string" where
  "strtol16 s =
     (let (neg, t) = scan_sign (skip_space s);
          u = (if starts_with (map lower t) ''0x'' \<and> 2 < length t \<and> is_digit_of 16 (t ! 2) then drop 2 t else t);
          ds = takeWhile (is_digit_of 16) u; n = int (digits_value 16 ds)
      in if ds = [] then (0, s) else (if neg then - n else n, dropWhile (is_digit_of 16) u))"

subsection \<open>Requests\<close>

text \<open>\<open>httpd_req_get_hdr_value_str\<close> into a vector of the header's length; \<open>None\<close>: no such header.\<close>

definition header_value :: "string option \<Rightarrow> nat \<Rightarrow> string" where
  "header_value h max_len =
     (case h of None \<Rightarrow> [] | Some v \<Rightarrow> if v = [] \<or> max_len < length v then [] else c_str v)"

definition kQuote :: char where "kQuote = CHR 0x22"
definition kBackslash :: char where "kBackslash = CHR 0x5C"

definition cookie_value :: "string option \<Rightarrow> string \<Rightarrow> string" where
  "cookie_value cookie_header name =
     (let wanted = name @ ''='';
          parts = map (dropWhile (\<lambda>c. c = CHR '' '')) (split_on (CHR '';'') (header_value cookie_header 1024))
      in case find (\<lambda>p. starts_with p wanted) parts of
           None \<Rightarrow> [] | Some p \<Rightarrow> drop (length wanted) p)"

definition accepts_html :: "string option \<Rightarrow> bool" where
  "accepts_html accept_header = (find_after ''text/html'' (header_value accept_header 256) \<noteq> None)"

definition safe_local_path :: "string \<Rightarrow> bool" where
  "safe_local_path path =
     (path \<noteq> [] \<and> hd path = slash \<and> find_after ''://'' path = None \<and>
      kBackslash \<notin> set path \<and> CHR 0x0D \<notin> set path \<and> CHR 0x0A \<notin> set path)"

function url_decode :: "string \<Rightarrow> string" where
  "url_decode [] = []"
| "url_decode (c # cs) =
     (if c = CHR ''+'' then CHR '' '' # url_decode cs
      else if c = CHR ''%'' \<and> 2 \<le> length cs then
        (let (decoded, rest) = strtol16 (c_str (take 2 cs)) in
         if rest = [] then char_of decoded # url_decode (drop 2 cs) else url_decode cs)
      else c # url_decode cs)"
  by pat_completeness auto
termination by (relation "measure length") auto

definition form_value :: "string \<Rightarrow> string \<Rightarrow> string" where
  "form_value body name =
     (case find (\<lambda>p. starts_with p (name @ ''='')) (split_on (CHR ''&'') body) of
        None \<Rightarrow> [] | Some p \<Rightarrow> url_decode (drop (length name + 1) p))"

definition query_param :: "string option \<Rightarrow> string \<Rightarrow> string" where
  "query_param query key =
     (case query of None \<Rightarrow> []
      | Some q \<Rightarrow> if q = [] then []
          else case find_after (key @ ''='') q of
                 None \<Rightarrow> [] | Some v \<Rightarrow> url_decode (takeWhile (\<lambda>c. c \<noteq> CHR ''&'') v))"

text \<open>
  What \<open>httpd_req_recv\<close> returns, call by call (nothing more: the connection is gone), and
  \<open>read_body\<close> with the bytes still missing and the time-outs in a row.
\<close>

datatype recv_turn = RecvTimeout | RecvError | RecvData string

fun read_body_loop :: "recv_turn list \<Rightarrow> nat \<Rightarrow> nat \<Rightarrow> string \<Rightarrow> string" where
  "read_body_loop [] missing timeouts body = (if missing = 0 then body else [])"
| "read_body_loop (r # rs) missing timeouts body =
     (if missing = 0 then body
      else case r of
        RecvTimeout \<Rightarrow> if timeouts < 20 then read_body_loop rs missing (timeouts + 1) body else []
      | RecvError \<Rightarrow> []
      | RecvData d \<Rightarrow>
          if d = [] then []
          else let d = take missing d in read_body_loop rs (missing - length d) 0 (body @ d))"

definition read_body :: "nat \<Rightarrow> recv_turn list \<Rightarrow> nat \<Rightarrow> string" where
  "read_body content_len rs max_length =
     (if content_len = 0 \<or> max_length < content_len then [] else read_body_loop rs content_len 0 [])"

subsection \<open>JSON\<close>

definition json_field :: "string \<Rightarrow> string \<Rightarrow> string" where
  "json_field body key =
     (case find_after (kQuote # key @ [kQuote, CHR '':'', kQuote]) body of
        None \<Rightarrow> []
      | Some v \<Rightarrow> if kQuote \<in> set v then takeWhile (\<lambda>c. c \<noteq> kQuote) v else [])"

definition kMaxElems :: nat where "kMaxElems = 256"
definition kMaxLen :: nat where "kMaxLen = 256"

definition control :: "char \<Rightarrow> bool" where "control c = ((of_char c :: nat) < 0x20)"

text \<open>The character an escape stands for, and the text after it; \<open>None\<close> rejects.\<close>

definition json_unescape :: "char \<Rightarrow> string \<Rightarrow> (char \<times> string) option" where
  "json_unescape e r =
     (if e = kQuote \<or> e = kBackslash \<or> e = slash then Some (e, r)
      else if e = CHR ''b'' then Some (CHR 0x08, r)
      else if e = CHR ''f'' then Some (CHR 0x0C, r)
      else if e = CHR ''n'' then Some (CHR 0x0A, r)
      else if e = CHR ''r'' then Some (CHR 0x0D, r)
      else if e = CHR ''t'' then Some (CHR 0x09, r)
      else if e = CHR ''u'' then
        (if length r < 4 then None
         else let hx = take 4 r; (cp, rest) = strtol16 (c_str hx)
              in if c_str hx \<noteq> hx \<or> rest \<noteq> [] \<or> cp < 0 \<or> 0x7F < cp then None
                 else Some (char_of cp, drop 4 r))
      else None)"

lemma json_unescape_length: "json_unescape e r = Some (c, r') \<Longrightarrow> length r' \<le> length r"
  by (auto simp: json_unescape_def Let_def split: if_splits prod.splits)

text \<open>One element after its opening quote; \<open>None\<close> rejects.\<close>

function scan_elem :: "string \<Rightarrow> string \<Rightarrow> (string \<times> string) option" where
  "scan_elem [] elem = None"
| "scan_elem (c # r) elem =
     (if c = kQuote then Some (elem, r)
      else case (if c = kBackslash
                 then (case r of [] \<Rightarrow> None | e # r' \<Rightarrow> json_unescape e r')
                 else if control c then None else Some (c, r)) of
             None \<Rightarrow> None
           | Some (x, r') \<Rightarrow>
               if kMaxLen < length (elem @ [x]) then None else scan_elem r' (elem @ [x]))"
  by pat_completeness auto
termination
  by (relation "measure (\<lambda>(r, _). length r)")
    (auto split: if_splits list.splits dest: json_unescape_length)

lemma scan_elem_length: "scan_elem r elem = Some (x, r') \<Longrightarrow> length r' < length r"
proof (induction r elem rule: scan_elem.induct)
  case (2 c r elem)
  show ?case
  proof (cases "c = kQuote")
    case True
    then show ?thesis using 2(2) by simp
  next
    case False
    then obtain y s where s: "(if c = kBackslash then (case r of [] \<Rightarrow> None | e # r' \<Rightarrow> json_unescape e r')
        else if control c then None else Some (c, r)) = Some (y, s)" "\<not> kMaxLen < length (elem @ [y])"
      "scan_elem s (elem @ [y]) = Some (x, r')"
      using 2(2) by (auto split: option.splits if_splits)
    have "length s \<le> length r" using s(1) by (auto split: if_splits list.splits dest: json_unescape_length)
    moreover have "length r' < length s" by (rule 2(1) [OF False s(1) refl s(2) s(3)])
    ultimately show ?thesis by simp
  qed
qed simp

definition json_separator :: "char \<Rightarrow> bool" where
  "json_separator c = (c = CHR '' '' \<or> c = CHR 0x09 \<or> c = CHR 0x0A \<or> c = CHR 0x0D \<or> c = CHR '','')"

text \<open>The elements from inside the bracket on.\<close>

function scan_array :: "string \<Rightarrow> string list \<Rightarrow> string list option" where
  "scan_array s out =
     (if s = [] then Some out
      else let t = dropWhile json_separator s in
        if t = [] then None
        else if hd t = CHR '']'' then Some out
        else if hd t \<noteq> kQuote then None
        else case scan_elem (tl t) [] of
               None \<Rightarrow> None
             | Some (elem, r) \<Rightarrow>
                 if kMaxElems < length (out @ [elem]) then None else scan_array r (out @ [elem]))"
  by pat_completeness auto
termination
proof (relation "measure (\<lambda>(s, _). length s)", goal_cases)
  case (2 s out t er elem r)
  have "scan_elem (tl t) [] = Some (elem, r)" using 2 by simp
  then have "length r < length (tl t)" by (rule scan_elem_length)
  also have "\<dots> \<le> length s" using 2(2) length_dropWhile_le [of json_separator s] by simp
  finally show ?case by simp
qed simp

declare scan_array.simps [simp del]

text \<open>The elements, and whether the body was rejected.\<close>

definition json_string_array :: "string \<Rightarrow> string \<Rightarrow> string list \<times> bool" where
  "json_string_array body key =
     (case find_after (kQuote # key @ [kQuote]) body of
        None \<Rightarrow> ([], False)
      | Some r \<Rightarrow>
          (case find_after ''['' r of
             None \<Rightarrow> ([], True)
           | Some s \<Rightarrow> (case scan_array s [] of None \<Rightarrow> ([], True) | Some out \<Rightarrow> (out, False))))"

subsection \<open>Escaping\<close>

definition html_char :: "char \<Rightarrow> string" where
  "html_char c =
     (if c = CHR ''&'' then ''&amp;'' else if c = CHR ''<'' then ''&lt;'' else if c = CHR ''>'' then ''&gt;''
      else if c = kQuote then ''&quot;'' else if c = CHR 0x27 then ''&#39;'' else [c])"

definition html_escape :: "string \<Rightarrow> string" where
  "html_escape value = concat (map html_char value)"

definition json_char :: "char \<Rightarrow> string" where
  "json_char c =
     (if c = kQuote then [kBackslash, kQuote] else if c = kBackslash then [kBackslash, kBackslash]
      else if c = CHR 0x08 then [kBackslash, CHR ''b''] else if c = CHR 0x0C then [kBackslash, CHR ''f'']
      else if c = CHR 0x0A then [kBackslash, CHR ''n''] else if c = CHR 0x0D then [kBackslash, CHR ''r'']
      else if c = CHR 0x09 then [kBackslash, CHR ''t'']
      else if control c then [] else [c])"

definition web_json_escape :: "string \<Rightarrow> string" where
  "web_json_escape value = concat (map json_char value)"

definition json_string_literal :: "string \<Rightarrow> string" where
  "json_string_literal text = kQuote # web_json_escape (c_str text) @ [kQuote]"

subsection \<open>Escapes decode\<close>

definition hex_char :: "nat \<Rightarrow> char" where
  "hex_char d = (if d < 10 then char_of (48 + d) else char_of (55 + d))"

definition percent :: "char \<Rightarrow> string" where
  "percent c = [CHR ''%'', hex_char ((of_char c :: nat) div 16), hex_char ((of_char c :: nat) mod 16)]"

text \<open>What a browser sends for a form field: letters, digits and a few marks, plus, percent.\<close>

definition unreserved :: "char \<Rightarrow> bool" where
  "unreserved c = (let n = (of_char c :: nat) in
     (48 \<le> n \<and> n \<le> 57) \<or> (65 \<le> n \<and> n \<le> 90) \<or> (97 \<le> n \<and> n \<le> 122) \<or> n = 42 \<or> n = 45 \<or> n = 46 \<or> n = 95)"

definition form_encode :: "string \<Rightarrow> string" where
  "form_encode s = concat (map (\<lambda>c. if unreserved c then [c] else if c = CHR '' '' then ''+'' else percent c) s)"

lemma hex_char_facts:
  assumes "d < 16"
  shows "digit_value (hex_char d) = Some d" "\<not> is_space (hex_char d)" "hex_char d \<noteq> CHR ''-''"
    "hex_char d \<noteq> CHR ''+''" "hex_char d \<noteq> CHR 0x00" "hex_char d \<noteq> CHR ''&''"
proof -
  have n: "(of_char (hex_char d) :: nat) = (if d < 10 then 48 + d else 55 + d)"
    using assms by (simp add: hex_char_def)
  have other: "hex_char d \<noteq> c" if "(of_char c :: nat) < 48" for c
    using n that by (auto split: if_splits)
  show "digit_value (hex_char d) = Some d" using assms by (simp add: digit_value_def n)
  show "\<not> is_space (hex_char d)" using assms by (auto simp: is_space_def n other split: if_splits)
  show "hex_char d \<noteq> CHR ''-''" "hex_char d \<noteq> CHR ''+''" "hex_char d \<noteq> CHR 0x00" "hex_char d \<noteq> CHR ''&''"
    by (rule other, simp)+
qed

lemma strtol16_pair:
  assumes "a < 16" "b < 16"
  shows "strtol16 [hex_char a, hex_char b] = (int (a * 16 + b), [])"
proof -
  define x y where xy: "x = hex_char a" "y = hex_char b"
  have v: "digit_value x = Some a" "digit_value y = Some b" "\<not> is_space x" "x \<noteq> CHR ''-''" "x \<noteq> CHR ''+''"
    using hex_char_facts [OF assms(1)] hex_char_facts(1) [OF assms(2)] by (simp_all add: xy)
  then have "is_digit_of 16 x" "is_digit_of 16 y" "skip_space [x, y] = [x, y]" "scan_sign [x, y] = (False, [x, y])"
    using assms by (simp_all add: is_digit_of_def skip_space_def scan_sign_def)
  moreover have "digits_value 16 [x, y] = a * 16 + b" using v by (simp add: digits_value_def)
  ultimately show ?thesis unfolding xy [symmetric] by (simp add: strtol16_def)
qed

lemma nibbles: "(of_char c :: nat) div 16 < 16" "(of_char c :: nat) mod 16 < 16"
proof -
  have "(of_char c :: nat) < 256" by simp
  then show "(of_char c :: nat) div 16 < 16" by linarith
qed simp

lemma decode_percent: "url_decode (percent c @ s) = c # url_decode s"
proof -
  note n = nibbles [of c]
  have "c_str [hex_char ((of_char c :: nat) div 16), hex_char ((of_char c :: nat) mod 16)] =
      [hex_char ((of_char c :: nat) div 16), hex_char ((of_char c :: nat) mod 16)]"
    using hex_char_facts(5) [OF n(1)] hex_char_facts(5) [OF n(2)] by simp
  moreover have "char_of (int ((of_char c :: nat) div 16 * 16 + (of_char c :: nat) mod 16)) = c"
    by (simp only: div_mult_mod_eq) simp
  ultimately show ?thesis by (simp add: percent_def strtol16_pair [OF n])
qed

lemma unreserved_plain: "unreserved c \<Longrightarrow> c \<noteq> CHR ''+'' \<and> c \<noteq> CHR ''%'' \<and> c \<noteq> CHR ''&'' \<and> c \<noteq> CHR ''=''"
  by (auto simp: unreserved_def)

lemma form_encode_simps:
  "form_encode [] = []"
  "form_encode (c # s) = (if unreserved c then [c] else if c = CHR '' '' then ''+'' else percent c) @ form_encode s"
  by (simp_all add: form_encode_def)

lemma url_decode_encoded: "url_decode (form_encode s) = s"
proof (induction s)
  case (Cons c s)
  then show ?case
    using unreserved_plain [of c] by (auto simp: form_encode_simps decode_percent)
qed (simp add: form_encode_simps)

lemma form_encode_no_amp: "CHR ''&'' \<notin> set (form_encode s)"
proof (induction s)
  case (Cons c s)
  have "CHR ''&'' \<notin> set (percent c)" using hex_char_facts(6) [OF nibbles(1)] hex_char_facts(6) [OF nibbles(2)]
    by (auto simp: percent_def) metis+
  then show ?case using Cons unreserved_plain [of c] by (auto simp: form_encode_simps)
qed (simp add: form_encode_simps)

text \<open>A form body: the pairs joined by ampersands.\<close>

definition field_name :: "string \<Rightarrow> bool" where
  "field_name k \<longleftrightarrow> CHR ''&'' \<notin> set k \<and> CHR ''='' \<notin> set k"

fun form_body :: "(string \<times> string) list \<Rightarrow> string" where
  "form_body [] = []"
| "form_body [(k, v)] = k @ ''='' @ form_encode v"
| "form_body ((k, v) # kvs) = k @ ''='' @ form_encode v @ ''&'' @ form_body kvs"

lemma pair_matches:
  assumes "field_name k" "field_name n"
  shows "starts_with (k @ ''='' @ v) (n @ ''='') \<longleftrightarrow> k = n"
proof
  assume "starts_with (k @ ''='' @ v) (n @ ''='')"
  then obtain s where s: "k @ ''='' @ v = (n @ ''='') @ s" unfolding starts_with_iff by blast
  have "takeWhile (\<lambda>c. c \<noteq> CHR ''='') (xs @ CHR ''='' # ys) = xs" if "CHR ''='' \<notin> set xs" for xs ys :: string
    using that by (induction xs) auto
  then have "takeWhile (\<lambda>c. c \<noteq> CHR ''='') (k @ ''='' @ v) = k" "takeWhile (\<lambda>c. c \<noteq> CHR ''='') ((n @ ''='') @ s) = n"
    using assms by (simp_all add: field_name_def)
  then show "k = n" using s by simp
next
  assume "k = n"
  then show "starts_with (k @ ''='' @ v) (n @ ''='')" using starts_with_append [of "n @ ''=''" v] by simp
qed

lemma split_form_body:
  "\<forall>(k, v) \<in> set kvs. field_name k \<Longrightarrow> kvs \<noteq> [] \<Longrightarrow>
   split_on (CHR ''&'') (form_body kvs) = map (\<lambda>(k, v). k @ ''='' @ form_encode v) kvs"
proof (induction kvs rule: form_body.induct)
  case (2 k v)
  have "CHR ''&'' \<notin> set (k @ ''='' @ form_encode v)" using 2 form_encode_no_amp by (auto simp: field_name_def)
  then show ?case by (simp add: split_on_no)
next
  case (3 k v kv kvs)
  have "CHR ''&'' \<notin> set (k @ ''='' @ form_encode v)" using 3(2) form_encode_no_amp by (auto simp: field_name_def)
  then have "split_on (CHR ''&'') ((k @ ''='' @ form_encode v) @ CHR ''&'' # form_body (kv # kvs)) =
      (k @ ''='' @ form_encode v) # split_on (CHR ''&'') (form_body (kv # kvs))"
    unfolding split_on_append by (simp add: split_on_no)
  then show ?case using 3 by simp
qed simp

lemma find_pair:
  "\<forall>(k, v) \<in> set kvs. field_name k \<Longrightarrow> field_name n \<Longrightarrow>
   find (\<lambda>p. starts_with p (n @ ''='')) (map (\<lambda>(k, v). k @ ''='' @ form_encode v) kvs) =
   map_option (\<lambda>v. n @ ''='' @ form_encode v) (map_of kvs n)"
proof (induction kvs)
  case (Cons kv kvs)
  obtain k v where kv: "kv = (k, v)" by (rule prod.exhaust)
  have "starts_with (k @ ''='' @ form_encode v) (n @ ''='') \<longleftrightarrow> k = n"
    using Cons.prems kv by (intro pair_matches) auto
  then show ?case using Cons kv by simp
qed simp

lemma form_value_body:
  assumes "\<forall>(k, v) \<in> set kvs. field_name k" and "field_name n"
  shows "form_value (form_body kvs) n = (case map_of kvs n of Some v \<Rightarrow> v | None \<Rightarrow> [])"
proof (cases "kvs = []")
  case True
  have "\<not> starts_with [] (n @ ''='')" by (simp add: starts_with_def)
  then show ?thesis using True by (simp add: form_value_def)
next
  case False
  have "drop (length n + 1) (n @ ''='' @ s) = s" for s by simp
  then show ?thesis
    using split_form_body [OF assms(1) False] find_pair [OF assms]
    by (simp add: form_value_def url_decode_encoded split: option.splits)
qed

text \<open>
  C38. The form parser reads back what a browser submits: from the encoded body of any fields
  whose names have no ampersand or equal sign, \<open>form_value\<close> gives for each name the first
  submitted value, character by character, and the empty text for a name that was not submitted.
\<close>

theorem form_fields_read_back:
  assumes "\<forall>(k, v) \<in> set kvs. field_name k" and "field_name n"
  shows "form_value (form_body kvs) n = (case map_of kvs n of Some v \<Rightarrow> v | None \<Rightarrow> [])"
  by (rule form_value_body [OF assms])

subsection \<open>The array of paths\<close>

definition json_plain :: "char \<Rightarrow> bool" where
  "json_plain c \<longleftrightarrow> \<not> control c \<or> c \<in> {CHR 0x08, CHR 0x0C, CHR 0x0A, CHR 0x0D, CHR 0x09}"

definition json_text :: "string \<Rightarrow> string" where
  "json_text p = kQuote # web_json_escape p @ [kQuote]"

fun json_list :: "string list \<Rightarrow> string" where
  "json_list [] = []"
| "json_list [p] = json_text p"
| "json_list (p # ps) = json_text p @ '','' @ json_list ps"

lemma quote_facts: "kQuote \<noteq> kBackslash" "kBackslash \<noteq> kQuote" "\<not> control kQuote" "\<not> control kBackslash"
  by (simp_all add: kQuote_def kBackslash_def control_def)

lemma unescape_short:
  "json_unescape kQuote r = Some (kQuote, r)" "json_unescape kBackslash r = Some (kBackslash, r)"
  "json_unescape (CHR ''b'') r = Some (CHR 0x08, r)" "json_unescape (CHR ''f'') r = Some (CHR 0x0C, r)"
  "json_unescape (CHR ''n'') r = Some (CHR 0x0A, r)" "json_unescape (CHR ''r'') r = Some (CHR 0x0D, r)"
  "json_unescape (CHR ''t'') r = Some (CHR 0x09, r)"
  by (simp_all add: json_unescape_def kQuote_def kBackslash_def slash_def)

lemma json_char_short:
  "json_char kQuote = [kBackslash, kQuote]" "json_char kBackslash = [kBackslash, kBackslash]"
  "json_char (CHR 0x08) = [kBackslash, CHR ''b'']" "json_char (CHR 0x0C) = [kBackslash, CHR ''f'']"
  "json_char (CHR 0x0A) = [kBackslash, CHR ''n'']" "json_char (CHR 0x0D) = [kBackslash, CHR ''r'']"
  "json_char (CHR 0x09) = [kBackslash, CHR ''t'']"
  by (simp_all add: json_char_def kQuote_def kBackslash_def)

lemma json_char_special:
  "c \<in> {kQuote, kBackslash, CHR 0x08, CHR 0x0C, CHR 0x0A, CHR 0x0D, CHR 0x09} \<Longrightarrow>
   \<exists>e. json_char c = [kBackslash, e] \<and> (\<forall>r. json_unescape e r = Some (c, r))"
  by (elim insertE emptyE; hypsubst; unfold json_char_short; simp add: unescape_short)

lemma json_char_cases:
  assumes "json_plain c"
  obtains e where "json_char c = [kBackslash, e]" "\<And>r. json_unescape e r = Some (c, r)"
  | "json_char c = [c]" "c \<noteq> kQuote" "c \<noteq> kBackslash" "\<not> control c"
proof (cases "c \<in> {kQuote, kBackslash, CHR 0x08, CHR 0x0C, CHR 0x0A, CHR 0x0D, CHR 0x09}")
  case True
  from json_char_special [OF this] show ?thesis using that(1) by (elim exE conjE) simp
next
  case False
  then have "json_char c = [c]" "c \<noteq> kQuote" "c \<noteq> kBackslash" "\<not> control c"
    using assms by (simp_all add: json_char_def json_plain_def)
  then show ?thesis by (rule that(2))
qed

lemma scan_char:
  assumes "json_plain c" "length elem < kMaxLen"
  shows "scan_elem (json_char c @ r) elem = scan_elem r (elem @ [c])"
  using assms(1)
proof (cases rule: json_char_cases)
  case (1 e)
  then show ?thesis using assms(2) quote_facts by simp
next
  case 2
  then show ?thesis using assms(2) by simp
qed

lemma scan_text:
  "\<forall>c \<in> set p. json_plain c \<Longrightarrow> length elem + length p \<le> kMaxLen \<Longrightarrow>
   scan_elem (web_json_escape p @ kQuote # r) elem = Some (elem @ p, r)"
proof (induction p arbitrary: elem)
  case (Cons c p)
  then show ?case using scan_char [of c elem "web_json_escape p @ kQuote # r"]
    by (simp add: web_json_escape_def)
qed (simp add: web_json_escape_def)

lemma quote_no_separator: "\<not> json_separator kQuote" "kQuote \<noteq> CHR '']''"
  by (simp_all add: json_separator_def kQuote_def)

lemma scan_list:
  assumes "\<forall>p \<in> set ps. (\<forall>c \<in> set p. json_plain c) \<and> length p \<le> kMaxLen"
    and "length out + length ps \<le> kMaxElems"
  shows "scan_array (json_list ps @ '']'' @ r) out = Some (out @ ps) \<and>
    (ps \<noteq> [] \<longrightarrow> scan_array ('','' @ json_list ps @ '']'' @ r) out = Some (out @ ps))"
  using assms
proof (induction ps arbitrary: out rule: json_list.induct)
  case 1
  show ?case by (subst scan_array.simps) (simp add: json_separator_def)
next
  case (2 p)
  have e: "scan_elem (web_json_escape p @ kQuote # '']'' @ r) [] = Some (p, '']'' @ r)"
    using scan_text [of p "[]"] 2 by simp
  have "scan_array ('']'' @ r) (out @ [p]) = Some (out @ [p])"
    by (subst scan_array.simps) (simp add: json_separator_def)
  then show ?case using e 2 quote_no_separator
    by (auto simp: scan_array.simps [of "kQuote # _"] scan_array.simps [of "CHR '','' # _"] json_text_def
        json_separator_def [of "CHR '',''"])
next
  case (3 p q ps)
  let ?tail = "'','' @ json_list (q # ps) @ '']'' @ r"
  have e: "scan_elem (web_json_escape p @ kQuote # ?tail) [] = Some (p, ?tail)"
    using scan_text [of p "[]"] 3 by simp
  have "scan_array ?tail (out @ [p]) = Some ((out @ [p]) @ q # ps)" using 3(1) [of "out @ [p]"] 3(2,3) by simp
  then show ?case using e 3(3) quote_no_separator
    by (auto simp: scan_array.simps [of "kQuote # _"] scan_array.simps [of "CHR '','' # _"] json_text_def
        json_separator_def [of "CHR '',''"])
qed

definition paths_body :: "string list \<Rightarrow> string" where
  "paths_body ps = ''{'' @ [kQuote] @ ''paths'' @ [kQuote] @ '':['' @ json_list ps @ '']}''"

text \<open>What the parser accepts, from any body, is bounded.\<close>

lemma scan_elem_bound: "scan_elem r elem = Some (x, r') \<Longrightarrow> length elem \<le> kMaxLen \<Longrightarrow> length x \<le> kMaxLen"
proof (induction r elem rule: scan_elem.induct)
  case (2 c r elem)
  show ?case
  proof (cases "c = kQuote")
    case True
    then show ?thesis using 2(2,3) by simp
  next
    case False
    then obtain y s where s: "(if c = kBackslash then (case r of [] \<Rightarrow> None | e # r' \<Rightarrow> json_unescape e r')
        else if control c then None else Some (c, r)) = Some (y, s)" "\<not> kMaxLen < length (elem @ [y])"
      "scan_elem s (elem @ [y]) = Some (x, r')"
      using 2(2) by (auto split: option.splits if_splits)
    then show ?thesis using 2(1) [OF False s(1) refl s(2) s(3)] by simp
  qed
qed simp

lemma scan_array_bound:
  "scan_array s out = Some ps \<Longrightarrow> length out \<le> kMaxElems \<and> (\<forall>p \<in> set out. length p \<le> kMaxLen) \<Longrightarrow>
   length ps \<le> kMaxElems \<and> (\<forall>p \<in> set ps. length p \<le> kMaxLen)"
proof (induction s out rule: scan_array.induct)
  case (1 s out)
  let ?t = "dropWhile json_separator s"
  show ?case
  proof (cases "s = [] \<or> ?t = [] \<or> hd ?t = CHR '']'' \<or> hd ?t \<noteq> kQuote")
    case True
    then show ?thesis using 1(2,3) by (subst (asm) scan_array.simps) (auto simp: Let_def split: if_splits)
  next
    case False
    obtain e r where er: "scan_elem (tl ?t) [] = Some (e, r)" "\<not> kMaxElems < length (out @ [e])"
      "scan_array r (out @ [e]) = Some ps"
      using 1(2) False by (subst (asm) scan_array.simps) (auto simp: Let_def split: if_splits option.splits)
    have "length e \<le> kMaxLen" by (rule scan_elem_bound [OF er(1)]) simp
    then have "length (out @ [e]) \<le> kMaxElems \<and> (\<forall>p \<in> set (out @ [e]). length p \<le> kMaxLen)"
      using er(2) 1(3) by auto
    from 1(1) [OF _ refl _ _ _ er(1) refl er(2) er(3) this] False show ?thesis by blast
  qed
qed

text \<open>
  The list of paths to delete arrives as it was sent: from the JSON a browser makes of at most
  256 paths of at most 256 characters (any bytes but the control characters without a short
  escape), \<open>json_string_array\<close> gives exactly these paths in order. And whatever the body,
  what it accepts is at most 256 texts of at most 256 characters.
\<close>

theorem path_list_reads_back:
  "(length ps \<le> 256 \<and> (\<forall>p \<in> set ps. length p \<le> 256 \<and> (\<forall>c \<in> set p. json_plain c)) \<longrightarrow>
      json_string_array (paths_body ps) ''paths'' = (ps, False)) \<and>
   length (fst (json_string_array body key)) \<le> 256 \<and>
   (\<forall>p \<in> set (fst (json_string_array body key)). length p \<le> 256)"
proof (intro conjI impI)
  assume ps: "length ps \<le> 256 \<and> (\<forall>p \<in> set ps. length p \<le> 256 \<and> (\<forall>c \<in> set p. json_plain c))"
  let ?n = "kQuote # ''paths'' @ [kQuote]"
  have "\<not> starts_with (paths_body ps) ?n" by (simp add: paths_body_def starts_with_def kQuote_def)
  then have "find_after ?n (paths_body ps) = find_after ?n (?n @ '':['' @ json_list ps @ '']}'')"
    by (subst (asm) paths_body_def, subst paths_body_def) (simp add: find_after_skip)
  also have "\<dots> = Some ('':['' @ json_list ps @ '']}'')" by (rule find_after_here)
  finally have key: "find_after ?n (paths_body ps) = Some ('':['' @ json_list ps @ '']}'')" .
  have "find_after ''['' ('':['' @ json_list ps @ '']}'') = find_after ''['' (''['' @ json_list ps @ '']}'')"
    by (simp add: find_after_skip starts_with_def)
  also have "\<dots> = Some (json_list ps @ '']'' @ ''}'')" by (subst find_after_here) simp
  finally have br: "find_after ''['' ('':['' @ json_list ps @ '']}'') = Some (json_list ps @ '']'' @ ''}'')" .
  have "scan_array (json_list ps @ '']'' @ ''}'') [] = Some ps"
    using scan_list [of ps "[]" "''}''"] ps by (simp add: kMaxLen_def kMaxElems_def)
  then show "json_string_array (paths_body ps) ''paths'' = (ps, False)"
    using key br by (simp add: json_string_array_def)
next
  have "length (fst (json_string_array body key)) \<le> 256 \<and> (\<forall>p \<in> set (fst (json_string_array body key)). length p \<le> 256)"
    using scan_array_bound by (fastforce simp: json_string_array_def kMaxElems_def kMaxLen_def split: option.splits)
  then show "length (fst (json_string_array body key)) \<le> 256"
    "\<forall>p \<in> set (fst (json_string_array body key)). length p \<le> 256" by blast+
qed

lemma path_list_reads_back_witness:
  "json_string_array (paths_body [''/sdcard/a'', ''/sdcard/rawdata/b'']) ''paths'' = ([''/sdcard/a'', ''/sdcard/rawdata/b''], False)"
proof -
  have "length [''/sdcard/a'', ''/sdcard/rawdata/b''] \<le> 256" by simp
  moreover have "\<forall>p \<in> set [''/sdcard/a'', ''/sdcard/rawdata/b'']. length p \<le> 256 \<and> (\<forall>c \<in> set p. json_plain c)"
    by (simp add: json_plain_def control_def)
  ultimately show ?thesis using path_list_reads_back [of "[''/sdcard/a'', ''/sdcard/rawdata/b'']" "[]" "[]"] by blast
qed

lemma form_fields_read_back_witness:
  "form_value (form_body [(''ssid'', ''my net''), (''password'', ''a+b&c'')]) ''password'' = ''a+b&c''"
  using form_fields_read_back [of "[(''ssid'', ''my net''), (''password'', ''a+b&c'')]" "''password''"]
  by (simp add: field_name_def)

text \<open>
  The comment says that malformed escapes are rejected, but \<open>strtol\<close> takes a sign and a
  prefix: these bodies are accepted, as is one that ends without the closing bracket.
\<close>

lemma malformed_escapes_accepted:
  "json_unescape (CHR ''u'') ''+041'' = Some (CHR ''A'', [])" "json_unescape (CHR ''u'') ''0x41'' = Some (CHR ''A'', [])"
  "scan_array (kQuote # ''a'' @ [kQuote]) [] = Some [''a'']"
proof -
  show "json_unescape (CHR ''u'') ''+041'' = Some (CHR ''A'', [])" "json_unescape (CHR ''u'') ''0x41'' = Some (CHR ''A'', [])"
    by code_simp+
  show "scan_array (kQuote # ''a'' @ [kQuote]) [] = Some [''a'']" by code_simp
qed

subsection \<open>Text in a page\<close>

text \<open>What a browser reads for the five entities \<open>html_escape\<close> writes.\<close>

fun html_text :: "nat \<Rightarrow> string \<Rightarrow> string" where
  "html_text 0 s = []"
| "html_text (Suc n) s =
     (if starts_with s ''&amp;'' then CHR ''&'' # html_text n (drop 5 s)
      else if starts_with s ''&lt;'' then CHR ''<'' # html_text n (drop 4 s)
      else if starts_with s ''&gt;'' then CHR ''>'' # html_text n (drop 4 s)
      else if starts_with s ''&quot;'' then kQuote # html_text n (drop 6 s)
      else if starts_with s ''&#39;'' then CHR 0x27 # html_text n (drop 5 s)
      else case s of [] \<Rightarrow> [] | c # cs \<Rightarrow> c # html_text n cs)"

lemma html_char_text:
  "html_text (Suc n) (html_char c @ s) = c # html_text n s"
proof (cases "c \<in> {CHR ''&'', CHR ''<'', CHR ''>'', kQuote, CHR 0x27}")
  case True
  then show ?thesis
    by (elim insertE emptyE; hypsubst) (simp_all add: html_char_def starts_with_def kQuote_def)
next
  case False
  then have "html_char c = [c]" "c \<noteq> CHR ''&''" by (simp_all add: html_char_def)
  then show ?thesis by (simp add: starts_with_def)
qed

lemma html_escape_text: "length s \<le> n \<Longrightarrow> html_text n (html_escape s) = s"
proof (induction s arbitrary: n)
  case Nil
  then show ?case by (cases n) (simp_all add: html_escape_def starts_with_def)
next
  case (Cons c s)
  then obtain m where "n = Suc m" "length s \<le> m" by (cases n) auto
  then show ?case using Cons.IH html_char_text by (simp add: html_escape_def del: html_text.simps)
qed

lemma html_char_safe: "x \<in> set (html_char c) \<Longrightarrow> x \<notin> {CHR ''<'', CHR ''>'', kQuote, CHR 0x27}"
proof (cases "c \<in> {CHR ''&'', CHR ''<'', CHR ''>'', kQuote, CHR 0x27}")
  case True
  then show "x \<in> set (html_char c) \<Longrightarrow> ?thesis"
    by (elim insertE emptyE; hypsubst) (auto simp: html_char_def kQuote_def)
next
  case False
  then have "html_char c = [c]" by (simp add: html_char_def)
  then show "x \<in> set (html_char c) \<Longrightarrow> ?thesis" using False by simp
qed

text \<open>
  Text a user supplied cannot leave its place in a page: whatever the text, its escaped form has
  no angle bracket and no quote, so it cannot open a tag or end an attribute, and a browser
  that reads the entities shows exactly the original text.
\<close>

theorem html_escape_contained:
  "set (html_escape s) \<inter> {CHR ''<'', CHR ''>'', kQuote, CHR 0x27} = {} \<and> html_text (length s) (html_escape s) = s"
  using html_char_safe by (auto simp: html_escape_text) (auto simp: html_escape_def)

end
