(* ===== verification/WebAuth.thy ===== *)
theory WebAuth
  imports WebText Storage
begin

text \<open>
  Who may use the administration server (\<open>src/main/web_server.cpp\<close>): the session, the login with
  its lock-out, the first-time setup, the logout, and the answer to a request without a
  session. The lemmas relate the session to the history of logins and bound how fast passwords
  can be tried.

  \<^item> A request gives what \<open>httpd\<close> hands to the code: method, uri, query, the Cookie and Accept
    headers, the announced length, and what the receive calls return. The four random words
    of a login are an argument.
  \<^item> A response is its kind and the texts the code puts into it; pages are named, not written
    out.
\<close>

subsection \<open>State, requests and responses\<close>

record web_session =
  ws_token :: string
  ws_seen_us :: time_us
  ws_failed :: u32
  ws_block_us :: time_us

definition web_session_init :: web_session where
  "web_session_init = \<lparr>ws_token = [], ws_seen_us = 0, ws_failed = 0, ws_block_us = 0\<rparr>"

record http_request =
  rq_get :: bool
  rq_uri :: string
  rq_query :: "string option"
  rq_cookie :: "string option"
  rq_accept :: "string option"
  rq_content_len :: nat
  rq_recv :: "recv_turn list"

datatype http_response =
    SeeOther string "string option"
  | LoginPage string string
  | HttpError nat string
  | HttpText string
  | HttpPage string
  | HttpJson string
  | Unauthorized
  | HandlerFailed esp_err

definition kAdminUser :: string where "kAdminUser = ''admin''"
definition kSessionCookieName :: string where "kSessionCookieName = ''gps_admin''"
definition kSessionIdleTimeoutUs :: time_us where "kSessionIdleTimeoutUs = 60 * 60 * 1000000"
definition kLoginBaseDelayUs :: time_us where "kLoginBaseDelayUs = 5 * 1000000"
definition kLoginMaxDelayUs :: time_us where "kLoginMaxDelayUs = 30 * 1000000"

subsection \<open>The session\<close>

definition authorize ::
  "'n nvs \<Rightarrow> 'n storage \<Rightarrow> time_us \<Rightarrow> http_request \<Rightarrow> web_session \<Rightarrow> bool \<times> web_session" where
  "authorize ops st now rq s =
     (if \<not> admin_password_set ops st then (False, s)
      else let token = cookie_value (rq_cookie rq) kSessionCookieName in
        if token = [] \<or> ws_token s = [] \<or> token \<noteq> ws_token s then (False, s)
        else if ws_seen_us s \<le> 0 \<or> kSessionIdleTimeoutUs < now - ws_seen_us s
        then (False, s\<lparr>ws_token := [], ws_seen_us := 0\<rparr>)
        else (True, s\<lparr>ws_seen_us := now\<rparr>))"

definition password_matches :: "'n nvs \<Rightarrow> 'n storage \<Rightarrow> string \<Rightarrow> string \<Rightarrow> bool" where
  "password_matches ops st user password =
     (admin_password_set ops st \<and> user = kAdminUser \<and> password = admin_password ops st)"

text \<open>\<open>%08lx\<close> of a random word.\<close>

definition hex_digit :: "nat \<Rightarrow> char" where
  "hex_digit d = (if d < 10 then char_of (48 + d) else char_of (87 + d))"

definition hex8 :: "u32 \<Rightarrow> string" where
  "hex8 w = map (\<lambda>i. hex_digit (unat (drop_bit (4 * i) w) mod 16)) [7, 6, 5, 4, 3, 2, 1, 0]"

definition start_session_cookie ::
  "time_us \<Rightarrow> u32 \<times> u32 \<times> u32 \<times> u32 \<Rightarrow> web_session \<Rightarrow> string \<times> web_session" where
  "start_session_cookie now rnd s =
     (case rnd of (a, b, c, d) \<Rightarrow>
        let token = hex8 a @ hex8 b @ hex8 c @ hex8 d
        in (kSessionCookieName @ ''='' @ token @ ''; Path=/; Max-Age=3600; HttpOnly; SameSite=Strict'',
            s\<lparr>ws_token := token, ws_seen_us := now, ws_failed := 0, ws_block_us := 0\<rparr>))"

definition clear_session_cookie :: "web_session \<Rightarrow> string \<times> web_session" where
  "clear_session_cookie s =
     (kSessionCookieName @ ''=; Path=/; Max-Age=0; HttpOnly; SameSite=Strict'',
      s\<lparr>ws_token := [], ws_seen_us := 0\<rparr>)"

definition send_unauthorized :: "http_request \<Rightarrow> http_response" where
  "send_unauthorized rq =
     (if rq_get rq \<and> accepts_html (rq_accept rq)
      then SeeOther (''/login'' @ (if safe_local_path (rq_uri rq) \<and> rq_uri rq \<noteq> ''/login''
                                   then ''?next='' @ rq_uri rq else [])) None
      else Unauthorized)"

subsection \<open>Logging in and out\<close>

definition request_body :: "http_request \<Rightarrow> nat \<Rightarrow> string" where
  "request_body rq max_length = read_body (rq_content_len rq) (rq_recv rq) max_length"

definition login_get_handler ::
  "'n nvs \<Rightarrow> 'n storage \<Rightarrow> time_us \<Rightarrow> http_request \<Rightarrow> web_session \<Rightarrow> http_response \<times> web_session" where
  "login_get_handler ops st now rq s =
     (if \<not> admin_password_set ops st then (SeeOther ''/setup'' None, s)
      else
        let next = query_param (rq_query rq) ''next'';
            next = (if \<not> safe_local_path next \<or> next = ''/login'' then ''/'' else next);
            (ok, s) = authorize ops st now rq s
        in (if ok then SeeOther next None else LoginPage [] next, s))"

definition login_failed :: "time_us \<Rightarrow> web_session \<Rightarrow> web_session" where
  "login_failed now s =
     (let s = s\<lparr>ws_failed := ws_failed s + 1\<rparr> in
      if 3 \<le> ws_failed s then
        (let delay = kLoginBaseDelayUs * uint (ws_failed s - 2);
             delay = (if kLoginMaxDelayUs < delay then kLoginMaxDelayUs else delay)
         in s\<lparr>ws_block_us := now + delay\<rparr>)
      else s)"

definition login_post_handler ::
  "'n nvs \<Rightarrow> 'n storage \<Rightarrow> time_us \<Rightarrow> u32 \<times> u32 \<times> u32 \<times> u32 \<Rightarrow> http_request \<Rightarrow> web_session \<Rightarrow>
     http_response \<times> web_session" where
  "login_post_handler ops st now rnd rq s =
     (if \<not> admin_password_set ops st then (SeeOther ''/setup'' None, s)
      else if now < ws_block_us s then
        (LoginPage (''Too many failed logins. Try again in '' @
           dec_int ((ws_block_us s - now + 999999) div 1000000) @ '' seconds.'') ''/'', s)
      else
        let body = request_body rq 512;
            user = form_value body ''user''; password = form_value body ''password'';
            requested_next = form_value body ''next'';
            next = (if safe_local_path requested_next \<and> requested_next \<noteq> ''/login'' then requested_next else ''/'')
        in if password_matches ops st user password then
             (let (cookie, s) = start_session_cookie now rnd s in (SeeOther next (Some cookie), s))
           else (LoginPage ''Invalid admin login.'' next, login_failed now s))"

definition logout_handler :: "web_session \<Rightarrow> http_response \<times> web_session" where
  "logout_handler s =
     (let (cookie, s) = clear_session_cookie s in (SeeOther ''/login'' (Some cookie), s))"

definition setup_post_handler ::
  "'n nvs \<Rightarrow> time_us \<Rightarrow> u32 \<times> u32 \<times> u32 \<times> u32 \<Rightarrow> http_request \<Rightarrow> 'n storage \<times> web_session \<Rightarrow>
     http_response \<times> 'n storage \<times> web_session" where
  "setup_post_handler ops now rnd rq sw =
     (case sw of (st, s) \<Rightarrow>
        if admin_password_set ops st then (HttpError 403 ''Already set'', st, s)
        else
          let body = request_body rq 512; password = form_value body ''password'' in
          if length password < 8 \<or> 64 < length password \<or> password \<noteq> form_value body ''confirm''
          then (HttpError 400 ''Passwords do not match'', st, s)
          else
            let (e, st) = save_admin_password ops password st in
            if e \<noteq> ESP_OK then (HandlerFailed e, st, s)
            else let (cookie, s) = start_session_cookie now rnd s in (SeeOther ''/'' (Some cookie), st, s))"

subsection \<open>The session and its history\<close>

datatype web_op =
    Request http_request
  | Login "u32 \<times> u32 \<times> u32 \<times> u32" http_request
  | Logout
  | Setup "u32 \<times> u32 \<times> u32 \<times> u32" http_request

text \<open>What the client sees of it: access granted to a token, a token given out, a session ended.\<close>

datatype web_event = Granted string | Opened string | Ended | Refused

definition given_out :: "http_response \<Rightarrow> web_session \<Rightarrow> web_event" where
  "given_out r s = (case r of SeeOther _ (Some _) \<Rightarrow> Opened (ws_token s) | _ \<Rightarrow> Refused)"

definition web_do :: "'n nvs \<Rightarrow> time_us \<times> web_op \<Rightarrow> 'n storage \<times> web_session \<Rightarrow> web_event \<times> 'n storage \<times> web_session" where
  "web_do ops x sw = (case (x, sw) of ((now, op), (st, s)) \<Rightarrow>
     (case op of
        Request rq \<Rightarrow> (let (ok, s) = authorize ops st now rq s
          in (if ok then Granted (cookie_value (rq_cookie rq) kSessionCookieName) else Refused, st, s))
      | Login rnd rq \<Rightarrow> (let (r, s) = login_post_handler ops st now rnd rq s in (given_out r s, st, s))
      | Logout \<Rightarrow> (Ended, st, snd (logout_handler s))
      | Setup rnd rq \<Rightarrow> (let (r, st, s) = setup_post_handler ops now rnd rq (st, s) in (given_out r s, st, s))))"

fun web_run :: "'n nvs \<Rightarrow> (time_us \<times> web_op) list \<Rightarrow> 'n storage \<times> web_session \<Rightarrow>
    (time_us \<times> web_event) list \<times> 'n storage \<times> web_session" where
  "web_run ops [] sw = ([], sw)"
| "web_run ops (x # xs) sw =
     (let (e, sw) = web_do ops x sw; (h, sw) = web_run ops xs sw in ((fst x, e) # h, sw))"

text \<open>The session a history leaves: its token and when it was last used.\<close>

definition session_of :: "(string \<times> time_us) option \<Rightarrow> (time_us \<times> web_event) list \<Rightarrow> (string \<times> time_us) option" where
  "session_of a h = foldl (\<lambda>a (t, e). case e of
       Granted tok \<Rightarrow> Some (tok, t) | Opened tok \<Rightarrow> Some (tok, t) | Ended \<Rightarrow> None | Refused \<Rightarrow> a) a h"

definition session_rel :: "web_session \<Rightarrow> (string \<times> time_us) option \<Rightarrow> time_us \<Rightarrow> bool" where
  "session_rel s a now = (case a of
       None \<Rightarrow> ws_token s = []
     | Some (tok, t) \<Rightarrow> tok \<noteq> [] \<and> 0 < t \<and> t \<le> now \<and>
         (ws_token s = tok \<and> ws_seen_us s = t \<or> ws_token s = [] \<and> kSessionIdleTimeoutUs < now - t))"

lemma session_rel_later: "session_rel s a now \<Longrightarrow> now \<le> later \<Longrightarrow> session_rel s a later"
  by (auto simp: session_rel_def split: option.splits)

lemma authorize_rel:
  assumes "session_rel s a now" "0 < now"
  shows "fst (authorize ops st now rq s) \<longleftrightarrow> admin_password_set ops st \<and>
      (\<exists>t. a = Some (cookie_value (rq_cookie rq) kSessionCookieName, t) \<and> now - t \<le> kSessionIdleTimeoutUs)"
    and "session_rel (snd (authorize ops st now rq s))
      (if fst (authorize ops st now rq s) then Some (cookie_value (rq_cookie rq) kSessionCookieName, now) else a) now"
  using assms by (auto simp: authorize_def session_rel_def Let_def split: option.splits)

lemma start_session_rel:
  "0 < now \<Longrightarrow> start_session_cookie now rnd s = (c, s') \<Longrightarrow> session_rel s' (Some (ws_token s', now)) now"
  by (auto simp: start_session_cookie_def session_rel_def hex8_def Let_def split: prod.splits)

lemma same_session_rel:
  "ws_token s' = ws_token s \<Longrightarrow> ws_seen_us s' = ws_seen_us s \<Longrightarrow> session_rel s a now \<Longrightarrow> session_rel s' a now"
  by (auto simp: session_rel_def split: option.splits)

lemma login_rel:
  assumes "login_post_handler ops st now rnd rq s = (r, s')" "session_rel s a now" "0 < now"
  shows "session_rel s' (session_of a [(now, given_out r s')]) now"
proof (cases "admin_password_set ops st \<and> \<not> now < ws_block_us s \<and>
    password_matches ops st (form_value (request_body rq 512) ''user'') (form_value (request_body rq 512) ''password'')")
  case True
  then obtain c page where c: "start_session_cookie now rnd s = (c, s')" and r: "r = SeeOther page (Some c)"
    using assms(1) by (auto simp: login_post_handler_def Let_def split: prod.splits)
  show ?thesis using start_session_rel [OF assms(3) c] by (simp add: session_of_def given_out_def r)
next
  case False
  have keep: "ws_token (login_failed now s) = ws_token s" "ws_seen_us (login_failed now s) = ws_seen_us s"
    by (simp_all add: login_failed_def Let_def)
  consider "\<not> admin_password_set ops st" | "admin_password_set ops st" "now < ws_block_us s"
    | "admin_password_set ops st" "\<not> now < ws_block_us s"
      "\<not> password_matches ops st (form_value (request_body rq 512) ''user'') (form_value (request_body rq 512) ''password'')"
    using False by blast
  then have "given_out r s' = Refused \<and> ws_token s' = ws_token s \<and> ws_seen_us s' = ws_seen_us s"
    using assms(1) keep by cases (auto simp: login_post_handler_def Let_def given_out_def)
  then show ?thesis using same_session_rel [OF _ _ assms(2)] by (simp add: session_of_def)
qed

lemma setup_rel:
  assumes "setup_post_handler ops now rnd rq (st, s) = (r, st', s')" "session_rel s a now" "0 < now"
  shows "session_rel s' (session_of a [(now, given_out r s')]) now"
proof (cases "\<exists>c. start_session_cookie now rnd s = (c, s') \<and> r = SeeOther ''/'' (Some c)")
  case True
  then obtain c where c: "start_session_cookie now rnd s = (c, s')" "r = SeeOther ''/'' (Some c)" by blast
  show ?thesis using start_session_rel [OF assms(3) c(1)] by (simp add: session_of_def given_out_def c(2))
next
  case False
  then have "given_out r s' = Refused" "s' = s"
    using assms(1) by (auto simp: setup_post_handler_def Let_def given_out_def split: if_splits prod.splits)
  then show ?thesis using assms(2) by (simp add: session_of_def)
qed

lemma web_do_rel:
  assumes "web_do ops (now, op) (st, s) = (e, st', s')" "session_rel s a now" "0 < now"
  shows "session_rel s' (session_of a [(now, e)]) now"
proof (cases op)
  case (Request rq)
  then show ?thesis using assms authorize_rel(2) [OF assms(2,3), of ops st rq]
    by (auto simp: web_do_def session_of_def split: prod.splits if_splits)
next
  case (Login rnd rq)
  obtain r t where r: "login_post_handler ops st now rnd rq s = (r, t)" by (rule prod.exhaust)
  then have "e = given_out r t" "s' = t" using assms(1) Login by (auto simp: web_do_def)
  then show ?thesis using login_rel [OF r assms(2,3)] by simp
next
  case Logout
  then show ?thesis using assms(1)
    by (auto simp: web_do_def logout_handler_def clear_session_cookie_def session_of_def session_rel_def)
next
  case (Setup rnd rq)
  obtain r t u where r: "setup_post_handler ops now rnd rq (st, s) = (r, t, u)" by (rule prod_cases3)
  then have "e = given_out r u" "s' = u" using assms(1) Setup by (auto simp: web_do_def)
  then show ?thesis using setup_rel [OF r assms(2,3)] by simp
qed

lemma web_run_rel:
  assumes "web_run ops xs (st, s) = (h, st', s')" "session_rel s a now" "0 < now"
    and "sorted (now # map fst xs)"
  shows "session_rel s' (session_of a h) (last (now # map fst xs))"
  using assms
proof (induction xs arbitrary: st s h a now)
  case Nil
  then show ?case by (simp add: session_of_def)
next
  case (Cons x xs)
  obtain t op where x: "x = (t, op)" by (rule prod.exhaust)
  obtain e st1 s1 where one: "web_do ops (t, op) (st, s) = (e, st1, s1)" by (rule prod_cases3)
  obtain h1 where rest: "web_run ops xs (st1, s1) = (h1, st', s')" "h = (t, e) # h1"
    using Cons.prems(1) by (auto simp: x one Let_def split: prod.splits)
  have t: "now \<le> t" "sorted (t # map fst xs)" using Cons.prems(4) by (simp_all add: x)
  have "session_rel s1 (session_of a [(t, e)]) t"
    using web_do_rel [OF one] session_rel_later [OF Cons.prems(2) t(1)] t(1) Cons.prems(3) by simp
  from Cons.IH [OF rest(1) this] t Cons.prems(3) show ?case by (simp add: rest(2) x session_of_def)
qed

text \<open>
  C16. Access to the administration needs the session of the last login: after any requests,
  logins, logouts and set-ups in the order of time, a request is let through exactly when an
  administration password is set and its cookie carries the token of the session the history
  leaves - the one given out last, so a new login ends the older sessions, and a logout ends it -
  and that session was opened or used within the last hour.
\<close>

theorem access_follows_history:
  assumes "web_run ops xs (st0, web_session_init) = (h, st, s)"
    and "sorted (map fst xs @ [now])" and "\<forall>t \<in> set (map fst xs @ [now]). 0 < t"
  shows "fst (authorize ops st now rq s) \<longleftrightarrow> admin_password_set ops st \<and>
    (\<exists>t. session_of None h = Some (cookie_value (rq_cookie rq) kSessionCookieName, t) \<and> now - t \<le> 3600000000)"
proof -
  have init: "session_rel web_session_init None t" for t by (simp add: session_rel_def web_session_init_def)
  have "session_rel s (session_of None h) now"
  proof (cases xs)
    case Nil
    then show ?thesis using assms(1) init by (auto simp: session_of_def)
  next
    case (Cons x ys)
    have "sorted (fst x # map fst xs)" "0 < fst x" using assms(2,3) Cons by (auto simp: sorted_append)
    from web_run_rel [OF assms(1) init this(2,1)]
    have "session_rel s (session_of None h) (last (map fst xs))" using Cons by simp
    moreover have "last (map fst xs) \<in> set (map fst xs)" using Cons by (intro last_in_set) simp
    then have "last (map fst xs) \<le> now" using assms(2) by (auto simp: sorted_append)
    ultimately show ?thesis by (rule session_rel_later)
  qed
  from authorize_rel(1) [OF this] assms(3) show ?thesis by (simp add: kSessionIdleTimeoutUs_def)
qed

subsection \<open>How fast passwords can be tried\<close>

definition right_password :: "'n nvs \<Rightarrow> 'n storage \<Rightarrow> http_request \<Rightarrow> bool" where
  "right_password ops st rq =
     password_matches ops st (form_value (request_body rq 512) ''user'') (form_value (request_body rq 512) ''password'')"

text \<open>
  Whether the answer to a login shows that its password was compared: it opens a session, or says
  that the login is invalid.
\<close>

definition tells :: "http_response \<Rightarrow> bool" where
  "tells r = (case r of
       SeeOther _ (Some _) \<Rightarrow> True
     | LoginPage message _ \<Rightarrow> message = ''Invalid admin login.''
     | _ \<Rightarrow> False)"

text \<open>Login attempts: how many were answered with a comparison, and the state afterwards.\<close>

fun guess_run :: "'n nvs \<Rightarrow> 'n storage \<Rightarrow> (time_us \<times> (u32 \<times> u32 \<times> u32 \<times> u32) \<times> http_request) list \<Rightarrow>
    web_session \<Rightarrow> nat \<times> web_session" where
  "guess_run ops st [] s = (0, s)"
| "guess_run ops st ((now, rnd, rq) # xs) s =
     (let (r, s) = login_post_handler ops st now rnd rq s; (n, t) = guess_run ops st xs s
      in (if tells r then Suc n else n, t))"

lemma login_blocked:
  assumes "admin_password_set ops st" "now < ws_block_us s" "login_post_handler ops st now rnd rq s = (r, s')"
  shows "s' = s \<and> \<not> tells r"
  using assms by (auto simp: login_post_handler_def tells_def)

lemma login_wrong:
  assumes "admin_password_set ops st" "\<not> now < ws_block_us s" "\<not> right_password ops st rq"
    "login_post_handler ops st now rnd rq s = (r, s')"
  shows "s' = login_failed now s \<and> tells r"
  using assms by (auto simp: login_post_handler_def right_password_def tells_def Let_def)

definition slowed :: "time_us \<Rightarrow> time_us \<Rightarrow> nat \<Rightarrow> web_session \<Rightarrow> bool" where
  "slowed t0 now n s \<longleftrightarrow> unat (ws_failed s) = n \<and>
     (8 \<le> n \<longrightarrow> (int n - 7) * 30000000 \<le> ws_block_us s - t0 \<and> ws_block_us s \<le> now + 30000000)"

lemma login_failed_slows:
  assumes "slowed t0 before n s" "before \<le> now" "t0 \<le> now" "\<not> now < ws_block_us s" "n + 1 < 2 ^ 32"
  shows "slowed t0 now (Suc n) (login_failed now s)"
proof -
  have n: "unat (ws_failed s + 1) = Suc n"
    using assms(1,5) unat_add_lem [of "ws_failed s" 1] by (simp add: slowed_def)
  have block: "ws_block_us (login_failed now s) = now + 30000000" if "8 \<le> Suc n"
  proof -
    define w where "w = ws_failed s + 1"
    have w: "uint w = int (Suc n)" using n by (simp add: w_def uint_nat)
    then have "3 \<le> w" "uint w - uint (2 :: u32) = int (Suc n) - 2" using that by (simp_all add: word_le_def)
    moreover have "uint (w - 2) = uint w - uint (2 :: u32)"
      using w that uint_sub_lem [of 2 w] by simp
    ultimately show ?thesis using that
      by (simp add: login_failed_def Let_def kLoginBaseDelayUs_def kLoginMaxDelayUs_def w_def [symmetric])
  qed
  have "unat (ws_failed (login_failed now s)) = Suc n" using n by (simp add: login_failed_def Let_def)
  moreover have "(int (Suc n) - 7) * 30000000 \<le> now + 30000000 - t0" if "8 \<le> Suc n"
    using assms(1,3,4) that by (cases "8 \<le> n") (auto simp: slowed_def algebra_simps)
  ultimately show ?thesis using block by (auto simp: slowed_def)
qed

lemma guess_run_slowed:
  assumes "admin_password_set ops st" "\<forall>(t, rnd, rq) \<in> set xs. \<not> right_password ops st rq"
    and "sorted (before # map fst xs)" "t0 \<le> before" "slowed t0 before n s" "n + length xs < 2 ^ 32"
  shows "slowed t0 (last (before # map fst xs)) (n + fst (guess_run ops st xs s)) (snd (guess_run ops st xs s))"
  using assms(2-)
proof (induction xs arbitrary: before n s)
  case Nil
  then show ?case by simp
next
  case (Cons x xs)
  obtain now rnd rq where x: "x = (now, rnd, rq)" by (rule prod_cases3)
  obtain r s' where r: "login_post_handler ops st now rnd rq s = (r, s')" by (rule prod.exhaust)
  have t: "before \<le> now" "sorted (now # map fst xs)" "t0 \<le> now" using Cons.prems(2,3) by (auto simp: x)
  have wrong: "\<not> right_password ops st rq" using Cons.prems(1) by (simp add: x)
  show ?case
  proof (cases "now < ws_block_us s")
    case True
    then have "s' = s" "\<not> tells r" using login_blocked [OF assms(1) _ r] by simp_all
    moreover have "slowed t0 now n s" using Cons.prems(4) t(1) by (auto simp: slowed_def)
    ultimately show ?thesis using Cons.IH [OF _ t(2,3), of n s] Cons.prems(1,5)
      by (auto simp: x r Let_def split: prod.splits)
  next
    case False
    then have "s' = login_failed now s" "tells r" using login_wrong [OF assms(1) _ wrong r] by simp_all
    moreover have "slowed t0 now (Suc n) (login_failed now s)"
      using login_failed_slows [OF Cons.prems(4) t(1,3) False] Cons.prems(5) by simp
    ultimately show ?thesis using Cons.IH [OF _ t(2,3), of "Suc n" "login_failed now s"] Cons.prems(1,5)
      by (auto simp: x r Let_def split: prod.splits)
  qed
qed

text \<open>
  C21. Guessing the administration password is slow: of any sequence of login attempts with a wrong
  user or password, however fast they come, at most 8 and then one per 30 seconds are answered with
  the outcome of a comparison; the answer to the others does not depend on the password.
\<close>

theorem guesses_are_slowed:
  assumes "admin_password_set ops st" and "\<forall>(t, rnd, rq) \<in> set xs. \<not> right_password ops st rq"
    and "sorted (map fst xs)" and "xs \<noteq> []" and "length xs < 2 ^ 32" and "ws_failed s = 0"
  shows "int (fst (guess_run ops st xs s)) \<le> 8 + (last (map fst xs) - hd (map fst xs)) div 30000000"
proof -
  let ?t = "hd (map fst xs)" and ?n = "fst (guess_run ops st xs s)"
  have s: "sorted (?t # map fst xs)" using assms(3,4) by (cases xs) auto
  have "slowed ?t ?t 0 s" using assms(6) by (simp add: slowed_def)
  from guess_run_slowed [OF assms(1,2) s order_refl this] assms(4,5)
  have *: "slowed ?t (last (map fst xs)) ?n (snd (guess_run ops st xs s))" by simp
  have "last (map fst xs) \<in> set (map fst xs)" using assms(4) by (intro last_in_set) simp
  then have le: "?t \<le> last (map fst xs)" using s by auto
  show ?thesis
  proof (cases "8 \<le> ?n")
    case True
    then have "(int ?n - 8) * 30000000 \<le> last (map fst xs) - ?t" using * by (auto simp: slowed_def algebra_simps)
    then have "(int ?n - 8) * 30000000 div 30000000 \<le> (last (map fst xs) - ?t) div 30000000" by (rule zdiv_mono1) simp
    then show ?thesis by simp
  next
    case False
    then show ?thesis using le by (simp add: pos_imp_zdiv_nonneg_iff)
  qed
qed

subsection \<open>Weak spots\<close>

text \<open>A path with two slashes counts as local, though browsers read a host name in it.\<close>

lemma foreign_host_accepted: "safe_local_path ''//evil.example/''"
  by (simp add: safe_local_path_def find_after.simps starts_with_def slash_def kBackslash_def)

text \<open>
  The query of the page a login was asked for is put into the address without being encoded:
  what comes back ends at the first ampersand.
\<close>

lemma login_target_cut:
  "query_param (Some (''next='' @ ''/files?path=/sdcard&x=1'')) ''next'' = ''/files?path=/sdcard''"
  by (simp add: query_param_def find_after.simps starts_with_def)

text \<open>A set-up whose password begins with an encoded NUL stores the empty password.\<close>

lemma setup_accepts_nul:
  "let password = form_value ''password=%00abcdefg'' ''password''
   in \<not> (length password < 8 \<or> 64 < length password) \<and> c_str password = []"
  by (simp add: form_value_def starts_with_def strtol16_def skip_space_def is_space_def scan_sign_def
      is_digit_of_def digit_value_def digits_value_def lower_def Let_def char_of_def)

subsection \<open>Concrete runs\<close>

definition admin_storage :: "(string \<Rightarrow> nvs_value option) storage" where
  "admin_storage = \<lparr>st_nvs = [''admin_set'' \<mapsto> NvU8 1, ''admin_pw'' \<mapsto> NvStr ''geheim''], st_open = True\<rparr>"

definition demo_request :: "string \<Rightarrow> string option \<Rightarrow> http_request" where
  "demo_request body cookie = \<lparr>rq_get = False, rq_uri = ''/login'', rq_query = None, rq_cookie = cookie,
     rq_accept = None, rq_content_len = length body, rq_recv = [RecvData body]\<rparr>"

lemma admin_storage_facts:
  "admin_password_set ram_nvs admin_storage" "admin_password ram_nvs admin_storage = ''geheim''"
  by (simp_all add: admin_password_set_def admin_password_def get_bool_def get_string_def admin_storage_def ram_nvs_def)

lemma demo_body: "length body \<le> n \<Longrightarrow> body \<noteq> [] \<Longrightarrow> request_body (demo_request body c) n = body"
  by (simp add: request_body_def demo_request_def read_body_def)

lemma demo_password:
  "right_password ram_nvs admin_storage (demo_request ''user=admin&password=geheim'' c)"
  "\<not> right_password ram_nvs admin_storage (demo_request ''user=admin&password=x'' c)"
  by (simp_all add: right_password_def demo_body form_value_def starts_with_def password_matches_def
      admin_storage_facts kAdminUser_def)

lemma guesses_are_slowed_witness:
  "int (fst (guess_run ram_nvs admin_storage
     (map (\<lambda>i. (int i, (0, 0, 0, 0), demo_request ''user=admin&password=x'' None)) [0..<1000]) web_session_init)) \<le> 8"
proof -
  let ?xs = "map (\<lambda>i. (int i, (0, 0, 0, 0), demo_request ''user=admin&password=x'' None)) [0..<1000]
    :: (int \<times> (u32 \<times> u32 \<times> u32 \<times> u32) \<times> http_request) list"
  have t: "map fst ?xs = map int [0..<1000]" by (simp add: comp_def)
  have "sorted (map fst ?xs)" unfolding t by (simp add: sorted_map)
  moreover have "last (map fst ?xs) = 999" "hd (map fst ?xs) = 0" unfolding t by (simp_all add: last_map hd_map)
  moreover have "\<forall>(t, rnd, rq) \<in> set ?xs. \<not> right_password ram_nvs admin_storage rq" using demo_password(2) by auto
  moreover have "length ?xs < 2 ^ 32" "?xs \<noteq> []" by simp_all
  moreover have "ws_failed web_session_init = 0" by (simp add: web_session_init_def)
  ultimately show ?thesis
    using guesses_are_slowed [OF admin_storage_facts(1), of ?xs web_session_init] by simp
qed

lemma hex8_zero: "hex8 0 = replicate 8 (CHR ''0'')"
proof -
  have "(of_char (CHR ''0'') :: nat) = 48" by simp
  then have "char_of (48 :: nat) = CHR ''0''" by (metis char_of_char)
  moreover have "replicate 8 c = [c, c, c, c, c, c, c, c]" for c :: char by (simp add: numeral_eq_Suc)
  ultimately show ?thesis by (simp add: hex8_def hex_digit_def)
qed

lemma cookie_alone:
  assumes "CHR '';'' \<notin> set tok" "CHR 0x00 \<notin> set tok" "length tok \<le> 1000"
  shows "cookie_value (Some (''gps_admin='' @ tok)) kSessionCookieName = tok"
proof -
  have "c_str (''gps_admin='' @ tok) = ''gps_admin='' @ tok" by (rule c_str_id) (use assms(2) in simp)
  then have h: "header_value (Some (''gps_admin='' @ tok)) 1024 = ''gps_admin='' @ tok"
    using assms(3) by (simp add: header_value_def)
  have "split_on (CHR '';'') (''gps_admin='' @ tok) = [''gps_admin='' @ tok]"
    by (rule split_on_no) (use assms(1) in simp)
  moreover have "starts_with (''gps_admin='' @ tok) ''gps_admin=''" by (rule starts_with_append)
  ultimately show ?thesis unfolding cookie_value_def h kSessionCookieName_def by (simp add: Let_def)
qed

lemma access_follows_history_witness:
  "let tok = replicate 32 (CHR ''0''); login = demo_request ''user=admin&password=geheim'' None;
     s = snd (snd (web_run ram_nvs [(10, Login (0, 0, 0, 0) login)] (admin_storage, web_session_init)));
     rq = demo_request [] (Some (''gps_admin='' @ tok)) in
   fst (authorize ram_nvs admin_storage 3600000010 rq s) \<and> \<not> fst (authorize ram_nvs admin_storage 3600000011 rq s)"
proof -
  define tok where "tok = replicate 32 (CHR ''0'')"
  define login where "login = demo_request ''user=admin&password=geheim'' None"
  define s1 where "s1 = web_session_init\<lparr>ws_token := tok, ws_seen_us := 10\<rparr>"
  have token: "hex8 0 @ hex8 0 @ hex8 0 @ hex8 0 = tok"
    by (simp add: hex8_zero tok_def replicate_add [symmetric])
  have ok: "right_password ram_nvs admin_storage login" unfolding login_def by (rule demo_password)
  then have "snd (login_post_handler ram_nvs admin_storage 10 (0, 0, 0, 0) login web_session_init) = s1"
    "\<exists>page c. fst (login_post_handler ram_nvs admin_storage 10 (0, 0, 0, 0) login web_session_init) = SeeOther page (Some c)"
    by (simp_all add: login_post_handler_def right_password_def admin_storage_facts web_session_init_def Let_def
        start_session_cookie_def token s1_def)
  then have run: "web_run ram_nvs [(10, Login (0, 0, 0, 0) login)] (admin_storage, web_session_init) =
      ([(10, Opened tok)], admin_storage, s1)"
    by (auto simp: web_do_def given_out_def s1_def Let_def split: prod.splits)
  have "cookie_value (Some (''gps_admin='' @ tok)) kSessionCookieName = tok"
    by (rule cookie_alone) (simp_all add: tok_def)
  then have "fst (authorize ram_nvs admin_storage 3600000010 (demo_request [] (Some (''gps_admin='' @ tok))) s1) \<and>
      \<not> fst (authorize ram_nvs admin_storage 3600000011 (demo_request [] (Some (''gps_admin='' @ tok))) s1)"
    using access_follows_history [OF run, of 3600000010 "demo_request [] (Some (''gps_admin='' @ tok))"]
      access_follows_history [OF run, of 3600000011 "demo_request [] (Some (''gps_admin='' @ tok))"]
    by (simp add: demo_request_def session_of_def admin_storage_facts)
  then show ?thesis unfolding Let_def login_def [symmetric] tok_def [symmetric] run snd_conv .
qed

end
