(* ===== verification/WebSelect.thy ===== *)
theory WebSelect
  imports WebAuth RinexLogger "HOL-Library.Char_ord" "HOL-Library.List_Lexorder" "HOL-Library.Product_Lexorder" "HOL-Library.Multiset"
begin

text \<open>
  Which recorded files an export takes (\<open>src/main/web_server.cpp\<close>): the times it reads from the
  form and from the names of the files, and the selection by overlap. The lemmas relate the
  names to those the RINEX logger gives its files, and the times to the calendar.

  \<^item> \<open>sscanf\<close> with \<open>%d\<close> conversions is modelled for the two formats the code uses; a number
    beyond \<open>int\<close> is cut to its limits, as the target's C library does.
  \<^item> The target's \<open>long\<close> has 32 bits. Where the computation leaves it, or reads the table of months
    outside, C leaves the result undefined: that is \<open>None\<close>.
\<close>

subsection \<open>Scanning numbers\<close>

definition scan_int :: "nat option \<Rightarrow> string \<Rightarrow> (int \<times> string) option" where
  "scan_int width s =
     (let t = skip_space s; field = (case width of None \<Rightarrow> t | Some n \<Rightarrow> take n t);
          (neg, u) = scan_sign field; ds = takeWhile is_digit u;
          v = (if neg then - int (digits_value 10 ds) else int (digits_value 10 ds))
      in if ds = [] then None
         else Some (max (- (2 ^ 31)) (min (2 ^ 31 - 1) v), drop (length field - length u + length ds) t))"

datatype scan_dir = ScanD "nat option" | ScanC char

text \<open>The numbers converted before the first directive that does not match.\<close>

fun sscanf_ints :: "scan_dir list \<Rightarrow> string \<Rightarrow> int list" where
  "sscanf_ints [] s = []"
| "sscanf_ints (ScanD w # ds) s = (case scan_int w s of None \<Rightarrow> [] | Some (v, r) \<Rightarrow> v # sscanf_ints ds r)"
| "sscanf_ints (ScanC c # ds) s = (case s of [] \<Rightarrow> [] | x # r \<Rightarrow> if x = c then sscanf_ints ds r else [])"

subsection \<open>Times\<close>

definition moff :: "int list" where "moff = [0, 31, 59, 90, 120, 151, 181, 212, 243, 273, 304, 334]"

definition in_long :: "int \<Rightarrow> bool" where "in_long x = (- (2 ^ 31) \<le> x \<and> x < 2 ^ 31)"

definition utc_to_unix :: "int \<Rightarrow> int \<Rightarrow> int \<Rightarrow> int \<Rightarrow> int \<Rightarrow> int \<Rightarrow> int option" where
  "utc_to_unix Y Mo D h m s =
     (if Mo < 1 \<or> 12 < Mo then None
      else
        let y = Y - 1970;
            leaps = (if 0 < y then (y - 1) div 4 + 1 else 0);
            isleap = (Y mod 4 = 0 \<and> (Y mod 100 \<noteq> 0 \<or> Y mod 400 = 0));
            days = y * 365 + leaps + moff ! nat (Mo - 1) + (if 2 < Mo \<and> isleap then 1 else 0) + (D - 1);
            terms = [days * 86400, h * 3600, m * 60, s]
        in if (\<forall>x \<in> set terms. in_long x) \<and> in_long (days * 86400 + h * 3600) \<and>
              in_long (days * 86400 + h * 3600 + m * 60) \<and> in_long (days * 86400 + h * 3600 + m * 60 + s)
           then Some (days * 86400 + h * 3600 + m * 60 + s) else None)"

definition datetime_format :: "scan_dir list" where
  "datetime_format = [ScanD None, ScanC (CHR ''-''), ScanD None, ScanC (CHR ''-''), ScanD None, ScanC (CHR ''T''),
     ScanD None, ScanC (CHR '':''), ScanD None, ScanC (CHR '':''), ScanD None]"

definition parse_datetime_input :: "string \<Rightarrow> int option" where
  "parse_datetime_input s =
     (let got = sscanf_ints datetime_format (c_str s); v = got @ replicate (6 - length got) 0;
          Y = v ! 0; Mo = v ! 1; D = v ! 2
      in if length got < 5 then Some (- 1)
         else if Y < 2020 \<or> 2099 < Y \<or> Mo < 1 \<or> 12 < Mo \<or> D < 1 \<or> 31 < D then Some (- 1)
         else utc_to_unix Y Mo D (v ! 3) (v ! 4) (v ! 5))"

definition filename_format :: "scan_dir list" where
  "filename_format = map ScanC ''BASE_'' @ [ScanD (Some 4), ScanD (Some 2), ScanD (Some 2), ScanC (CHR ''_''),
     ScanD (Some 2), ScanD (Some 2), ScanD (Some 2)] @ map ScanC ''.rnx''"

definition parse_rinex_filename_utc :: "string \<Rightarrow> int option" where
  "parse_rinex_filename_utc name =
     (let got = sscanf_ints filename_format (c_str name)
      in if length got \<noteq> 6 then Some (- 1)
         else if got ! 0 < 2020 then Some (- 1)
         else utc_to_unix (got ! 0) (got ! 1) (got ! 2) (got ! 3) (got ! 4) (got ! 5))"

subsection \<open>The selection\<close>

definition kRawDataDir :: string where "kRawDataDir = ''/sdcard/rawdata''"
definition kFileSpan :: int where "kFileSpan = 3600 + 120"
definition kMargin :: int where "kMargin = 120"

fun select_found :: "int \<Rightarrow> int \<Rightarrow> (string \<times> d_type) list \<Rightarrow> (int \<times> string) list option" where
  "select_found start until [] = Some []"
| "select_found start until ((name, typ) # es) =
     (if typ \<noteq> DtReg then select_found start until es
      else case parse_rinex_filename_utc name of
             None \<Rightarrow> None
           | Some ft \<Rightarrow>
               if ft < 0 then select_found start until es
               else if ft < until + kMargin \<and> start - kMargin < ft + kFileSpan
               then map_option (Cons (ft, take 279 (kRawDataDir @ ''/'' @ name))) (select_found start until es)
               else select_found start until es)"

definition select_rinex_files :: "'f vfs \<Rightarrow> 'f \<Rightarrow> int \<Rightarrow> int \<Rightarrow> string list option" where
  "select_rinex_files v f start until =
     (case fs_readdir v kRawDataDir f of
        Inl _ \<Rightarrow> Some []
      | Inr es \<Rightarrow> map_option (\<lambda>found. map snd (sort found)) (select_found start until es))"

definition path_basename :: "string \<Rightarrow> string" where
  "path_basename path = rev (takeWhile (\<lambda>c. c \<noteq> slash) (rev (c_str path)))"

subsection \<open>Times are read as they are written\<close>

lemma is_digit_facts:
  assumes "is_digit c" shows "\<not> is_space c" "c \<noteq> CHR ''-''" "c \<noteq> CHR ''+''" "c \<noteq> CHR 0x00" "c \<noteq> slash"
proof -
  have n: "48 \<le> (of_char c :: nat)" "(of_char c :: nat) \<le> 57"
    using assms by (auto simp: is_digit_of_def digit_value_def Let_def split: if_splits)
  have other: "c \<noteq> d" if "(of_char d :: nat) < 48" for d using n that by auto
  show "\<not> is_space c" using n other [of "CHR '' ''"] by (auto simp: is_space_def)
  show "c \<noteq> CHR ''-''" "c \<noteq> CHR ''+''" "c \<noteq> CHR 0x00" "c \<noteq> slash" by (auto intro!: other simp: slash_def)
qed

lemma fmt_0d_facts:
  assumes "0 \<le> i" "i < 10 ^ w" "0 < w"
  shows "length (fmt_0d w i) = w" "\<forall>c \<in> set (fmt_0d w i). is_digit c" "digits_value 10 (fmt_0d w i) = nat i"
proof -
  have len: "length (dec_nat (nat i)) \<le> w" using assms by (intro length_dec_nat) (simp_all add: nat_less_iff)
  have f: "fmt_0d w i = replicate (w - length (dec_nat (nat i))) (CHR ''0'') @ dec_nat (nat i)"
    using assms(1) by (simp add: fmt_0d_def pad_left_def)
  show "length (fmt_0d w i) = w" using len by (simp add: f)
  have "is_digit (CHR ''0'')" by (simp add: is_digit_of_def digit_value_def)
  then show "\<forall>c \<in> set (fmt_0d w i). is_digit c" using dec_nat_digits by (auto simp: f)
  show "digits_value 10 (fmt_0d w i) = nat i" by (simp add: f digits_value_append)
qed

lemma scan_fmt_0d:
  assumes "0 \<le> i" "i < 10 ^ w" "0 < w" "i < 2 ^ 31"
  shows "scan_int (Some w) (fmt_0d w i @ rest) = Some (i, rest)"
proof -
  note f = fmt_0d_facts [OF assms(1-3)]
  obtain c cs where c: "fmt_0d w i = c # cs" using f(1) assms(3) by (cases "fmt_0d w i") auto
  have d: "\<not> is_space c" "c \<noteq> CHR ''-''" "c \<noteq> CHR ''+''" using f(2) c is_digit_facts by auto
  have "skip_space (fmt_0d w i @ rest) = fmt_0d w i @ rest" using d by (simp add: c skip_space_def)
  moreover have "scan_sign (fmt_0d w i) = (False, fmt_0d w i)" using d by (simp add: c scan_sign_def)
  moreover have "fmt_0d w i \<noteq> []" using c by simp
  ultimately show ?thesis using assms(1,4) 
    by (simp add: scan_int_def Let_def f(1,3) takeWhile_eq_all_conv [THEN iffD2, OF f(2)])
qed

text \<open>Where the computation of the time stays in its types, it is one day late in every leap year and the year before.\<close>

definition late_day :: "int \<Rightarrow> int" where "late_day Y = (if Y mod 4 = 0 \<or> Y mod 4 = 3 then 1 else 0)"

lemma leap_counts:
  fixes k :: int
  shows "(k + 30) div 4 + 1 = k div 4 + 8 + (if (k + 1) mod 4 = 0 \<or> (k + 1) mod 4 = 3 then 1 else 0)"
    and "(k + 30) div 4 + 1 + (if (k + 1) mod 4 = 0 then 1 else 0) =
      (k + 1) div 4 + 8 + (if (k + 1) mod 4 = 0 \<or> (k + 1) mod 4 = 3 then 1 else 0)"
proof -
  define q where "q = k div 4"
  have "k mod 4 \<in> {0, 1, 2, 3}" unfolding insert_iff empty_iff by presburger
  moreover have "k = k mod 4 + q * 4" by (simp add: q_def)
  ultimately consider "k = 0 + q * 4" | "k = 1 + q * 4" | "k = 2 + q * 4" | "k = 3 + q * 4" by fastforce
  then have "(k + 30) div 4 + 1 = k div 4 + 8 + (if (k + 1) mod 4 = 0 \<or> (k + 1) mod 4 = 3 then 1 else 0) \<and>
    (k + 30) div 4 + 1 + (if (k + 1) mod 4 = 0 then 1 else 0) =
      (k + 1) div 4 + 8 + (if (k + 1) mod 4 = 0 \<or> (k + 1) mod 4 = 3 then 1 else 0)"
  proof cases
    case 1
    then have "k + 30 = 30 + q * 4" "k + 1 = 1 + q * 4" by simp_all
    then show ?thesis using 1 by (simp only: div_mult_self3 mod_mult_self3) simp
  next
    case 2
    then have "k + 30 = 31 + q * 4" "k + 1 = 2 + q * 4" by simp_all
    then show ?thesis using 2 by (simp only: div_mult_self3 mod_mult_self3) simp
  next
    case 3
    then have "k + 30 = 32 + q * 4" "k + 1 = 3 + q * 4" by simp_all
    then show ?thesis using 3 by (simp only: div_mult_self3 mod_mult_self3) simp
  next
    case 4
    then have "k + 30 = 33 + q * 4" "k + 1 = 4 + q * 4" by simp_all
    then show ?thesis using 4 by (simp only: div_mult_self3 mod_mult_self3) simp
  qed
  then show "(k + 30) div 4 + 1 = k div 4 + 8 + (if (k + 1) mod 4 = 0 \<or> (k + 1) mod 4 = 3 then 1 else 0)"
    "(k + 30) div 4 + 1 + (if (k + 1) mod 4 = 0 then 1 else 0) =
      (k + 1) div 4 + 8 + (if (k + 1) mod 4 = 0 \<or> (k + 1) mod 4 = 3 then 1 else 0)" by blast+
qed

lemma utc_days:
  assumes "2000 \<le> Y" "Y \<le> 2099" "1 \<le> Mo" "Mo \<le> 12"
  shows "(Y - 1970) * 365 + ((Y - 1970 - 1) div 4 + 1) + moff ! nat (Mo - 1) +
      (if 2 < Mo \<and> Y mod 4 = 0 \<and> (Y mod 100 \<noteq> 0 \<or> Y mod 400 = 0) then 1 else 0) + (D - 1) =
    days_of_civil Y Mo D + late_day Y"
proof -
  have m: "Mo \<in> {1, 2, 3, 4, 5, 6, 7, 8, 9, 10, 11, 12}" using assms(3,4) unfolding insert_iff empty_iff by presburger
  have century: "(2000 + k) div 400 = 5" "(2000 + k) mod 400 = k" "(2000 + k) mod 100 = k" "k div 100 = 0"
    if "0 \<le> k" "k \<le> 99" for k :: int
  proof -
    have "(400 * 5 + k) div 400 = 5" "(400 * 5 + k) mod 400 = k" "(100 * 20 + k) mod 100 = k"
      using that by (simp_all only: div_mult_self4 mod_mult_self4) simp_all
    then show "(2000 + k) div 400 = 5" "(2000 + k) mod 400 = k" "(2000 + k) mod 100 = k" by simp_all
  qed (use that in simp)
  show ?thesis
  proof (cases "Y = 2000")
    case True
    show ?thesis using m unfolding True late_day_def days_of_civil_def by (elim insertE emptyE; hypsubst; simp add: moff_def)
  next
    case False
    define k where "k = Y - 2001"
    have k: "0 \<le> k" "k \<le> 98" "Y = 2000 + (k + 1)" "Y - 1 = 2000 + k" using assms False by (simp_all add: k_def)
    have mod4: "Y mod 4 = (k + 1) mod 4" unfolding k(3) by presburger
    have "0 \<le> k + 1" "k + 1 \<le> 99" using k(1,2) by simp_all
    note next_year = century [OF this, folded k(3)]
    have leaps: "(k + 30) div 4 + 1 = k div 4 + 8 + late_day Y"
      "(k + 30) div 4 + 1 + (if (k + 1) mod 4 = 0 then 1 else 0) = (k + 1) div 4 + 8 + late_day Y"
      unfolding late_day_def mod4 by (rule leap_counts)+
    have early: "days_of_civil Y Mo D = 146097 * 5 + 365 * k + k div 4 + ((153 * (Mo + 9) + 2) div 5 + D - 1) - 719468"
      if "Mo \<le> 2" using that k century [of k] by (simp add: days_of_civil_def Let_def)
    have later: "days_of_civil Y Mo D =
        146097 * 5 + 365 * (k + 1) + (k + 1) div 4 + ((153 * (Mo - 3) + 2) div 5 + D - 1) - 719468" if "2 < Mo"
      using that next_year k(3) by (simp add: days_of_civil_def Let_def)
    have code: "Y - 1970 = k + 31" "Y - 1970 - 1 = k + 30" using k by simp_all
    have leap: "(2 < Mo \<and> Y mod 4 = 0 \<and> (Y mod 100 \<noteq> 0 \<or> Y mod 400 = 0)) = (2 < Mo \<and> (k + 1) mod 4 = 0)"
      unfolding next_year mod4 using k(1) by auto
    show ?thesis
    proof (cases "Mo \<le> 2")
      case True
      then have "Mo = 1 \<or> Mo = 2" using assms(3) by linarith
      then show ?thesis unfolding code early [OF True] using leaps(1) by (elim disjE) (simp_all add: moff_def)
    next
      case False
      have "moff ! nat (Mo - 1) = (153 * (Mo - 3) + 2) div 5 + 59"
        using m False by (elim insertE emptyE; hypsubst; simp add: moff_def)
      then show ?thesis unfolding leap code using later leaps(2) False
        by (cases "(k + 1) mod 4 = 0") (simp_all add: algebra_simps)
    qed
  qed
qed

lemma utc_value:
  assumes "utc_to_unix Y Mo D h m s = Some t" "2000 \<le> Y" "Y \<le> 2099"
  shows "t = 86400 * (days_of_civil Y Mo D + late_day Y) + 3600 * h + 60 * m + s"
proof -
  have mo: "1 \<le> Mo" "Mo \<le> 12" using assms(1) by (auto simp: utc_to_unix_def split: if_splits)
  have "0 < Y - 1970" using assms(2) by simp
  then have "t = ((Y - 1970) * 365 + ((Y - 1970 - 1) div 4 + 1) + moff ! nat (Mo - 1) +
      (if 2 < Mo \<and> Y mod 4 = 0 \<and> (Y mod 100 \<noteq> 0 \<or> Y mod 400 = 0) then 1 else 0) + (D - 1)) * 86400 +
      h * 3600 + m * 60 + s"
    using assms(1) mo by (simp add: utc_to_unix_def Let_def split: if_splits)
  then show ?thesis unfolding utc_days [OF assms(2,3) mo] using mo by (simp add: algebra_simps)
qed

text \<open>
  The times of an export: for every date of the years 2000 to 2099 whose computation stays
  within the target's 32-bit \<open>long\<close>, \<open>utc_to_unix\<close> gives the exact number of seconds since 1970,
  except that in the years divisible by four and the years before them it is one day late.
\<close>

theorem utc_exact_or_a_day_late:
  assumes "utc_to_unix Y Mo D h m s = Some t" "2000 \<le> Y" "Y \<le> 2099"
  shows "1 \<le> Mo \<and> Mo \<le> 12 \<and>
    t = 86400 * (days_of_civil Y Mo D + (if Y mod 4 = 0 \<or> Y mod 4 = 3 then 1 else 0)) + 3600 * h + 60 * m + s"
  using utc_value [OF assms] assms(1) by (auto simp: late_day_def utc_to_unix_def split: if_splits)

lemma utc_exact_or_a_day_late_witness:
  "utc_to_unix 2026 7 4 12 0 0 = Some 1783166400 \<and> 86400 * days_of_civil 2026 7 4 + 3600 * 12 = (1783166400 :: int)"
proof -
  have "utc_to_unix 2026 7 4 12 0 0 = Some 1783166400" by (simp add: utc_to_unix_def in_long_def moff_def)
  from utc_exact_or_a_day_late [OF this] this show ?thesis by simp
qed

text \<open>The comment says the function is accurate for 2000 to 2099.\<close>

lemma new_year_repeats_a_day: "utc_to_unix 2028 12 31 0 0 0 = utc_to_unix 2029 1 1 0 0 0 \<and> utc_to_unix 2029 1 1 0 0 0 \<noteq> None"
  by (simp add: utc_to_unix_def in_long_def moff_def)

lemma year_2038_overflows: "utc_to_unix 2038 1 20 0 0 0 = None"
  by (simp add: utc_to_unix_def in_long_def moff_def)

lemma month_unchecked: "parse_rinex_filename_utc ''BASE_20261301_000000.rnx'' = None"
  by code_simp

lemma any_suffix_accepted: "parse_rinex_filename_utc ''BASE_20260704_120000.bak'' = Some 1783166400"
  by code_simp

subsection \<open>The logger's names\<close>

lemma moff_bounds: "1 \<le> Mo \<Longrightarrow> Mo \<le> 12 \<Longrightarrow> 0 \<le> moff ! nat (Mo - 1) \<and> moff ! nat (Mo - 1) \<le> 334"
proof -
  assume "1 \<le> Mo" "Mo \<le> 12"
  then have "nat (Mo - 1) < length moff" by (simp add: moff_def)
  then have "moff ! nat (Mo - 1) \<in> set moff" by (rule nth_mem)
  then show ?thesis by (auto simp: moff_def)
qed

lemma utc_defined:
  assumes "2000 \<le> Y" "Y \<le> 2037" "1 \<le> Mo" "Mo \<le> 12" "1 \<le> D" "D \<le> 31"
    and "0 \<le> h" "h < 24" "0 \<le> m" "m < 60" "0 \<le> s" "s < 60"
  shows "\<exists>t. utc_to_unix Y Mo D h m s = Some t"
proof -
  let ?l = "(Y - 1970 - 1) div 4 + 1" and ?f = "(if 2 < Mo \<and> Y mod 4 = 0 \<and> (Y mod 100 \<noteq> 0 \<or> Y mod 400 = 0) then 1 else 0) :: int"
  let ?d = "(Y - 1970) * 365 + ?l + moff ! nat (Mo - 1) + ?f + (D - 1)"
  have l: "0 \<le> (Y - 1970 - 1) div 4" "(Y - 1970 - 1) div 4 \<le> 66 div 4"
    using assms(1,2) by (simp_all only: pos_imp_zdiv_nonneg_iff zdiv_mono1)
  have "0 \<le> ?d" "?d \<le> 24837" using l moff_bounds [OF assms(3,4)] assms(1-6) by (simp_all split: if_splits)
  then have "in_long (?d * 86400) \<and> in_long (h * 3600) \<and> in_long (m * 60) \<and> in_long s \<and> in_long (?d * 86400 + h * 3600) \<and>
      in_long (?d * 86400 + h * 3600 + m * 60) \<and> in_long (?d * 86400 + h * 3600 + m * 60 + s)"
    using assms(7-) by (simp add: in_long_def)
  moreover have "0 < Y - 1970" using assms(1) by simp
  ultimately show ?thesis using assms(3,4) by (simp add: utc_to_unix_def Let_def)
qed

lemma scan_literals: "sscanf_ints (map ScanC p @ ds) (p @ s) = sscanf_ints ds s"
  by (induction p) simp_all

lemma parse_name:
  assumes "2020 \<le> Y" "Y \<le> 9999" "1 \<le> Mo" "Mo \<le> 12" "1 \<le> D" "D \<le> 31"
    and "0 \<le> h" "h < 24" "0 \<le> m" "m < 60" "0 \<le> s" "s < 60"
  shows "parse_rinex_filename_utc (''BASE_'' @ fmt_0d 4 Y @ fmt_0d 2 Mo @ fmt_0d 2 D @ ''_'' @ fmt_0d 2 h @ fmt_0d 2 m @
      fmt_0d 2 s @ ''.rnx'') = utc_to_unix Y Mo D h m s"
proof -
  let ?n = "fmt_0d 4 Y @ fmt_0d 2 Mo @ fmt_0d 2 D @ ''_'' @ fmt_0d 2 h @ fmt_0d 2 m @ fmt_0d 2 s @ ''.rnx''"
  have "CHR 0x00 \<notin> set (fmt_0d w i)" if "0 \<le> i" "i < 10 ^ w" "0 < w" for w i
    using fmt_0d_facts(2) [OF that] is_digit_facts(4) by blast
  then have "c_str (''BASE_'' @ ?n) = ''BASE_'' @ ?n" using assms by (intro c_str_id) simp
  moreover have "sscanf_ints filename_format (''BASE_'' @ ?n) = [Y, Mo, D, h, m, s]"
    unfolding filename_format_def scan_literals using assms by (simp add: scan_fmt_0d)
  ultimately show ?thesis using assms(1) by (simp add: parse_rinex_filename_utc_def)
qed

lemma basename_last:
  assumes "slash \<notin> set n" "CHR 0x00 \<notin> set (d @ n)" shows "path_basename (d @ [slash] @ n) = n"
proof -
  have "takeWhile (\<lambda>c. c \<noteq> slash) (rev n @ slash # rev d) = rev n @ takeWhile (\<lambda>c. c \<noteq> slash) (slash # rev d)"
    by (rule takeWhile_append2) (use assms(1) in auto)
  moreover have "c_str (d @ [slash] @ n) = d @ [slash] @ n" using assms(2) by (intro c_str_id) (auto simp: slash_def)
  ultimately show ?thesis by (simp add: path_basename_def)
qed


subsection \<open>What is selected\<close>

definition rawdata_path :: "string \<Rightarrow> string" where "rawdata_path name = kRawDataDir @ ''/'' @ name"

text \<open>A regular file with a time in its name, of which the hour with its margin meets the range with its margin.\<close>

definition overlaps :: "int \<Rightarrow> int \<Rightarrow> string \<times> d_type \<Rightarrow> bool" where
  "overlaps start until e \<longleftrightarrow> snd e = DtReg \<and>
     (\<exists>t. parse_rinex_filename_utc (fst e) = Some t \<and> 0 \<le> t \<and> t - 120 < until \<and> start < t + 3600 + 240)"

lemma select_found_eq:
  assumes "select_found start until es = Some found" "\<forall>(n, typ) \<in> set es. length n \<le> 255"
  shows "map snd found = map (\<lambda>e. rawdata_path (fst e)) (filter (overlaps start until) es)"
    and "\<forall>(t, p) \<in> set found. \<exists>n. p = rawdata_path n \<and> parse_rinex_filename_utc n = Some t"
proof -
  have "map snd found = map (\<lambda>e. rawdata_path (fst e)) (filter (overlaps start until) es) \<and>
    (\<forall>(t, p) \<in> set found. \<exists>n. p = rawdata_path n \<and> parse_rinex_filename_utc n = Some t)"
    using assms
  proof (induction es arbitrary: found)
    case (Cons e es)
    obtain n ty where e: "e = (n, ty)" by (rule prod.exhaust)
    have path: "take 279 (kRawDataDir @ ''/'' @ n) = rawdata_path n"
      using Cons.prems(2) by (simp add: e rawdata_path_def kRawDataDir_def)
    show ?case
    proof (cases "overlaps start until e")
      case True
      then obtain t rest where t: "parse_rinex_filename_utc n = Some t" "found = (t, rawdata_path n) # rest"
        "select_found start until es = Some rest"
        using Cons.prems(1) path by (auto simp: overlaps_def e kMargin_def kFileSpan_def)
      then show ?thesis using True Cons.IH [OF t(3)] Cons.prems(2) by (auto simp: e)
    next
      case False
      then have "select_found start until es = Some found"
        using Cons.prems(1) by (auto simp: overlaps_def e kMargin_def kFileSpan_def split: if_splits option.splits)
      then show ?thesis using False Cons.IH Cons.prems(2) by simp
    qed
  qed simp
  then show "map snd found = map (\<lambda>e. rawdata_path (fst e)) (filter (overlaps start until) es)"
    "\<forall>(t, p) \<in> set found. \<exists>n. p = rawdata_path n \<and> parse_rinex_filename_utc n = Some t" by blast+
qed

lemma list_all2_found:
  "\<forall>(t, p) \<in> set found. \<exists>n. p = rawdata_path n \<and> parse_rinex_filename_utc n = Some t \<Longrightarrow>
   list_all2 (\<lambda>p t. \<exists>n. p = rawdata_path n \<and> parse_rinex_filename_utc n = Some t) (map snd found) (map fst found)"
  by (induction found) auto


subsection \<open>Concrete runs\<close>

definition recordings :: ram_card where
  "recordings = [([''sdcard''], True, 0), ([''sdcard'', ''rawdata''], True, 0),
     ([''sdcard'', ''rawdata'', ''BASE_20260704_130000.rnx''], False, 9),
     ([''sdcard'', ''rawdata'', ''BASE_20260704_120000.rnx''], False, 9),
     ([''sdcard'', ''rawdata'', ''BASE_20260704_180000.rnx''], False, 9)]"

lemma recordings_names:
  "fs_readdir ram_vfs kRawDataDir recordings = Inr [(''BASE_20260704_130000.rnx'', DtReg),
     (''BASE_20260704_120000.rnx'', DtReg), (''BASE_20260704_180000.rnx'', DtReg)]"
  by code_simp

lemma recordings_found:
  "select_found 1783170000 1783173600 [(''BASE_20260704_130000.rnx'', DtReg),
     (''BASE_20260704_120000.rnx'', DtReg), (''BASE_20260704_180000.rnx'', DtReg)] =
   Some [(1783170000, rawdata_path ''BASE_20260704_130000.rnx''), (1783166400, rawdata_path ''BASE_20260704_120000.rnx'')]"
  by code_simp



end
