(* ===== verification/NumeralText.thy ===== *)
theory NumeralText
  imports CText
begin

text \<open>
  The numerals \<open>strtod\<close> reads, described as texts: white space, a sign, and decimal digits with an
  optional point and power of ten, or hexadecimal digits with an optional point and power of two.
  The lemmas show that whatever \<open>strtod\<close> reads to the last character, with a finite result and
  without \<open>ERANGE\<close>, is such a text, and that the result is its exact value rounded to a double.
\<close>

subsection \<open>Texts of numbers\<close>

text \<open>A power: the letter, an optional sign and at least one decimal digit; or nothing.\<close>

definition power_text :: "char set \<Rightarrow> string \<Rightarrow> int \<Rightarrow> bool" where
  "power_text letters text n \<longleftrightarrow> text = [] \<and> n = 0 \<or>
     (\<exists>e \<in> letters. \<exists>sign ds. text = e # sign @ ds \<and> ds \<noteq> [] \<and> (\<forall>d \<in> set ds. is_digit d) \<and>
        (sign \<in> {[], ''+''} \<and> n = int (digits_value 10 ds) \<or> sign = ''-'' \<and> n = - int (digits_value 10 ds)))"

text \<open>
  Digits, an optional point with more digits, at least one digit in all, and a power of \<open>radix\<close>;
  a digit after the point is worth \<open>bits\<close> powers less.
\<close>

definition magnitude_text :: "nat \<Rightarrow> real \<Rightarrow> int \<Rightarrow> char set \<Rightarrow> string \<Rightarrow> real \<Rightarrow> bool" where
  "magnitude_text base radix bits letters text a \<longleftrightarrow>
     (\<exists>whole point part power n. text = whole @ point @ part @ power \<and>
        (point = ''.'' \<or> point = [] \<and> part = []) \<and> whole @ part \<noteq> [] \<and>
        (\<forall>d \<in> set (whole @ part). is_digit_of base d) \<and> power_text letters power n \<and>
        a = real (digits_value base (whole @ part)) * radix powi (n - bits * int (length part)))"

definition numeral_text :: "string \<Rightarrow> real \<Rightarrow> bool" where
  "numeral_text text x \<longleftrightarrow>
     (\<exists>space sign body a. text = space @ sign @ body \<and> (\<forall>c \<in> set space. is_space c) \<and>
        sign \<in> {[], ''+'', ''-''} \<and>
        (magnitude_text 10 10 1 {CHR ''e'', CHR ''E''} body a \<or>
         (\<exists>digits. (body = ''0x'' @ digits \<or> body = ''0X'' @ digits) \<and>
            magnitude_text 16 2 4 {CHR ''p'', CHR ''P''} digits a)) \<and>
        fl64 a < double_overflow \<and> (fl64 a = 0 \<longrightarrow> a = 0) \<and>
        x = (if sign = ''-'' then - fl64 a else fl64 a))"

subsection \<open>What the scanners read\<close>

lemma scan_sign_text:
  assumes "scan_sign s = (neg, t)"
  shows "\<exists>sign. s = sign @ t \<and> sign \<in> {[], ''+'', ''-''} \<and> (neg \<longleftrightarrow> sign = ''-'')"
  using assms by (auto simp: scan_sign_def split: list.splits if_splits)

lemma scan_exponent_text:
  assumes "scan_exponent e1 e2 s = (n, rest)"
  shows "\<exists>power. s = power @ rest \<and> power_text {e1, e2} power n"
proof (cases "\<exists>c t. s = c # t \<and> (c = e1 \<or> c = e2) \<and> takeWhile is_digit (snd (scan_sign t)) \<noteq> []")
  case False
  then have "rest = s \<and> n = 0" using assms
    by (auto simp: scan_exponent_def Let_def case_prod_beta split: list.splits if_splits)
  then show ?thesis by (simp add: power_text_def)
next
  case True
  then obtain c t neg u where s: "s = c # t" "c = e1 \<or> c = e2" and u: "scan_sign t = (neg, u)"
    and ds: "takeWhile is_digit u \<noteq> []" by (metis prod.collapse)
  have n: "n = (if neg then - int (digits_value 10 (takeWhile is_digit u)) else int (digits_value 10 (takeWhile is_digit u)))"
    "rest = dropWhile is_digit u"
    using assms s(2) ds by (auto simp: scan_exponent_def s(1) u Let_def)
  obtain sign where sign: "t = sign @ u" "sign \<in> {[], ''+'', ''-''}" "neg \<longleftrightarrow> sign = ''-''"
    using scan_sign_text [OF u] by blast
  have "s = (c # sign @ takeWhile is_digit u) @ rest" by (simp add: s(1) sign(1) n(2))
  moreover have "\<forall>d \<in> set (takeWhile is_digit u). is_digit d" by (auto dest: set_takeWhileD)
  then have "power_text {e1, e2} (c # sign @ takeWhile is_digit u) n"
    unfolding power_text_def
    by (intro disjI2 bexI [of _ c] exI [of _ sign] exI [of _ "takeWhile is_digit u"]) (use s(2) sign(2,3) ds n(1) in auto)
  ultimately show ?thesis by blast
qed

lemma scan_magnitude_text:
  assumes "scan_magnitude base radix bits e1 e2 s = Some (a, [])"
  shows "magnitude_text base radix bits {e1, e2} s a"
proof -
  define whole where "whole = takeWhile (is_digit_of base) s"
  define t where "t = dropWhile (is_digit_of base) s"
  have s: "s = whole @ t" by (simp add: whole_def t_def)
  define split where "split = (case t of [] \<Rightarrow> ([], [], t) | c # t' \<Rightarrow>
      if c = CHR ''.'' then (''.'', takeWhile (is_digit_of base) t', dropWhile (is_digit_of base) t') else ([], [], t))"
  obtain point part u where p: "split = (point, part, u)" by (rule prod_cases3)
  have t: "t = point @ part @ u" "point = ''.'' \<or> point = [] \<and> part = []" "\<forall>d \<in> set part. is_digit_of base d"
    using p unfolding split_def by (auto split: list.splits if_splits dest: set_takeWhileD)
  obtain n where n: "scan_exponent e1 e2 u = (n, [])" "whole @ part \<noteq> []"
    "a = real (digits_value base (whole @ part)) * radix powi (n - bits * int (length part))"
    using assms p unfolding scan_magnitude_def Let_def whole_def [symmetric] t_def [symmetric] split_def
    by (auto split: list.splits if_splits prod.splits)
  obtain power where power: "u = power @ []" "power_text {e1, e2} power n" using scan_exponent_text [OF n(1)] by blast
  have "\<forall>d \<in> set (whole @ part). is_digit_of base d"
    using t(3) by (auto simp: whole_def dest: set_takeWhileD)
  moreover have "s = whole @ point @ part @ power" using s t(1) power(1) by simp
  ultimately show ?thesis unfolding magnitude_text_def using t(2) n(2,3) power(2) by blast
qed

lemma of_char_lower:
  "(of_char (lower c) :: nat) = (let n = of_char c in if 65 \<le> n \<and> n \<le> 90 then n + 32 else n)"
  by (simp add: lower_def Let_def)

lemma same_code: "c = d \<longleftrightarrow> (of_char c :: nat) = of_char d"
  by simp

lemma lower_0: "lower c = CHR ''0'' \<longleftrightarrow> c = CHR ''0''"
  unfolding same_code [of "lower c"] same_code [of c] of_char_lower by (auto simp: Let_def)

lemma lower_x: "lower c = CHR ''x'' \<longleftrightarrow> c = CHR ''x'' \<or> c = CHR ''X''"
  unfolding same_code [of "lower c"] same_code [of c] of_char_lower by (auto simp: Let_def)

lemma hex_prefix:
  assumes "starts_with (map lower t) ''0x''"
  shows "t = ''0x'' @ drop 2 t \<or> t = ''0X'' @ drop 2 t"
proof -
  obtain c d r where "t = c # d # r" using assms by (cases t; cases "tl t") (auto simp: starts_with_def)
  then show ?thesis using assms by (auto simp: starts_with_def lower_0 lower_x)
qed

lemma strtod_text:
  assumes "strtod text = Some r" "\<not> sd_erange r" "sd_rest r = []" "sd_value r = Finite x"
  shows "numeral_text (c_str text) x"
proof -
  obtain neg t where t: "scan_sign (skip_space (c_str text)) = (neg, t)" by (rule prod.exhaust)
  obtain sign where sign: "skip_space (c_str text) = sign @ t" "sign \<in> {[], ''+'', ''-''}" "neg \<longleftrightarrow> sign = ''-''"
    using scan_sign_text [OF t] by blast
  let ?space = "takeWhile is_space (c_str text)"
  have whole: "c_str text = ?space @ sign @ t" using sign(1) takeWhile_dropWhile_id [of is_space "c_str text"]
    by (simp add: skip_space_def)
  obtain a rest where r: "r = rounded_result neg a rest"
    and a: "starts_with (map lower t) ''0x'' \<and> scan_magnitude 16 2 4 (CHR ''p'') (CHR ''P'') (drop 2 t) = Some (a, rest) \<or>
      scan_magnitude 10 10 1 (CHR ''e'') (CHR ''E'') t = Some (a, rest)"
    using assms(1,4) unfolding strtod_def t by (auto simp: Let_def split: if_splits option.splits prod.splits)
  have rest: "rest = []" and x: "fl64 a < double_overflow" "fl64 a = 0 \<longrightarrow> a = 0"
    "x = (if sign = ''-'' then - fl64 a else fl64 a)"
    using assms(2-4) sign(3) unfolding r by (auto simp: rounded_result_def Let_def split: if_splits)
  have "magnitude_text 10 10 1 {CHR ''e'', CHR ''E''} t a \<or>
      (\<exists>digits. (t = ''0x'' @ digits \<or> t = ''0X'' @ digits) \<and> magnitude_text 16 2 4 {CHR ''p'', CHR ''P''} digits a)"
    using a hex_prefix scan_magnitude_text unfolding rest by blast
  then show ?thesis unfolding numeral_text_def using whole sign(2) x by (blast dest: set_takeWhileD)
qed

end
