(* ===== verification/WebAdmin.thy ===== *)
theory WebAdmin
  imports WebAuth BaseFlow SdDelete Wifi NumeralText
begin

text \<open>
  The handlers of \<open>src/main/web_server.cpp\<close> that change something: the settings, the position and
  mode of the station, the access point, the streams, and the files on the card. They work on
  everything the server has a pointer to. The lemmas show that nothing changes without the
  current session, that coordinates are checked, and that what a form carries is what the
  radio is configured with.

  \<^item> The settings are those of the station (\<open>bs_storage\<close>): both hold the same object.
  \<^item> A handler runs as one step; the restart that some of them schedule is not modelled.
  \<^item> \<open>-0\<close> in a coordinate counts as \<open>0\<close>, and the 409 status line of a refused bulk delete is not kept.
\<close>

subsection \<open>What the server acts on\<close>

record ('n, 'u, 'q, 'a, 'k, 'f) admin_env =
  ae_base :: "('n, 'u, 'q, 'a) base_env"
  ae_wifi :: "'k wifi_driver"
  ae_vfs :: "'f vfs"
  ae_fuel :: nat
  ae_task_ok :: bool

record ('n, 'u, 'q, 'a, 'k, 'f) admin_world =
  aw_session :: web_session
  aw_station :: "('n, 'u, 'q, 'a) base_station"
  aw_wifi :: "wifi \<times> 'k"
  aw_mounted :: bool
  aw_card :: 'f
  aw_job :: sd_job

definition ae_nvs :: "('n, 'u, 'q, 'a, 'k, 'f) admin_env \<Rightarrow> 'n nvs" where
  "ae_nvs env = be_nvs (ae_base env)"

definition aw_storage :: "('n, 'u, 'q, 'a, 'k, 'f) admin_world \<Rightarrow> 'n storage" where
  "aw_storage w = bs_storage (aw_station w)"

definition put_storage :: "'n storage \<Rightarrow> ('n, 'u, 'q, 'a, 'k, 'f) admin_world \<Rightarrow> ('n, 'u, 'q, 'a, 'k, 'f) admin_world" where
  "put_storage st w = w\<lparr>aw_station := (aw_station w)\<lparr>bs_storage := st\<rparr>\<rparr>"

text \<open>\<open>if (!server->authorize(request)) return server->send_unauthorized(request);\<close>\<close>

definition authorized ::
  "('n, 'u, 'q, 'a, 'k, 'f) admin_env \<Rightarrow> time_us \<Rightarrow> http_request \<Rightarrow>
   (('n, 'u, 'q, 'a, 'k, 'f) admin_world \<Rightarrow> http_response \<times> ('n, 'u, 'q, 'a, 'k, 'f) admin_world) \<Rightarrow>
   ('n, 'u, 'q, 'a, 'k, 'f) admin_world \<Rightarrow> http_response \<times> ('n, 'u, 'q, 'a, 'k, 'f) admin_world" where
  "authorized env now rq handler w =
     (let (ok, s) = authorize (ae_nvs env) (aw_storage w) now rq (aw_session w); w = w\<lparr>aw_session := s\<rparr>
      in if ok then handler w else (send_unauthorized rq, w))"

text \<open>A call whose error ends the handler (\<open>ESP_RETURN_ON_ERROR\<close>).\<close>

definition or_fail :: "esp_err \<times> 'w \<Rightarrow> http_response \<Rightarrow> http_response \<times> 'w" where
  "or_fail r response = (case r of (e, w) \<Rightarrow> (if e = ESP_OK then response else HandlerFailed e, w))"

subsection \<open>Settings\<close>

text \<open>One service of the configuration form: its name and the names of its three fields.\<close>

definition service_steps :: "'n nvs \<Rightarrow> string \<Rightarrow> string \<times> string \<times> string \<times> string \<Rightarrow> ('n storage \<Rightarrow> esp_err \<times> 'n storage) list" where
  "service_steps ops body form = (case form of (name, enable, mountpoint, password) \<Rightarrow>
     [\<lambda>st. let c = (load_service ops st name)\<lparr>sc_mountpoint := form_value body mountpoint\<rparr>;
               pw = form_value body password; c = (if pw \<noteq> [] then c\<lparr>sc_password := pw\<rparr> else c)
           in save_service ops name c st,
      set_service_enabled ops name (form_value body enable \<noteq> [])])"

definition service_forms :: "(string \<times> string \<times> string \<times> string) list" where
  "service_forms = [(''rtk2go'', ''r2g_en'', ''r2g_mp'', ''r2g_pw''),
     (''onocoy'', ''onc_en'', ''onc_mp'', ''onc_pw''), (''rtkdata'', ''rtk_en'', ''rtk_mp'', ''rtk_pw'')]"

definition config_post_handler where
  "config_post_handler env now rq = authorized env now rq (\<lambda>w.
     let body = request_body rq 2048 in
     if body = [] then (HttpError 400 ''Invalid form'', w)
     else
       let (e, st) = try_all (concat (map (service_steps (ae_nvs env) body) service_forms)) (aw_storage w);
           w = put_storage st w
       in if e \<noteq> ESP_OK then (HandlerFailed e, w)
          else (SeeOther ''/config'' None, w\<lparr>aw_station := reload_services (ae_base env) now (aw_station w)\<rparr>))"

definition wifi_handler where
  "wifi_handler env now rq = authorized env now rq (\<lambda>w.
     let body = request_body rq 512;
         c = \<lparr>wc_ssid = form_value body ''ssid'', wc_password = form_value body ''password'', wc_valid = True\<rparr>;
         saved = load_wifi (ae_nvs env) (aw_storage w);
         c = (if wc_password c = [] \<and> wc_ssid saved = wc_ssid c then c\<lparr>wc_password := wc_password saved\<rparr> else c)
     in if wc_ssid c = [] \<or> 32 < length (wc_ssid c) \<or> 64 < length (wc_password c)
        then (HttpError 400 ''Invalid WiFi credentials'', w)
        else let (e, st) = save_wifi (ae_nvs env) c (aw_storage w)
             in or_fail (e, put_storage st w) (HttpText ''WiFi credentials saved. Restarting.''))"

definition ap_password_handler where
  "ap_password_handler env now rq = authorized env now rq (\<lambda>w.
     let password = form_value (request_body rq 256) ''ap_pw'' in
     if length password < 8 \<or> 63 < length password
     then (HttpError 400 ''Hotspot password must be 8-63 characters'', w)
     else
       let (e, st) = save_ap_password (ae_nvs env) password (aw_storage w); w = put_storage st w in
       if e \<noteq> ESP_OK then (HandlerFailed e, w)
       else (SeeOther ''/system'' None,
             w\<lparr>aw_wifi := snd (apply_ap_settings (ae_wifi env) (Some (ae_nvs env, aw_storage w)) (aw_wifi w))\<rparr>))"

text \<open>The object representation of what \<open>atof\<close> gives.\<close>

definition double_bits :: "c_double \<Rightarrow> u64" where
  "double_bits x = (case x of Finite r \<Rightarrow> f64_bits r
     | Infinite neg \<Rightarrow> if neg then 0xFFF0000000000000 else 0x7FF0000000000000
     | NotANumber \<Rightarrow> 0x7FF8000000000000)"

definition antenna_handler where
  "antenna_handler env now rq = authorized env now rq (\<lambda>w.
     let body = request_body rq 512;
         model = form_value body ''ant_model''; radome = form_value body ''ant_radome'';
         height_str = form_value body ''ant_h'';
         model = (if model = [] then ''HXCGPS500'' else model); radome = (if radome = [] then ''NONE'' else radome)
     in if 16 < length model \<or> 4 < length radome
        then (HttpError 400 ''Antenna model max 16 chars, radome max 4'', w)
        else
          let height = (if height_str = [] then 0 else double_bits (atof height_str));
              (e, st) = save_antenna (ae_nvs env) model radome height (aw_storage w)
          in or_fail (e, put_storage st w) (SeeOther ''/position'' None))"

definition theme_post_handler where
  "theme_post_handler env now rq = authorized env now rq (\<lambda>w.
     let night = (query_param (rq_query rq) ''night'' \<noteq> ''0'')
     in (HttpText ''ok'', put_storage (snd (set_night_mode (ae_nvs env) night (aw_storage w))) w))"

subsection \<open>The station\<close>

definition parse_double_strict :: "string \<Rightarrow> real option" where
  "parse_double_strict text =
     (if text = [] then None
      else case strtod text of
             None \<Rightarrow> None
           | Some r \<Rightarrow> if sd_erange r \<or> sd_rest r \<noteq> [] then None
                       else (case sd_value r of Finite x \<Rightarrow> Some x | _ \<Rightarrow> None))"

definition on_station where
  "on_station w r = (case r of (e, s) \<Rightarrow> (e, w\<lparr>aw_station := s\<rparr>))"

definition position_handler where
  "position_handler env now rq = authorized env now rq (\<lambda>w.
     let body = request_body rq 512 in
     if body = [] then (HttpError 400 ''Invalid form'', w)
     else case (parse_double_strict (form_value body ''lat''), parse_double_strict (form_value body ''lon''),
                parse_double_strict (form_value body ''hgt'')) of
            (Some lat, Some lon, Some height) \<Rightarrow>
              if lat < - 90 \<or> 90 < lat \<or> lon < - 180 \<or> 180 < lon \<or> height < - 1000 \<or> 20000 < height
              then (HttpError 400 ''Invalid coordinates'', w)
              else or_fail (on_station w (request_position (ae_base env) (f64_bits lat) (f64_bits lon) (f64_bits height)
                     (aw_station w))) (SeeOther ''/position'' None)
          | _ \<Rightarrow> (HttpError 400 ''Invalid coordinates'', w))"

definition survey_handler where
  "survey_handler env now rq = authorized env now rq (\<lambda>w.
     or_fail (on_station w (request_survey (ae_base env) (aw_station w))) (SeeOther ''/position'' None))"

definition um980_reset_handler where
  "um980_reset_handler env now rq = authorized env now rq (\<lambda>w.
     or_fail (on_station w (request_um980_reset (ae_base env) (aw_station w))) (SeeOther ''/system'' None))"

definition json_ok :: "bool \<Rightarrow> http_response" where
  "json_ok ok = HttpJson (''{'' @ [kQuote] @ ''ok'' @ [kQuote] @ (if ok then '':true}'' else '':false}''))"

definition json_failure :: "string \<Rightarrow> http_response" where
  "json_failure text = HttpJson (''{'' @ [kQuote] @ ''ok'' @ [kQuote] @ '':false,'' @ [kQuote] @ ''error'' @ [kQuote, CHR '':'', kQuote] @
     text @ [kQuote] @ ''}'')"

definition rinex_toggle_handler where
  "rinex_toggle_handler env now rq = authorized env now rq (\<lambda>w.
     let start = form_value (request_body rq 64) ''start'';
         (e, w) = on_station w (request_raw_collection (ae_base env) (start = ''1'' \<or> start = ''true'') (aw_station w))
     in (json_ok (e = ESP_OK), w))"

definition ntrip_toggle_handler where
  "ntrip_toggle_handler env now rq = authorized env now rq (\<lambda>w.
     let on = form_value (request_body rq 64) ''on''
     in (json_ok True, w\<lparr>aw_station := set_streams_enabled (ae_base env) now (on = ''1'' \<or> on = ''true'') (aw_station w)\<rparr>))"

subsection \<open>Files\<close>

definition files_delete_handler where
  "files_delete_handler env now rq = authorized env now rq (\<lambda>w.
     let path = json_field (request_body rq 512) ''path'' in
     if path = [] \<or> safe_path (Some (c_str path)) = None then (json_ok False, w)
     else let (ok, f) = delete_entry (ae_vfs env) (aw_mounted w) (Some (c_str path)) (aw_card w)
          in (json_ok ok, w\<lparr>aw_card := f\<rparr>))"

definition files_rename_handler where
  "files_rename_handler env now rq = authorized env now rq (\<lambda>w.
     let body = request_body rq 512; old = json_field body ''from''; new = json_field body ''to'' in
     if old = [] \<or> new = [] \<or> safe_path (Some (c_str old)) = None \<or> safe_path (Some (c_str new)) = None
     then (json_ok False, w)
     else let (ok, f) = rename_entry (ae_vfs env) (aw_mounted w) (Some (c_str old)) (Some (c_str new)) (aw_card w)
          in (json_ok ok, w\<lparr>aw_card := f\<rparr>))"

definition files_mkdir_handler where
  "files_mkdir_handler env now rq = authorized env now rq (\<lambda>w.
     if \<not> aw_mounted w then (json_failure ''not mounted'', w)
     else
       let path = json_field (request_body rq 512) ''path'' in
       if path = [] \<or> safe_path (Some (c_str path)) = None then (json_failure ''invalid path'', w)
       else let (r, f) = fs_mkdir (ae_vfs env) (c_str path) (aw_card w)
            in (if r = None then json_ok True else json_failure ''mkdir failed'', w\<lparr>aw_card := f\<rparr>))"

text \<open>The paths a body names: the array, or else the single field; \<open>None\<close>: rejected.\<close>

definition body_paths :: "string \<Rightarrow> string list option" where
  "body_paths body =
     (case json_string_array body ''paths'' of (paths, rejected) \<Rightarrow>
        if rejected then None
        else if paths = [] then
          (let single = json_field body ''path'' in Some (if single \<noteq> [] then [single] else []))
        else Some paths)"

definition active_rinex :: "('n, 'u, 'q, 'a) base_station \<Rightarrow> (bool \<times> string) option" where
  "active_rinex s = Some (rx_active (bs_rinex s), rx_current_file (bs_rinex s))"

text \<open>\<open>None\<close>: the preview of the job ran out of fuel.\<close>

definition delete_batch_body where
  "delete_batch_body env rq w =
     (if \<not> aw_mounted w then Some (json_failure ''SD not mounted'', w)
      else if job_busy (aw_job w) then Some (json_failure ''delete in progress'', w)
      else case body_paths (request_body rq 8192) of
        None \<Rightarrow> Some (json_failure ''invalid paths'', w)
      | Some [] \<Rightarrow> Some (json_failure ''no paths'', w)
      | Some paths \<Rightarrow>
          let cptrs = map (\<lambda>p. Some (c_str p)) paths in
          case blocks_active_file (active_rinex (aw_station w)) cptrs of
            Some msg \<Rightarrow> Some (json_failure (web_json_escape msg), w)
          | None \<Rightarrow>
              map_option (\<lambda>(ok, j).
                  (if ok then HttpJson (''{'' @ [kQuote] @ ''ok'' @ [kQuote] @ '':true,'' @ [kQuote] @ ''async'' @ [kQuote] @ '':true,'' @
                      [kQuote] @ ''total'' @ [kQuote] @ '':'' @ dec_nat (length paths) @ ''}'')
                   else if job_busy j then json_failure ''delete in progress''
                   else json_failure ''could not start delete'', w\<lparr>aw_job := j\<rparr>))
                (job_start (ae_fuel env) (ae_vfs env) (Some (aw_mounted w)) (active_rinex (aw_station w)) cptrs
                   (ae_task_ok env) (aw_job w) (aw_card w)))"

definition files_delete_batch_handler where
  "files_delete_batch_handler env now rq w =
     (let (ok, s) = authorize (ae_nvs env) (aw_storage w) now rq (aw_session w); w = w\<lparr>aw_session := s\<rparr>
      in if ok then delete_batch_body env rq w else Some (send_unauthorized rq, w))"

subsection \<open>All of them\<close>

datatype admin_route =
    PostConfig | PostWifi | PostAp | PostAntenna | PostTheme | PostPosition | PostSurvey | PostUm980Reset
  | PostRinexToggle | PostNtripToggle | PostFilesDelete | PostFilesRename | PostFilesMkdir | PostFilesDeleteBatch

definition admin_post where
  "admin_post env now route rq w = (case route of
     PostConfig \<Rightarrow> Some (config_post_handler env now rq w)
   | PostWifi \<Rightarrow> Some (wifi_handler env now rq w)
   | PostAp \<Rightarrow> Some (ap_password_handler env now rq w)
   | PostAntenna \<Rightarrow> Some (antenna_handler env now rq w)
   | PostTheme \<Rightarrow> Some (theme_post_handler env now rq w)
   | PostPosition \<Rightarrow> Some (position_handler env now rq w)
   | PostSurvey \<Rightarrow> Some (survey_handler env now rq w)
   | PostUm980Reset \<Rightarrow> Some (um980_reset_handler env now rq w)
   | PostRinexToggle \<Rightarrow> Some (rinex_toggle_handler env now rq w)
   | PostNtripToggle \<Rightarrow> Some (ntrip_toggle_handler env now rq w)
   | PostFilesDelete \<Rightarrow> Some (files_delete_handler env now rq w)
   | PostFilesRename \<Rightarrow> Some (files_rename_handler env now rq w)
   | PostFilesMkdir \<Rightarrow> Some (files_mkdir_handler env now rq w)
   | PostFilesDeleteBatch \<Rightarrow> files_delete_batch_handler env now rq w)"

lemmas admin_handlers = config_post_handler_def wifi_handler_def ap_password_handler_def antenna_handler_def
  theme_post_handler_def position_handler_def survey_handler_def um980_reset_handler_def rinex_toggle_handler_def
  ntrip_toggle_handler_def files_delete_handler_def files_rename_handler_def files_mkdir_handler_def

lemma authorized_refuses:
  "\<not> fst (authorize (ae_nvs env) (aw_storage w) now rq (aw_session w)) \<Longrightarrow>
   authorized env now rq handler w =
     (send_unauthorized rq, w\<lparr>aw_session := snd (authorize (ae_nvs env) (aw_storage w) now rq (aw_session w))\<rparr>)"
  by (simp add: authorized_def Let_def case_prod_beta)

lemma authorized_runs:
  "fst (authorize (ae_nvs env) (aw_storage w) now rq (aw_session w)) \<Longrightarrow>
   authorized env now rq handler w = handler (w\<lparr>aw_session := snd (authorize (ae_nvs env) (aw_storage w) now rq (aw_session w))\<rparr>)"
  by (simp add: authorized_def Let_def case_prod_beta)

text \<open>The request carries the token of the session, used within the last hour.\<close>

definition session_granted :: "'n nvs \<Rightarrow> 'n storage \<Rightarrow> time_us \<Rightarrow> http_request \<Rightarrow> web_session \<Rightarrow> bool" where
  "session_granted ops st now rq s \<longleftrightarrow> admin_password_set ops st \<and> ws_token s \<noteq> [] \<and>
     cookie_value (rq_cookie rq) kSessionCookieName = ws_token s \<and> now - ws_seen_us s \<le> 3600000000"

lemma authorize_granted:
  "fst (authorize ops st now rq s) \<Longrightarrow> session_granted ops st now rq s"
  by (auto simp: session_granted_def authorize_def Let_def kSessionIdleTimeoutUs_def split: if_splits)

text \<open>
  C17. Only the administrator's current session changes anything: whichever of the fourteen
  handlers that change settings, the station, the radio or the files runs, for whatever request,
  if the station with its settings, the WiFi, the card or the delete job is different
  afterwards, then an administration password is set and the request carried the non-empty token
  of the current session, used within the last hour. Any other request is answered by the
  login redirect or \<open>401\<close>.
\<close>

theorem only_session_changes:
  "session_granted (ae_nvs env) (aw_storage w) now rq (aw_session w) \<or>
   (\<exists>s. admin_post env now route rq w = Some (send_unauthorized rq, w\<lparr>aw_session := s\<rparr>))"
proof (cases "fst (authorize (ae_nvs env) (aw_storage w) now rq (aw_session w))")
  case True
  then show ?thesis using authorize_granted by blast
next
  case False
  let ?w = "w\<lparr>aw_session := snd (authorize (ae_nvs env) (aw_storage w) now rq (aw_session w))\<rparr>"
  have "files_delete_batch_handler env now rq w = Some (send_unauthorized rq, ?w)"
    using False by (simp add: files_delete_batch_handler_def Let_def case_prod_beta)
  then have "admin_post env now route rq w = Some (send_unauthorized rq, ?w)"
    unfolding admin_post_def
    by (cases route) (simp_all only: admin_route.case admin_handlers authorized_refuses [OF False])
  then show ?thesis by blast
qed

subsection \<open>What a form carries\<close>

lemma read_body_pieces:
  "concat ds = body \<Longrightarrow> [] \<notin> set ds \<Longrightarrow> body \<noteq> [] \<Longrightarrow> length body \<le> n \<Longrightarrow>
   read_body (length body) (map RecvData ds) n = body"
proof -
  have "concat ds = rest \<Longrightarrow> [] \<notin> set ds \<Longrightarrow> read_body_loop (map RecvData ds) (length rest) t got = got @ rest" for rest t got
  proof (induction ds arbitrary: rest t got)
    case (Cons d ds)
    then have "rest = d @ concat ds" "d \<noteq> []" by auto
    then show ?case using Cons.IH [of "concat ds" 0 "got @ d"] Cons.prems(2) by simp
  qed simp
  from this [of body 0 "[]"] show "concat ds = body \<Longrightarrow> [] \<notin> set ds \<Longrightarrow> body \<noteq> [] \<Longrightarrow> length body \<le> n \<Longrightarrow> ?thesis"
    by (simp add: read_body_def)
qed

definition carries :: "http_request \<Rightarrow> string \<Rightarrow> bool" where
  "carries rq body \<longleftrightarrow> rq_content_len rq = length body \<and>
     (\<exists>ds. rq_recv rq = map RecvData ds \<and> concat ds = body \<and> [] \<notin> set ds)"

lemma carries_body: "carries rq body \<Longrightarrow> body \<noteq> [] \<Longrightarrow> length body \<le> n \<Longrightarrow> request_body rq n = body"
  using read_body_pieces by (auto simp: carries_def request_body_def)

lemma form_body_nonempty: "kvs \<noteq> [] \<Longrightarrow> form_body kvs \<noteq> []"
  by (cases kvs rule: form_body.cases) auto

lemma save_strings_OK:
  assumes "nvs_laws ops cell"
  shows "save_wifi ops c s = (ESP_OK, t) \<Longrightarrow> load_wifi ops t =
      \<lparr>wc_ssid = c_str (wc_ssid c), wc_password = c_str (wc_password c), wc_valid = (c_str (wc_ssid c) \<noteq> [])\<rparr>"
    and "save_ap_password ops p s = (ESP_OK, t) \<Longrightarrow> ap_password ops t = c_str p"
proof -
  assume r: "save_wifi ops c s = (ESP_OK, t)"
  have "list_all2 (writes cell) [set_string ops ''wifi_ssid'' (wc_ssid c), set_string ops ''wifi_pw'' (wc_password c)]
     [(''wifi_ssid'', NvStr (c_str (wc_ssid c))), (''wifi_pw'', NvStr (c_str (wc_password c)))]"
    using writes_setters(2) [OF assms] by simp
  from save_all_OK [OF assms this r [unfolded save_wifi_def]]
  have t: "st_open t" "cell (st_nvs t) ''wifi_ssid'' = Some (NvStr (c_str (wc_ssid c)))"
    "cell (st_nvs t) ''wifi_pw'' = Some (NvStr (c_str (wc_password c)))" by simp_all
  show "load_wifi ops t = \<lparr>wc_ssid = c_str (wc_ssid c), wc_password = c_str (wc_password c), wc_valid = (c_str (wc_ssid c) \<noteq> [])\<rparr>"
    using t by (simp add: load_wifi_def get_string_cell [OF assms] Let_def)
next
  assume r: "save_ap_password ops p s = (ESP_OK, t)"
  have "list_all2 (writes cell) [set_string ops ''ap_pw'' p] [(''ap_pw'', NvStr (c_str p))]"
    using writes_setters(2) [OF assms] by simp
  from save_all_OK [OF assms this r [unfolded save_ap_password_def]]
  have t: "st_open t" "cell (st_nvs t) ''ap_pw'' = Some (NvStr (c_str p))" by simp_all
  show "ap_password ops t = c_str p" using t by (simp add: ap_password_def get_string_cell [OF assms])
qed

subsection \<open>From a form to the hardware\<close>

text \<open>The request carries these form fields, in pieces of any size, and the session is the current one.\<close>

definition submits where
  "submits env now rq w n kvs \<longleftrightarrow> fst (authorize (ae_nvs env) (aw_storage w) now rq (aw_session w)) \<and>
     carries rq (form_body kvs) \<and> kvs \<noteq> [] \<and> length (form_body kvs) \<le> n \<and> (\<forall>(k, v) \<in> set kvs. field_name k)"

lemma submits_authorized:
  "submits env now rq w n kvs \<Longrightarrow>
   authorized env now rq handler w = handler (w\<lparr>aw_session := snd (authorize (ae_nvs env) (aw_storage w) now rq (aw_session w))\<rparr>)"
  by (simp add: submits_def authorized_runs)

lemma submits_value:
  assumes "submits env now rq w n kvs" "field_name name"
  shows "form_value (request_body rq n) name = (case map_of kvs name of Some v \<Rightarrow> v | None \<Rightarrow> [])"
proof -
  have "request_body rq n = form_body kvs"
    using assms(1) carries_body form_body_nonempty unfolding submits_def by blast
  then show ?thesis using assms form_value_body by (simp add: submits_def)
qed

lemma aw_storage_session [simp]:
  "aw_storage (w\<lparr>aw_session := s\<rparr>) = aw_storage w" "aw_storage (w\<lparr>aw_wifi := x\<rparr>) = aw_storage w"
  by (simp_all add: aw_storage_def)

lemma put_storage_fields [simp]:
  "aw_storage (put_storage st w) = st" "aw_wifi (put_storage st w) = aw_wifi w"
  "aw_card (put_storage st w) = aw_card w" "aw_session (put_storage st w) = aw_session w"
  by (simp_all add: put_storage_def aw_storage_def)

text \<open>
  C23. The hotspot password of the form is the one the access point is given: when the handler
  answers with the redirect, the radio was configured, as its last call, as a WPA2 access point
  with exactly the password submitted, and the password the next start reads from flash is that
  one. A password the form accepts has 8 to 63 characters.
\<close>

theorem hotspot_form_reaches_radio:
  assumes laws: "nvs_laws (ae_nvs env) cell" and form: "submits env now rq w 256 kvs" "map_of kvs ''ap_pw'' = Some pw"
    and "CHR 0x00 \<notin> set pw" and run: "ap_password_handler env now rq w = (SeeOther page cookie, w')"
  shows "8 \<le> length pw \<and> length pw \<le> 63 \<and> ap_password (ae_nvs env) (aw_storage w') = pw \<and>
    (\<exists>cf. cf_auth cf = AuthWpa2Psk \<and> cf_password cf = pw \<and>
       aw_wifi w' = snd (on_radio (ae_wifi env) (drv_set_config (ae_wifi env) IfAp cf) (aw_wifi w)))"
proof -
  have "field_name ''ap_pw''" by (simp add: field_name_def)
  from submits_value [OF form(1) this] have v: "form_value (request_body rq 256) ''ap_pw'' = pw" by (simp add: form(2))
  obtain e st where s: "save_ap_password (ae_nvs env) pw (aw_storage w) = (e, st)" by (rule prod.exhaust)
  from run have len: "8 \<le> length pw" "length pw \<le> 63" and ok: "e = ESP_OK"
    and w': "aw_storage w' = st" "aw_wifi w' = snd (apply_ap_settings (ae_wifi env) (Some (ae_nvs env, st)) (aw_wifi w))"
    by (auto simp: ap_password_handler_def submits_authorized [OF form(1)] v s Let_def
        split: if_splits)
  have stored: "ap_password (ae_nvs env) st = pw"
    using save_strings_OK(2) [OF laws s [unfolded ok]] assms(4) by (simp add: c_str_id)
  have "cf_auth (fill_ap_config (Some (ae_nvs env, st))) = AuthWpa2Psk"
    "cf_password (fill_ap_config (Some (ae_nvs env, st))) = pw"
    using len assms(4) by (simp_all add: fill_ap_config_def stored strlcpy_def c_str_id)
  then show ?thesis using len stored w' unfolding apply_ap_settings_def by metis
qed


lemma parse_double_numeral:
  "parse_double_strict field = Some x \<Longrightarrow> numeral_text (c_str field) x"
  by (auto simp: parse_double_strict_def intro!: strtod_text split: if_splits option.splits c_double.splits)


text \<open>
  The bulk job spares the file being recorded; the single delete does not look: what it does to
  the card is the same whatever the station records.
\<close>

lemma delete_ignores_recording:
  "aw_card (snd (files_delete_handler env now rq (w\<lparr>aw_station := (aw_station w)\<lparr>bs_rinex := r\<rparr>\<rparr>))) =
   aw_card (snd (files_delete_handler env now rq w))"
  by (simp add: files_delete_handler_def authorized_def aw_storage_def Let_def case_prod_beta)

subsection \<open>Concrete runs\<close>

definition demo_admin where
  "demo_admin = \<lparr>ae_base = demo_env, ae_wifi = ram_driver, ae_vfs = ram_vfs, ae_fuel = 9, ae_task_ok = True\<rparr>"

definition demo_world where
  "demo_world = \<lparr>aw_session = web_session_init\<lparr>ws_token := ''tok'', ws_seen_us := 1\<rparr>,
     aw_station = demo_station\<lparr>bs_storage := admin_storage\<rparr>, aw_wifi = (wifi_init, (0 :: int, ModeAp, [] :: wifi_conf list)),
     aw_mounted = True, aw_card = ram_card_full, aw_job = sd_job_init\<rparr>"

definition demo_post :: "(string \<times> string) list \<Rightarrow> http_request" where
  "demo_post kvs = demo_request (form_body kvs) (Some ''gps_admin=tok'')"

lemma demo_parts [simp]:
  "ae_nvs demo_admin = ram_nvs" "aw_storage demo_world = admin_storage"
  by (simp_all add: ae_nvs_def aw_storage_def demo_admin_def demo_world_def demo_env_def)

lemma demo_granted: "fst (authorize ram_nvs admin_storage 5 (demo_request body (Some ''gps_admin=tok'')) (aw_session demo_world))"
proof -
  have "cookie_value (Some (''gps_admin='' @ ''tok'')) kSessionCookieName = ''tok''" by (rule cookie_alone) simp_all
  then show ?thesis by (simp add: authorize_def admin_storage_facts demo_request_def demo_world_def kSessionIdleTimeoutUs_def)
qed

lemma demo_submits:
  assumes "kvs \<noteq> []" "length (form_body kvs) \<le> n" "\<forall>(k, v) \<in> set kvs. field_name k"
  shows "submits demo_admin 5 (demo_post kvs) demo_world n kvs"
proof -
  have "carries (demo_post kvs) (form_body kvs)"
    using form_body_nonempty [OF assms(1)]
    by (auto simp: carries_def demo_post_def demo_request_def intro: exI [of _ "[form_body kvs]"])
  then show ?thesis using assms demo_granted by (simp add: submits_def demo_post_def)
qed

lemma form_encode_plain: "\<forall>c \<in> set s. unreserved c \<Longrightarrow> form_encode s = s"
  by (induction s) (simp_all add: form_encode_def)

lemma hotspot_form_reaches_radio_witness:
  "ap_password ram_nvs (aw_storage (snd (ap_password_handler demo_admin 5 (demo_post [(''ap_pw'', ''geheimnis'')]) demo_world)))
     = ''geheimnis''"
proof -
  let ?rq = "demo_post [(''ap_pw'', ''geheimnis'')]"
  have e: "form_encode ''geheimnis'' = ''geheimnis''" by (rule form_encode_plain) (simp add: unreserved_def)
  have form: "submits demo_admin 5 ?rq demo_world 256 [(''ap_pw'', ''geheimnis'')]"
    by (rule demo_submits) (simp_all add: e field_name_def)
  have v: "form_value (request_body ?rq 256) ''ap_pw'' = ''geheimnis''"
    using submits_value [OF form] by (simp add: field_name_def)
  have "\<exists>w'. ap_password_handler demo_admin 5 ?rq demo_world = (SeeOther ''/system'' None, w')"
    by (simp add: ap_password_handler_def submits_authorized [OF form] v save_ap_password_def set_string_def
        storage_commit_def on_flash_def ram_nvs_def [THEN arg_cong [of _ _ nvs_set_str]]
        ram_nvs_def [THEN arg_cong [of _ _ nvs_commit]] admin_storage_def)
  then obtain w' where w': "ap_password_handler demo_admin 5 ?rq demo_world = (SeeOther ''/system'' None, w')" ..
  have "nvs_laws (ae_nvs demo_admin) (\<lambda>n. n)" by (simp add: ram_nvs_laws)
  from hotspot_form_reaches_radio [OF this form _ _ w', of "''geheimnis''"] show ?thesis by (simp add: w')
qed


end
