(* ===== verification/WebExport.thy ===== *)
theory WebExport
  imports WebSelect WebAdmin
begin

text \<open>
  The export of recorded files (\<open>rinex_export_handler\<close> of \<open>src/main/web_server.cpp\<close>): the check
  of each header, and the stream of the first header, patched, with all observations. The
  lemmas show that what a client receives is the file one would get by cutting the recordings
  into lines and putting them together.

  \<^item> What \<open>fopen\<close> and reading a file give is a parameter: the text, and whether reading ends in
    an error. \<open>httpd_resp_send_chunk\<close> is a parameter; a chunk of no bytes ends the response.
  \<^item> The pauses between chunks, the send time-out and the log are not modelled, of the response
    headers none.
\<close>

subsection \<open>Reading lines\<close>

definition newline :: char where "newline = CHR 0x0A"

record text_file =
  tf_text :: string
  tf_error :: bool

text \<open>\<open>fgets(line, n, file)\<close>: the characters, those left, and whether the end of the file was met; \<open>None\<close>: null.\<close>

definition fgets :: "nat \<Rightarrow> string \<Rightarrow> (string \<times> string \<times> bool) option" where
  "fgets n s =
     (if s = [] then None
      else let pre = takeWhile (\<lambda>c. c \<noteq> newline) s;
               k = min (n - 1) (if length pre < length s then length pre + 1 else length pre)
           in Some (take k s, drop k s, pre = s \<and> length s < n - 1))"

lemma fgets_shorter: "fgets n s = Some (l, r, e) \<Longrightarrow> 1 < n \<Longrightarrow> length r < length s"
  by (cases s) (auto simp: fgets_def Let_def split: if_splits)

definition rinex_label_equals :: "string \<Rightarrow> string \<Rightarrow> bool" where
  "rinex_label_equals line label = (60 \<le> length line \<and> starts_with (drop 60 line) label)"

definition kRinexHeaderScanLimit :: nat where "kRinexHeaderScanLimit = 64 * 1024"
definition kRinexHeaderLineLimit :: nat where "kRinexHeaderLineLimit = 512"

datatype header_scan =
    Rejected string
  | Scanned (scan_version: bool) (scan_end: bool) (scan_last_obs: "string option") (scan_eof: bool)

function check_lines :: "string \<Rightarrow> nat \<Rightarrow> nat \<Rightarrow> bool \<Rightarrow> string option \<Rightarrow> header_scan" where
  "check_lines s scanned lines ver last_obs =
     (case fgets 192 s of
        None \<Rightarrow> Scanned ver False last_obs True
      | Some (buf, r, eof) \<Rightarrow>
          let line = c_str buf; len = length line; lines = lines + 1; scanned = scanned + len in
          if len = 191 \<and> line ! 190 \<noteq> newline then Rejected '': header line too long''
          else
            let ver = (ver \<or> rinex_label_equals line ''RINEX VERSION / TYPE'');
                last_obs = (if rinex_label_equals line ''TIME OF LAST OBS'' then Some (take 60 line) else last_obs)
            in if rinex_label_equals line ''END OF HEADER'' then Scanned ver True last_obs eof
               else if kRinexHeaderScanLimit < scanned \<or> kRinexHeaderLineLimit < lines
               then Rejected '': header is too long''
               else check_lines r scanned lines ver last_obs)"
  by pat_completeness auto
termination by (relation "measure (\<lambda>(s, _). length s)") (auto dest: fgets_shorter)

declare check_lines.simps [simp del]

record header_check =
  hc_ok :: bool
  hc_size :: u32
  hc_last_obs :: "string option"
  hc_error :: string

definition check_rinex_header :: "'f vfs \<Rightarrow> (string \<Rightarrow> 'f \<Rightarrow> text_file option) \<Rightarrow> 'f \<Rightarrow> string \<Rightarrow> header_check" where
  "check_rinex_header v open_text f path =
     (let failed = (\<lambda>bytes last_obs e. \<lparr>hc_ok = False, hc_size = bytes, hc_last_obs = last_obs, hc_error = path_basename path @ e\<rparr>)
      in case fs_stat v (c_str path) f of
           Inl _ \<Rightarrow> failed 0 None '': file is missing or empty''
         | Inr (is_dir, bytes) \<Rightarrow>
             if is_dir \<or> bytes = 0 then failed 0 None '': file is missing or empty''
             else case open_text (c_str path) f of
                    None \<Rightarrow> failed (ucast bytes) None '': open failed''
                  | Some file \<Rightarrow>
                      (case check_lines (tf_text file) 0 0 False None of
                         Rejected e \<Rightarrow> failed (ucast bytes) None e
                       | Scanned ver ended last_obs eof \<Rightarrow>
                           if eof \<and> tf_error file then failed (ucast bytes) last_obs '': read failed''
                           else if \<not> ver then failed (ucast bytes) last_obs '': missing RINEX header''
                           else if \<not> ended then failed (ucast bytes) last_obs '': missing END OF HEADER''
                           else \<lparr>hc_ok = True, hc_size = ucast bytes, hc_last_obs = last_obs, hc_error = []\<rparr>))"

subsection \<open>The stream\<close>

definition kRinexExportMaxChunkBytes :: nat where "kRinexExportMaxChunkBytes = 2048"
definition kRinexExportSmallBytes :: u32 where "kRinexExportSmallBytes = 1024 * 1024"
definition kRinexExportLargeBytes :: u32 where "kRinexExportLargeBytes = 4 * 1024 * 1024"

text \<open>The size of the chunks and the pause after each, in milliseconds.\<close>

definition rinex_export_pacing :: "u32 \<Rightarrow> nat \<times> nat" where
  "rinex_export_pacing total_bytes =
     (if total_bytes \<le> kRinexExportSmallBytes then (kRinexExportMaxChunkBytes, 10)
      else if total_bytes \<le> kRinexExportLargeBytes then (1024, 50) else (1024, 150))"

definition patches :: "string \<Rightarrow> string \<Rightarrow> bool" where
  "patches value line = (value \<noteq> [] \<and> 76 \<le> length line \<and> starts_with (drop 60 line) ''TIME OF LAST OBS'')"

definition patch_line :: "string \<Rightarrow> string \<Rightarrow> string" where
  "patch_line value line =
     (if patches value line
      then value @ ''TIME OF LAST OBS    '' @
        (if 2 \<le> length line \<and> line ! (length line - 2) = CHR 0x0D then crlf else [newline])
      else line)"

text \<open>The header of the first file: an error or what is left of the file, and whether its end was met.\<close>

function stream_header :: "(string \<Rightarrow> 's \<Rightarrow> esp_err \<times> 's) \<Rightarrow> string \<Rightarrow> string \<Rightarrow> 's \<Rightarrow> (esp_err + string \<times> bool) \<times> 's" where
  "stream_header chunk value s w =
     (case fgets kRinexExportMaxChunkBytes s of
        None \<Rightarrow> (Inr ([], True), w)
      | Some (buf, r, eof) \<Rightarrow>
          let line = c_str buf; (e, w) = chunk (patch_line value line) w in
          if e \<noteq> ESP_OK then (Inl (if patches value line then ESP_FAIL else e), w)
          else if rinex_label_equals line ''END OF HEADER'' then (Inr (r, eof), w)
          else stream_header chunk value r w)"
  by pat_completeness auto
termination
  by (relation "measure (\<lambda>(_, _, s, _). length s)") (auto dest: fgets_shorter simp: kRinexExportMaxChunkBytes_def)

declare stream_header.simps [simp del]

function skip_header :: "string \<Rightarrow> (string \<times> bool) option \<times> bool" where
  "skip_header s =
     (case fgets kRinexExportMaxChunkBytes s of
        None \<Rightarrow> (None, True)
      | Some (buf, r, eof) \<Rightarrow>
          if rinex_label_equals (c_str buf) ''END OF HEADER'' then (Some (r, eof), eof) else skip_header r)"
  by pat_completeness auto
termination by (relation "measure length") (auto dest: fgets_shorter simp: kRinexExportMaxChunkBytes_def)

declare skip_header.simps [simp del]

text \<open>\<open>fread\<close> and send, until nothing is left.\<close>

function stream_rest :: "(string \<Rightarrow> 's \<Rightarrow> esp_err \<times> 's) \<Rightarrow> nat \<Rightarrow> string \<Rightarrow> 's \<Rightarrow> esp_err \<times> 's" where
  "stream_rest chunk n s w =
     (if s = [] \<or> n = 0 then (ESP_OK, w)
      else let (e, w) = chunk (take n s) w in
        if e \<noteq> ESP_OK then (e, w) else stream_rest chunk n (drop n s) w)"
  by pat_completeness auto
termination by (relation "measure (\<lambda>(_, _, s, _). length s)") auto

declare stream_rest.simps [simp del]

definition stream_first :: "(string \<Rightarrow> 's \<Rightarrow> esp_err \<times> 's) \<Rightarrow> nat \<Rightarrow> string \<Rightarrow> text_file \<Rightarrow> 's \<Rightarrow> esp_err \<times> 's" where
  "stream_first chunk n value file w =
     (case stream_header chunk value (tf_text file) w of
        (Inl e, w) \<Rightarrow> (e, w)
      | (Inr (r, eof), w) \<Rightarrow>
          if eof \<and> tf_error file then (ESP_FAIL, w)
          else let (e, w) = stream_rest chunk n r w
               in (if e \<noteq> ESP_OK then e else if tf_error file then ESP_FAIL else ESP_OK, w))"

definition stream_next :: "(string \<Rightarrow> 's \<Rightarrow> esp_err \<times> 's) \<Rightarrow> nat \<Rightarrow> text_file \<Rightarrow> 's \<Rightarrow> esp_err \<times> 's" where
  "stream_next chunk n file w =
     (case skip_header (tf_text file) of (past, eof) \<Rightarrow>
        if eof \<and> tf_error file then (ESP_FAIL, w)
        else case past of
               None \<Rightarrow> (ESP_OK, w)
             | Some (r, _) \<Rightarrow>
                 let (e, w) = stream_rest chunk n r w
                 in (if e \<noteq> ESP_OK then e else if tf_error file then ESP_FAIL else ESP_OK, w))"

text \<open>The files in turn; the flag: the header is sent. The last chunk ends the response.\<close>

fun stream_files ::
  "(string \<Rightarrow> 's \<Rightarrow> esp_err \<times> 's) \<Rightarrow> (string \<Rightarrow> text_file option) \<Rightarrow> nat \<Rightarrow> string \<Rightarrow> bool \<Rightarrow> string list \<Rightarrow> 's \<Rightarrow> esp_err \<times> 's" where
  "stream_files chunk open_text n value header_sent [] w = chunk [] w"
| "stream_files chunk open_text n value header_sent (p # ps) w =
     (case open_text (c_str p) of
        None \<Rightarrow> (ESP_FAIL, w)
      | Some file \<Rightarrow>
          return_on_error (if header_sent then stream_next chunk n file w else stream_first chunk n value file w)
            (stream_files chunk open_text n value True ps))"

subsection \<open>The handler\<close>

datatype export_result = Answer http_response | Streamed esp_err

definition selected_active_rinex_file :: "string list \<Rightarrow> rinex_logger \<Rightarrow> bool" where
  "selected_active_rinex_file paths rx = (rx_active rx \<and> rx_current_file rx \<noteq> [] \<and> rx_current_file rx \<in> set paths)"

definition export_value :: "header_check list \<Rightarrow> string" where
  "export_value checks = (case find (\<lambda>c. hc_last_obs c \<noteq> None) (rev checks) of None \<Rightarrow> [] | Some c \<Rightarrow> the (hc_last_obs c))"

definition export_selected ::
  "'f vfs \<Rightarrow> (string \<Rightarrow> 'f \<Rightarrow> text_file option) \<Rightarrow> (string \<Rightarrow> 's \<Rightarrow> esp_err \<times> 's) \<Rightarrow> 'f \<Rightarrow> string list \<Rightarrow> 's \<Rightarrow> export_result \<times> 's" where
  "export_selected v open_text chunk f paths w =
     (let checks = map (check_rinex_header v open_text f) paths in
      case find (\<lambda>c. \<not> hc_ok c) checks of
        Some c \<Rightarrow> (Answer (HttpError 422 (c_str (hc_error c))), w)
      | None \<Rightarrow>
          let (e, w) = stream_files chunk (\<lambda>p. open_text p f) (fst (rinex_export_pacing (sum_list (map hc_size checks))))
                (export_value checks) False paths w
          in (Streamed e, w))"

text \<open>\<open>None\<close>: the computation of a time is undefined.\<close>

definition rinex_export_handler where
  "rinex_export_handler env now open_text chunk rq w out =
     (let (ok, s) = authorize (ae_nvs env) (aw_storage w) now rq (aw_session w); w = w\<lparr>aw_session := s\<rparr> in
      if \<not> ok then Some (Answer (send_unauthorized rq), w, out)
      else
        let body = request_body rq 256 in
        if body = [] then Some (Answer (HttpError 400 ''No body''), w, out)
        else case (parse_datetime_input (json_field body ''start''), parse_datetime_input (json_field body ''end'')) of
               (Some start, Some until) \<Rightarrow>
                 if start < 0 \<or> until < 0 \<or> until \<le> start then Some (Answer (HttpError 400 ''Invalid time range''), w, out)
                 else (case select_rinex_files (ae_vfs env) (aw_card w) start until of
                         None \<Rightarrow> None
                       | Some paths \<Rightarrow>
                           if paths = [] then Some (Answer (HttpError 404 ''No RINEX files in range''), w, out)
                           else if selected_active_rinex_file paths (bs_rinex (aw_station w))
                           then Some (Answer (HttpError 409 (''Selected range includes the RINEX file currently being written. '' @
                             ''Stop RINEX logging or choose an earlier range.'')), w, out)
                           else let (r, out) = export_selected (ae_vfs env) open_text chunk (aw_card w) paths out
                                in Some (r, w, out))
             | _ \<Rightarrow> None)"

subsection \<open>The same by lines\<close>

fun text_lines :: "string \<Rightarrow> string list" where
  "text_lines [] = []"
| "text_lines (c # cs) =
     (if c = newline then [newline] # text_lines cs
      else case text_lines cs of [] \<Rightarrow> [[c]] | l # ls \<Rightarrow> (c # l) # ls)"

definition ends_header :: "string \<Rightarrow> bool" where "ends_header line = rinex_label_equals line ''END OF HEADER''"

definition header_of :: "string \<Rightarrow> string list" where
  "header_of text = (let ls = text_lines text in takeWhile (\<lambda>l. \<not> ends_header l) ls @ take 1 (dropWhile (\<lambda>l. \<not> ends_header l) ls))"

definition body_of :: "string \<Rightarrow> string" where
  "body_of text = concat (drop 1 (dropWhile (\<lambda>l. \<not> ends_header l) (text_lines text)))"

definition last_obs_of :: "string \<Rightarrow> string option" where
  "last_obs_of text = (case rev (filter (\<lambda>l. rinex_label_equals l ''TIME OF LAST OBS'') (header_of text)) of
     [] \<Rightarrow> None | l # _ \<Rightarrow> Some (take 60 l))"

definition newest_last_obs :: "string list \<Rightarrow> string" where
  "newest_last_obs texts = (case rev (filter (\<lambda>v. v \<noteq> None) (map last_obs_of texts)) of [] \<Rightarrow> [] | v # _ \<Rightarrow> the v)"

definition joined_files :: "string list \<Rightarrow> string" where
  "joined_files texts = concat (map (patch_line (newest_last_obs texts)) (header_of (hd texts))) @ concat (map body_of texts)"

lemma concat_text_lines [simp]: "concat (text_lines s) = s"
  by (induction s rule: text_lines.induct) (auto split: list.splits)

lemma text_lines_Nil [simp]: "text_lines s = [] \<longleftrightarrow> s = []"
  by (cases s) (auto split: list.splits)

text \<open>A line is everything up to its newline.\<close>

lemma text_lines_first:
  assumes "text_lines s = l # ls"
  shows "text_lines (concat ls) = ls" "s = l @ concat ls"
    "takeWhile (\<lambda>c. c \<noteq> newline) s = l \<and> ls = [] \<and> newline \<notin> set l \<or>
     l = takeWhile (\<lambda>c. c \<noteq> newline) s @ [newline]"
proof -
  have "text_lines (concat ls) = ls \<and> s = l @ concat ls \<and>
    (takeWhile (\<lambda>c. c \<noteq> newline) s = l \<and> ls = [] \<and> newline \<notin> set l \<or>
     l = takeWhile (\<lambda>c. c \<noteq> newline) s @ [newline])"
    using assms
  proof (induction s arbitrary: l ls)
    case (Cons c cs)
    show ?case
    proof (cases "c = newline")
      case True
      then show ?thesis using Cons.prems by auto
    next
      case False
      show ?thesis
      proof (cases "text_lines cs")
        case Nil
        then show ?thesis using Cons.prems False by auto
      next
        case (Cons k ks)
        then have "l = c # k" "ls = ks" using Cons.prems False by auto
        then show ?thesis using Cons.IH [OF Cons] False by auto
      qed
    qed
  qed simp
  then show "text_lines (concat ls) = ls" "s = l @ concat ls"
    "takeWhile (\<lambda>c. c \<noteq> newline) s = l \<and> ls = [] \<and> newline \<notin> set l \<or>
     l = takeWhile (\<lambda>c. c \<noteq> newline) s @ [newline]" by blast+
qed

lemma fgets_line:
  assumes "text_lines s = l # ls" "length l < n"
  shows "\<exists>e. fgets n s = Some (l, concat ls, e)"
proof -
  note t = text_lines_first [OF assms(1)]
  have s: "s \<noteq> []" using assms(1) by auto
  have len: "length s = length l + length (concat ls)" unfolding t(2) by simp
  from t(3) show ?thesis
  proof
    assume *: "takeWhile (\<lambda>c. c \<noteq> newline) s = l \<and> ls = [] \<and> newline \<notin> set l"
    then have l: "s = l" "ls = []" using t(2) by simp_all
    have tw: "takeWhile (\<lambda>c. c \<noteq> newline) l = l" by (rule takeWhile_eq_all_conv [THEN iffD2]) (use * in auto)
    show ?thesis using s assms(2) unfolding l fgets_def Let_def tw by simp
  next
    assume *: "l = takeWhile (\<lambda>c. c \<noteq> newline) s @ [newline]"
    then have "length (takeWhile (\<lambda>c. c \<noteq> newline) s) + 1 = length l" by simp
    then have k: "min (n - 1) (if length (takeWhile (\<lambda>c. c \<noteq> newline) s) < length s
        then length (takeWhile (\<lambda>c. c \<noteq> newline) s) + 1 else length (takeWhile (\<lambda>c. c \<noteq> newline) s)) = length l"
      using len assms(2) by auto
    have "take (length l) s = l" "drop (length l) s = concat ls" by (subst t(2), simp)+
    then show ?thesis using s unfolding fgets_def Let_def k by simp
  qed
qed

text \<open>A line of 191 characters or more without its newline within the buffer is cut at 191.\<close>

lemma fgets_cut:
  assumes "text_lines s = l # ls" "n - 1 < length l" "1 < n"
  shows "\<exists>r e. fgets n s = Some (take (n - 1) l, r, e) \<and> newline \<notin> set (take (n - 1) l)"
proof -
  note t = text_lines_first [OF assms(1)]
  have s: "s \<noteq> []" using assms(1) by auto
  have len: "length s = length l + length (concat ls)" unfolding t(2) by simp
  have "take (n - 1) s = take (n - 1) l" using assms(2) by (subst t(2)) simp
  moreover have "min (n - 1) (if length (takeWhile (\<lambda>c. c \<noteq> newline) s) < length s
        then length (takeWhile (\<lambda>c. c \<noteq> newline) s) + 1 else length (takeWhile (\<lambda>c. c \<noteq> newline) s)) = n - 1"
    using t(3) assms(2) len by auto
  moreover have "newline \<notin> set (take (n - 1) l)"
  proof -
    have "newline \<notin> set (take (n - 1) (takeWhile (\<lambda>c. c \<noteq> newline) s))" by (auto dest!: in_set_takeD set_takeWhileD)
    then show ?thesis using t(3) assms(2) by (auto dest: in_set_takeD)
  qed
  ultimately show ?thesis using s by (simp add: fgets_def Let_def)
qed

subsection \<open>What the check accepts\<close>

definition last_obs_in :: "string option \<Rightarrow> string list \<Rightarrow> string option" where
  "last_obs_in last_obs ls = (case rev (filter (\<lambda>l. rinex_label_equals l ''TIME OF LAST OBS'') ls) of
     [] \<Rightarrow> last_obs | l # _ \<Rightarrow> Some (take 60 l))"

lemma last_obs_in_Cons:
  "last_obs_in o1 (l # ls) = last_obs_in (if rinex_label_equals l ''TIME OF LAST OBS'' then Some (take 60 l) else o1) ls"
  by (cases "rev (filter (\<lambda>l. rinex_label_equals l ''TIME OF LAST OBS'') ls)") (simp_all add: last_obs_in_def)

lemma no_nul_lines: "CHR 0x00 \<notin> set s \<Longrightarrow> text_lines s = l # ls \<Longrightarrow> CHR 0x00 \<notin> set l \<and> CHR 0x00 \<notin> set (concat ls)"
  using text_lines_first(2) [of s l ls] by auto

text \<open>The lines up to the end of the header, none of them longer than the buffer of the check.\<close>

definition header_split :: "string \<Rightarrow> string list \<Rightarrow> string \<Rightarrow> string list \<Rightarrow> bool" where
  "header_split s pre l post \<longleftrightarrow> text_lines s = pre @ l # post \<and> ends_header l \<and> (\<forall>k \<in> set pre. \<not> ends_header k) \<and>
     (\<forall>k \<in> set (pre @ [l]). length k \<le> 191)"

lemma check_lines_step:
  assumes "check_lines s scanned lines ver o1 = Scanned v True o2 eof" "CHR 0x00 \<notin> set s" "text_lines s = l # ls"
  defines "o' \<equiv> (if rinex_label_equals l ''TIME OF LAST OBS'' then Some (take 60 l) else o1)"
  shows "length l \<le> 191"
    and "ends_header l \<and> o2 = o' \<or> \<not> ends_header l \<and>
      check_lines (concat ls) (scanned + length l) (lines + 1) (ver \<or> rinex_label_equals l ''RINEX VERSION / TYPE'') o' = Scanned v True o2 eof"
proof -
  have nul: "CHR 0x00 \<notin> set l" using no_nul_lines assms(2,3) by blast
  show short: "length l \<le> 191"
  proof (rule ccontr)
    assume "\<not> length l \<le> 191"
    then have long: "192 - 1 < length l" by simp
    obtain r e where cut: "fgets 192 s = Some (take 191 l, r, e)" "newline \<notin> set (take 191 l)"
      using fgets_cut [OF assms(3) long] by auto
    have "c_str (take 191 l) = take 191 l" using nul by (intro c_str_id) (auto dest: in_set_takeD)
    moreover have len: "length (take 191 l) = 191" using long by simp
    moreover have "take 191 l ! 190 \<in> set (take 191 l)" by (rule nth_mem) (simp only: len)
    then have "take 191 l ! 190 \<noteq> newline" using cut(2) by metis
    ultimately show False using assms(1) by (subst (asm) check_lines.simps) (simp add: cut(1) Let_def)
  qed
  obtain e where line: "fgets 192 s = Some (l, concat ls, e)" using fgets_line [OF assms(3), of 192] short by auto
  show "ends_header l \<and> o2 = o' \<or> \<not> ends_header l \<and>
      check_lines (concat ls) (scanned + length l) (lines + 1) (ver \<or> rinex_label_equals l ''RINEX VERSION / TYPE'') o' = Scanned v True o2 eof"
    using assms(1) by (subst (asm) check_lines.simps) (auto simp: line c_str_id [OF nul] o'_def ends_header_def Let_def split: if_splits)
qed

lemma check_lines_ok:
  assumes "check_lines s scanned lines ver o1 = Scanned v True o2 eof" "CHR 0x00 \<notin> set s"
  shows "\<exists>pre l post. header_split s pre l post \<and> o2 = last_obs_in o1 (pre @ [l])"
  using assms
proof (induction "text_lines s" arbitrary: s scanned lines ver o1)
  case Nil
  then have "s = []" by (metis text_lines_Nil)
  then show ?case using Nil.prems(1) by (subst (asm) check_lines.simps) (simp add: fgets_def)
next
  case (Cons l ls)
  note ls = Cons.hyps(2) [symmetric]
  note step = check_lines_step [OF Cons.prems ls]
  let ?o = "if rinex_label_equals l ''TIME OF LAST OBS'' then Some (take 60 l) else o1"
  from step(2) show ?case
  proof (elim disjE conjE)
    assume "ends_header l" "o2 = ?o"
    then have "header_split s [] l ls \<and> o2 = last_obs_in o1 ([] @ [l])"
      using step(1) ls by (simp add: header_split_def last_obs_in_Cons) (simp add: last_obs_in_def)
    then show ?thesis by blast
  next
    assume no: "\<not> ends_header l"
      and rest: "check_lines (concat ls) (scanned + length l) (lines + 1) (ver \<or> rinex_label_equals l ''RINEX VERSION / TYPE'') ?o = Scanned v True o2 eof"
    have "CHR 0x00 \<notin> set (concat ls)" using no_nul_lines [OF Cons.prems(2) ls] by blast
    from Cons.hyps(1) [OF text_lines_first(1) [OF ls, symmetric] rest this]
    obtain pre k post where "header_split (concat ls) pre k post" "o2 = last_obs_in ?o (pre @ [k])" by blast
    then have "header_split s (l # pre) k post \<and> o2 = last_obs_in o1 ((l # pre) @ [k])"
      using no step(1) ls text_lines_first(1) [OF ls] by (simp add: header_split_def last_obs_in_Cons)
    then show ?thesis by blast
  qed
qed

lemma header_split_parts:
  assumes "header_split s pre l post"
  shows "header_of s = pre @ [l]" "body_of s = concat post" "last_obs_of s = last_obs_in None (pre @ [l])"
proof -
  have "takeWhile (\<lambda>l. \<not> ends_header l) (text_lines s) = pre" "dropWhile (\<lambda>l. \<not> ends_header l) (text_lines s) = l # post"
    using assms by (simp_all add: header_split_def takeWhile_append dropWhile_append)
  then show "header_of s = pre @ [l]" "body_of s = concat post"
    by (simp_all add: header_of_def body_of_def Let_def)
  then show "last_obs_of s = last_obs_in None (pre @ [l])" by (simp add: last_obs_of_def last_obs_in_def)
qed

subsection \<open>What the client receives\<close>

text \<open>A chunk the server reports as sent is appended to what the client receives.\<close>

definition chunk_laws :: "(string \<Rightarrow> 's \<Rightarrow> esp_err \<times> 's) \<Rightarrow> ('s \<Rightarrow> string) \<Rightarrow> bool" where
  "chunk_laws chunk received \<longleftrightarrow> (\<forall>d w w'. chunk d w = (ESP_OK, w') \<longrightarrow> received w' = received w @ d)"

lemma stream_rest_ok:
  assumes "chunk_laws chunk received" "0 < n"
  shows "stream_rest chunk n s w = (ESP_OK, w') \<Longrightarrow> received w' = received w @ s"
proof (induction s arbitrary: w rule: length_induct)
  case (1 s)
  show ?case
  proof (cases "s = []")
    case True
    then show ?thesis using 1(2) by (subst (asm) stream_rest.simps) simp
  next
    case False
    obtain e v where c: "chunk (take n s) w = (e, v)" by (rule prod.exhaust)
    then have e: "e = ESP_OK" and rest: "stream_rest chunk n (drop n s) v = (ESP_OK, w')"
      using 1(2) False assms(2) by (subst (asm) stream_rest.simps; simp split: if_splits)+
    have "received v = received w @ take n s" using assms(1) c e by (auto simp: chunk_laws_def)
    moreover have "received w' = received v @ drop n s" using 1(1) rest False assms(2) by simp
    ultimately show ?thesis by simp
  qed
qed

lemma header_split_Cons:
  assumes "header_split s (k # pre) l post"
  shows "text_lines s = k # (pre @ l # post)" "\<not> ends_header k" "length k < kRinexExportMaxChunkBytes"
    "header_split (concat (pre @ l # post)) pre l post"
proof -
  show t: "text_lines s = k # (pre @ l # post)" "\<not> ends_header k" "length k < kRinexExportMaxChunkBytes"
    using assms by (auto simp: header_split_def kRinexExportMaxChunkBytes_def)
  show "header_split (concat (pre @ l # post)) pre l post"
    using assms text_lines_first(1) [OF t(1)] by (simp add: header_split_def)
qed

lemma header_split_Nil:
  assumes "header_split s [] l post"
  shows "text_lines s = l # post" "ends_header l" "length l < kRinexExportMaxChunkBytes"
  using assms by (auto simp: header_split_def kRinexExportMaxChunkBytes_def)

lemma stream_header_ok:
  assumes "chunk_laws chunk received"
  shows "header_split s pre l post \<Longrightarrow> CHR 0x00 \<notin> set s \<Longrightarrow> stream_header chunk value s w = (Inr (r, eof), w') \<Longrightarrow>
    r = concat post \<and> received w' = received w @ concat (map (patch_line value) (pre @ [l]))"
proof (induction pre arbitrary: s w)
  case Nil
  note h = header_split_Nil [OF Nil(1)]
  obtain e where g: "fgets kRinexExportMaxChunkBytes s = Some (l, concat post, e)" using fgets_line [OF h(1,3)] by blast
  have "c_str l = l" using no_nul_lines [OF Nil(2) h(1)] by (simp add: c_str_id)
  then show ?case using Nil(3) h(2) assms
    by (subst (asm) stream_header.simps) (auto simp: g ends_header_def chunk_laws_def split: prod.splits if_splits)
next
  case (Cons k pre)
  note h = header_split_Cons [OF Cons(2)]
  obtain e where g: "fgets kRinexExportMaxChunkBytes s = Some (k, concat (pre @ l # post), e)" using fgets_line [OF h(1,3)] by blast
  have nul: "c_str k = k" "CHR 0x00 \<notin> set (concat (pre @ l # post))"
    using no_nul_lines [OF Cons(3) h(1)] by (simp_all add: c_str_id)
  obtain c v where c: "chunk (patch_line value k) w = (c, v)" by (rule prod.exhaust)
  then have ok: "c = ESP_OK" and rest: "stream_header chunk value (concat (pre @ l # post)) v = (Inr (r, eof), w')"
    using Cons(4) h(2) by (subst (asm) stream_header.simps; simp add: g nul(1) ends_header_def split: if_splits)+
  have "received v = received w @ patch_line value k" using assms c ok by (auto simp: chunk_laws_def)
  then show ?case using Cons(1) [OF h(4) nul(2) rest] by simp
qed

lemma skip_header_ok: "header_split s pre l post \<Longrightarrow> CHR 0x00 \<notin> set s \<Longrightarrow> \<exists>e. skip_header s = (Some (concat post, e), e)"
proof (induction pre arbitrary: s)
  case Nil
  note h = header_split_Nil [OF Nil(1)]
  obtain e where g: "fgets kRinexExportMaxChunkBytes s = Some (l, concat post, e)" using fgets_line [OF h(1,3)] by blast
  have "c_str l = l" using no_nul_lines [OF Nil(2) h(1)] by (simp add: c_str_id)
  then show ?case using h(2) by (subst skip_header.simps) (simp add: g ends_header_def)
next
  case (Cons k pre)
  note h = header_split_Cons [OF Cons(2)]
  obtain e where g: "fgets kRinexExportMaxChunkBytes s = Some (k, concat (pre @ l # post), e)" using fgets_line [OF h(1,3)] by blast
  have nul: "c_str k = k" "CHR 0x00 \<notin> set (concat (pre @ l # post))"
    using no_nul_lines [OF Cons(3) h(1)] by (simp_all add: c_str_id)
  then show ?case using h(2) Cons(1) [OF h(4) nul(2)] by (subst skip_header.simps) (simp add: g ends_header_def)
qed

lemma stream_header_error: "stream_header chunk x s w = (Inl e, w') \<Longrightarrow> e \<noteq> ESP_OK"
proof (induction chunk x s w rule: stream_header.induct)
  case (1 chunk x s w)
  obtain buf r eof where g: "fgets kRinexExportMaxChunkBytes s = Some (buf, r, eof)"
    using 1(2) by (subst (asm) stream_header.simps) (auto split: option.splits)
  obtain c v where c: "chunk (patch_line x (c_str buf)) w = (c, v)" by (rule prod.exhaust)
  show ?case
  proof (cases "c = ESP_OK \<and> \<not> rinex_label_equals (c_str buf) ''END OF HEADER''")
    case True
    then have "stream_header chunk x r v = (Inl e, w')"
      using 1(2) by (subst (asm) stream_header.simps) (simp add: g c)
    then show ?thesis using 1(1) [OF g refl refl refl c [symmetric] refl] True by simp
  next
    case False
    then show ?thesis using 1(2) by (subst (asm) stream_header.simps) (auto simp: g c Let_def split: if_splits)
  qed
qed

lemma stream_first_ok:
  assumes "chunk_laws chunk received" "0 < n" "header_split (tf_text file) pre l post" "CHR 0x00 \<notin> set (tf_text file)"
    and "stream_first chunk n value file w = (ESP_OK, w')"
  shows "received w' = received w @ concat (map (patch_line value) (header_of (tf_text file))) @ body_of (tf_text file)"
proof -
  obtain r eof v where h: "stream_header chunk value (tf_text file) w = (Inr (r, eof), v)"
    and rest: "stream_rest chunk n r v = (ESP_OK, w')"
    using assms(5) by (auto simp: stream_first_def Let_def split: prod.splits sum.splits if_splits dest: stream_header_error)
  note s = stream_header_ok [OF assms(1,3,4) h]
  show ?thesis using stream_rest_ok [OF assms(1,2) rest] s header_split_parts [OF assms(3)] by simp
qed

lemma stream_next_ok:
  assumes "chunk_laws chunk received" "0 < n" "header_split (tf_text file) pre l post" "CHR 0x00 \<notin> set (tf_text file)"
    and "stream_next chunk n file w = (ESP_OK, w')"
  shows "received w' = received w @ body_of (tf_text file)"
proof -
  obtain e where "skip_header (tf_text file) = (Some (concat post, e), e)" using skip_header_ok [OF assms(3,4)] by blast
  then have "stream_rest chunk n (concat post) w = (ESP_OK, w')"
    using assms(5) by (auto simp: stream_next_def Let_def split: prod.splits if_splits)
  then show ?thesis using stream_rest_ok [OF assms(1,2)] header_split_parts(2) [OF assms(3)] by metis
qed

definition sound_file :: "(string \<Rightarrow> text_file option) \<Rightarrow> string \<Rightarrow> text_file \<Rightarrow> bool" where
  "sound_file open_text p file \<longleftrightarrow> open_text (c_str p) = Some file \<and> CHR 0x00 \<notin> set (tf_text file) \<and>
     (\<exists>pre l post. header_split (tf_text file) pre l post)"

lemma stream_next_files_ok:
  assumes "chunk_laws chunk received" "0 < n"
  shows "list_all2 (sound_file open_text) ps fs \<Longrightarrow> stream_files chunk open_text n value True ps w = (ESP_OK, w') \<Longrightarrow>
    received w' = received w @ concat (map (\<lambda>f. body_of (tf_text f)) fs)"
proof (induction ps fs arbitrary: w rule: list_all2_induct)
  case Nil
  then show ?case using assms(1) by (auto simp: chunk_laws_def)
next
  case (Cons p ps f fs)
  obtain pre l post where f: "open_text (c_str p) = Some f" "CHR 0x00 \<notin> set (tf_text f)" "header_split (tf_text f) pre l post"
    using Cons(1) by (auto simp: sound_file_def)
  obtain v where v: "stream_next chunk n f w = (ESP_OK, v)" "stream_files chunk open_text n value True ps v = (ESP_OK, w')"
    using Cons(4) by (auto simp: f(1) return_on_error_OK_iff)
  show ?case using stream_next_ok [OF assms f(3,2) v(1)] Cons(3) [OF v(2)] by simp
qed

lemma stream_files_ok:
  assumes "chunk_laws chunk received" "0 < n" "list_all2 (sound_file open_text) ps fs" "ps \<noteq> []"
    and "stream_files chunk open_text n value False ps w = (ESP_OK, w')"
  shows "received w' = received w @ concat (map (patch_line value) (header_of (tf_text (hd fs)))) @
    concat (map (\<lambda>f. body_of (tf_text f)) fs)"
proof -
  obtain p ps' f fs' where l: "ps = p # ps'" "fs = f # fs'" "sound_file open_text p f" "list_all2 (sound_file open_text) ps' fs'"
    using assms(3,4) by (cases ps; cases fs) auto
  obtain pre k post where f: "open_text (c_str p) = Some f" "CHR 0x00 \<notin> set (tf_text f)" "header_split (tf_text f) pre k post"
    using l(3) by (auto simp: sound_file_def)
  obtain v where v: "stream_first chunk n value f w = (ESP_OK, v)" "stream_files chunk open_text n value True ps' v = (ESP_OK, w')"
    using assms(5) by (auto simp: l(1) f(1) return_on_error_OK_iff)
  show ?thesis using stream_first_ok [OF assms(1,2) f(3,2) v(1)] stream_next_files_ok [OF assms(1,2) l(4) v(2)] by (simp add: l(2))
qed

lemma find_filter: "find P xs = (case filter P xs of [] \<Rightarrow> None | x # _ \<Rightarrow> Some x)"
  by (induction xs) auto

lemma check_ok_facts:
  assumes "hc_ok (check_rinex_header v open_text f p)" "open_text (c_str p) f = Some file" "CHR 0x00 \<notin> set (tf_text file)"
  shows "sound_file (\<lambda>p. open_text p f) p file"
    and "hc_last_obs (check_rinex_header v open_text f p) = last_obs_of (tf_text file)"
proof -
  obtain ver o2 eof where c: "check_lines (tf_text file) 0 0 False None = Scanned ver True o2 eof"
    and o2: "hc_last_obs (check_rinex_header v open_text f p) = o2"
    using assms(1,2) by (auto simp: check_rinex_header_def Let_def split: sum.splits prod.splits if_splits header_scan.splits)
  obtain pre l post where h: "header_split (tf_text file) pre l post" "o2 = last_obs_in None (pre @ [l])"
    using check_lines_ok [OF c assms(3)] by blast
  show "sound_file (\<lambda>p. open_text p f) p file" using assms(2,3) h(1) by (auto simp: sound_file_def)
  show "hc_last_obs (check_rinex_header v open_text f p) = last_obs_of (tf_text file)"
    using o2 h(2) header_split_parts(3) [OF h(1)] by simp
qed

text \<open>
  C19. An export is the recordings put together: whenever the handler reports success, what the
  client received is the header of the first file - with the time of the last observation taken
  from the last file that has one - followed by everything after the header of each file, in
  order, nothing twice and nothing lost at the edges of the buffers; for files without NUL that
  can be opened.
\<close>

theorem export_joins_files:
  assumes "chunk_laws chunk received" and "paths \<noteq> []"
    and "\<forall>p \<in> set paths. open_text (c_str p) f = Some (file p) \<and> CHR 0x00 \<notin> set (tf_text (file p))"
    and "export_selected v open_text chunk f paths w = (Streamed ESP_OK, w')"
  shows "received w' = received w @ joined_files (map (\<lambda>p. tf_text (file p)) paths)"
proof -
  let ?checks = "map (check_rinex_header v open_text f) paths" and ?texts = "map (\<lambda>p. tf_text (file p)) paths"
  let ?n = "fst (rinex_export_pacing (sum_list (map hc_size ?checks)))"
  from assms(4) have none: "find (\<lambda>c. \<not> hc_ok c) ?checks = None"
    and run: "stream_files chunk (\<lambda>p. open_text p f) ?n (export_value ?checks) False paths w = (ESP_OK, w')"
    by (auto simp: export_selected_def Let_def split: option.splits prod.splits)
  have ok: "hc_ok (check_rinex_header v open_text f p)" if "p \<in> set paths" for p
    using none that by (simp add: find_None_iff)
  note facts = check_ok_facts [OF ok]
  have sound: "list_all2 (sound_file (\<lambda>p. open_text p f)) paths (map file paths)"
    using facts(1) assms(3) by (auto simp: list_all2_conv_all_nth)
  have "map hc_last_obs ?checks = map last_obs_of ?texts" using facts(2) assms(3) by simp
  then have "map hc_last_obs (filter (\<lambda>c. hc_last_obs c \<noteq> None) ?checks) = filter (\<lambda>v. v \<noteq> None) (map last_obs_of ?texts)"
    by (metis (no_types, lifting) filter_map comp_apply filter_cong)
  then have vals: "map hc_last_obs (filter (\<lambda>c. hc_last_obs c \<noteq> None) (rev ?checks)) = rev (filter (\<lambda>v. v \<noteq> None) (map last_obs_of ?texts))"
    by (simp add: rev_filter [symmetric] rev_map [symmetric])
  have value_eq: "export_value ?checks = newest_last_obs ?texts"
    unfolding export_value_def newest_last_obs_def find_filter vals [symmetric]
    by (cases "filter (\<lambda>c. hc_last_obs c \<noteq> None) (rev ?checks)") simp_all
  have "0 < ?n" by (simp add: rinex_export_pacing_def kRinexExportMaxChunkBytes_def)
  from stream_files_ok [OF assms(1) this sound assms(2) run] assms(2) show ?thesis
    by (simp add: joined_files_def value_eq hd_map comp_def)
qed

subsection \<open>When it succeeds\<close>

text \<open>The other direction: a header within the limits is accepted, and a stream in which nothing fails succeeds.\<close>

lemma check_lines_complete:
  assumes "header_split s pre l post" "CHR 0x00 \<notin> set s" "\<forall>k \<in> set (pre @ [l]). last k = newline"
    and "scanned + length (concat pre) \<le> 65536" "lines + length pre \<le> 512"
  shows "\<exists>e. check_lines s scanned lines ver o1 =
    Scanned (ver \<or> (\<exists>k \<in> set (pre @ [l]). rinex_label_equals k ''RINEX VERSION / TYPE'')) True (last_obs_in o1 (pre @ [l])) e"
  using assms
proof (induction pre arbitrary: s scanned lines ver o1)
  case Nil
  note h = header_split_Nil [OF Nil(1)]
  have len: "length l < 192" using Nil(1) by (auto simp: header_split_def)
  obtain e where g: "fgets 192 s = Some (l, concat post, e)" using fgets_line [OF h(1) len] by blast
  have nul: "c_str l = l" using no_nul_lines [OF Nil(2) h(1)] by (simp add: c_str_id)
  have "l ! 190 = newline" if "length l = 191" using Nil(3) that by (cases "l = []") (simp_all add: last_conv_nth)
  then show ?case using h(2)
    by (subst check_lines.simps) (auto simp: g nul ends_header_def Let_def last_obs_in_Cons last_obs_in_def)
next
  case (Cons k pre)
  note h = header_split_Cons [OF Cons(2)]
  have len: "length k < 192" using Cons(2) by (auto simp: header_split_def)
  obtain e where g: "fgets 192 s = Some (k, concat (pre @ l # post), e)" using fgets_line [OF h(1) len] by blast
  have nul: "c_str k = k" "CHR 0x00 \<notin> set (concat (pre @ l # post))"
    using no_nul_lines [OF Cons(3) h(1)] by (simp_all add: c_str_id)
  have full: "k ! 190 = newline" if "length k = 191" using Cons(4) that by (cases "k = []") (simp_all add: last_conv_nth)
  have "scanned + length k + length (concat pre) \<le> 65536" "lines + 1 + length pre \<le> 512" using Cons(5,6) by simp_all
  note IH = Cons(1) [OF h(4) nul(2) _ this, of "ver \<or> rinex_label_equals k ''RINEX VERSION / TYPE''"
    "if rinex_label_equals k ''TIME OF LAST OBS'' then Some (take 60 k) else o1"]
  have "check_lines s scanned lines ver o1 = check_lines (concat (pre @ l # post)) (scanned + length k) (lines + 1)
      (ver \<or> rinex_label_equals k ''RINEX VERSION / TYPE'') (if rinex_label_equals k ''TIME OF LAST OBS'' then Some (take 60 k) else o1)"
    using full h(2) Cons(5,6)
    by (subst check_lines.simps)
      (auto simp: g nul(1) ends_header_def Let_def kRinexHeaderScanLimit_def kRinexHeaderLineLimit_def)
  then show ?case using IH Cons(4) by (auto simp: last_obs_in_Cons)
qed

lemma stream_rest_accepted: "\<forall>d w. fst (chunk d w) = ESP_OK \<Longrightarrow> fst (stream_rest chunk n s w) = ESP_OK"
proof (induction chunk n s w rule: stream_rest.induct)
  case (1 chunk n s w)
  obtain v where c: "chunk (take n s) w = (ESP_OK, v)" using 1(2) by (metis prod.collapse)
  show ?case
  proof (cases "s = [] \<or> n = 0")
    case False
    then show ?thesis using 1(1) [OF False c [symmetric]] 1(2) by (subst stream_rest.simps) (simp add: c)
  qed (subst stream_rest.simps, simp)
qed

lemma stream_header_accepted:
  "\<forall>d w. fst (chunk d w) = ESP_OK \<Longrightarrow> \<exists>r e. fst (stream_header chunk x s w) = Inr (r, e)"
proof (induction chunk x s w rule: stream_header.induct)
  case (1 chunk x s w)
  show ?case
  proof (cases "fgets kRinexExportMaxChunkBytes s")
    case None
    then show ?thesis by (auto simp: stream_header.simps [of chunk x s w])
  next
    case (Some g)
    obtain buf r e where g: "g = (buf, r, e)" by (rule prod_cases3)
    obtain v where c: "chunk (patch_line x (c_str buf)) w = (ESP_OK, v)" using 1(2) by (metis prod.collapse)
    show ?thesis
    proof (cases "rinex_label_equals (c_str buf) ''END OF HEADER''")
      case True
      then show ?thesis by (subst stream_header.simps) (simp add: Some g c)
    next
      case False
      have "\<exists>r e. fst (stream_header chunk x (fst (snd g)) v) = Inr (r, e)"
        using 1(1) [OF _ _ _ refl c [symmetric]] Some False 1(2) by (simp add: g)
      then show ?thesis using False by (subst stream_header.simps) (simp add: Some g c)
    qed
  qed
qed

lemma stream_files_accepted:
  assumes "\<forall>d w. fst (chunk d w) = ESP_OK" "\<forall>p \<in> set ps. \<exists>t. open_text (c_str p) = Some \<lparr>tf_text = t, tf_error = False\<rparr>"
  shows "fst (stream_files chunk open_text n x sent ps w) = ESP_OK"
  using assms(2)
proof (induction ps arbitrary: sent w)
  case Nil
  then show ?case using assms(1) by simp
next
  case (Cons p ps)
  obtain t where t: "open_text (c_str p) = Some \<lparr>tf_text = t, tf_error = False\<rparr>" using Cons(2) by auto
  obtain r e v where h: "stream_header chunk x t w = (Inr (r, e), v)"
    using stream_header_accepted [OF assms(1)] by (metis prod.collapse)
  have "fst (stream_first chunk n x \<lparr>tf_text = t, tf_error = False\<rparr> w) = ESP_OK"
    "fst (stream_next chunk n \<lparr>tf_text = t, tf_error = False\<rparr> w) = ESP_OK"
    using stream_rest_accepted [OF assms(1)]
    by (auto simp: stream_first_def stream_next_def h Let_def case_prod_beta split: option.splits prod.splits)
  then show ?case using Cons.IH Cons(2) by (auto simp: t return_on_error_def split: prod.splits)
qed

subsection \<open>Concrete runs\<close>

definition demo_line :: "string \<Rightarrow> string \<Rightarrow> string" where
  "demo_line value label = take 60 (value @ replicate 60 (CHR '' '')) @ label @ [newline]"

definition demo_recording :: "string \<Rightarrow> string \<Rightarrow> string" where
  "demo_recording time body = demo_line ''3.03'' ''RINEX VERSION / TYPE'' @ demo_line time ''TIME OF LAST OBS    '' @
     demo_line [] ''END OF HEADER'' @ body"

definition demo_open :: "string \<Rightarrow> ram_card \<Rightarrow> text_file option" where
  "demo_open p f = Some \<lparr>tf_text = (if p = rawdata_path ''BASE_20260704_120000.rnx'' then demo_recording ''12'' ''A''
     else demo_recording ''13'' ''B''), tf_error = False\<rparr>"

definition demo_chunk :: "string \<Rightarrow> string \<Rightarrow> esp_err \<times> string" where
  "demo_chunk d w = (ESP_OK, w @ d)"

definition demo_paths :: "string list" where
  "demo_paths = [rawdata_path ''BASE_20260704_120000.rnx'', rawdata_path ''BASE_20260704_130000.rnx'']"

lemma demo_lines:
  "text_lines (demo_recording ''12'' ''A'') = [demo_line ''3.03'' ''RINEX VERSION / TYPE'', demo_line ''12'' ''TIME OF LAST OBS    '',
     demo_line [] ''END OF HEADER'', ''A'']"
  "text_lines (demo_recording ''13'' ''B'') = [demo_line ''3.03'' ''RINEX VERSION / TYPE'', demo_line ''13'' ''TIME OF LAST OBS    '',
     demo_line [] ''END OF HEADER'', ''B'']"
  by code_simp+

lemma demo_joined:
  "joined_files [demo_recording ''12'' ''A'', demo_recording ''13'' ''B''] = demo_recording ''13'' ''A'' @ ''B''"
  by code_simp

lemma demo_headers:
  "\<exists>e. check_lines (demo_recording ''12'' ''A'') 0 0 False None = Scanned True True (Some (take 60 (demo_line ''12'' []))) e"
  "\<exists>e. check_lines (demo_recording ''13'' ''B'') 0 0 False None = Scanned True True (Some (take 60 (demo_line ''13'' []))) e"
proof -
  let ?v = "demo_line ''3.03'' ''RINEX VERSION / TYPE''" and ?l = "demo_line [] ''END OF HEADER''"
  have labels: "\<not> ends_header ?v" "ends_header ?l" "rinex_label_equals ?v ''RINEX VERSION / TYPE''"
    "\<not> rinex_label_equals ?v ''TIME OF LAST OBS''" "\<not> rinex_label_equals ?l ''TIME OF LAST OBS''"
    "length ?v = 81" "length ?l = 74" "last ?v = newline" "last ?l = newline" by code_simp+
  have t: "\<not> ends_header (demo_line t ''TIME OF LAST OBS    '') \<and>
      rinex_label_equals (demo_line t ''TIME OF LAST OBS    '') ''TIME OF LAST OBS'' \<and>
      length (demo_line t ''TIME OF LAST OBS    '') = 81 \<and> last (demo_line t ''TIME OF LAST OBS    '') = newline \<and>
      take 60 (demo_line t ''TIME OF LAST OBS    '') = take 60 (demo_line t [])" if "t = ''12'' \<or> t = ''13''" for t
    using that by (elim disjE; hypsubst) code_simp+
  have scan: "\<exists>e. check_lines s 0 0 False None = Scanned True True (Some (take 60 (demo_line t []))) e"
    if lines: "text_lines s = [?v, demo_line t ''TIME OF LAST OBS    '', ?l, r]" and nul: "CHR 0x00 \<notin> set s"
      and which: "t = ''12'' \<or> t = ''13''" for s t r
  proof -
    have split: "header_split s [?v, demo_line t ''TIME OF LAST OBS    ''] ?l [r]"
      using labels t [OF which] by (simp add: header_split_def lines)
    show ?thesis using check_lines_complete [OF split nul, of 0 0 False None] labels t [OF which]
      by (simp add: last_obs_in_def)
  qed
  have nul: "CHR 0x00 \<notin> set (demo_recording ''12'' ''A'')" "CHR 0x00 \<notin> set (demo_recording ''13'' ''B'')" by code_simp+
  show "\<exists>e. check_lines (demo_recording ''12'' ''A'') 0 0 False None = Scanned True True (Some (take 60 (demo_line ''12'' []))) e"
    "\<exists>e. check_lines (demo_recording ''13'' ''B'') 0 0 False None = Scanned True True (Some (take 60 (demo_line ''13'' []))) e"
    using scan [OF demo_lines(1) nul(1)] scan [OF demo_lines(2) nul(2)] by simp_all
qed

lemma demo_opened:
  "\<forall>p \<in> set demo_paths. c_str p = p"
  "demo_open (rawdata_path ''BASE_20260704_120000.rnx'') recordings = Some \<lparr>tf_text = demo_recording ''12'' ''A'', tf_error = False\<rparr>"
  "demo_open (rawdata_path ''BASE_20260704_130000.rnx'') recordings = Some \<lparr>tf_text = demo_recording ''13'' ''B'', tf_error = False\<rparr>"
  "\<forall>p \<in> set demo_paths. fs_stat ram_vfs p recordings = Inr (False, 9)"
  "CHR 0x00 \<notin> set (demo_recording ''12'' ''A'')" "CHR 0x00 \<notin> set (demo_recording ''13'' ''B'')"
  by code_simp+

lemma demo_export: "fst (export_selected ram_vfs demo_open demo_chunk recordings demo_paths []) = Streamed ESP_OK"
proof -
  have paths: "\<forall>p \<in> set demo_paths. p = rawdata_path ''BASE_20260704_120000.rnx'' \<or> p = rawdata_path ''BASE_20260704_130000.rnx''"
    by (simp add: demo_paths_def)
  have "hc_ok (check_rinex_header ram_vfs demo_open recordings p)" if p: "p \<in> set demo_paths" for p
  proof -
    have "c_str p = p" "fs_stat ram_vfs p recordings = Inr (False, 9)" using p demo_opened by blast+
    then show ?thesis using p paths demo_headers by (auto simp: check_rinex_header_def demo_opened(2,3))
  qed
  then have "find (\<lambda>c. \<not> hc_ok c) (map (check_rinex_header ram_vfs demo_open recordings) demo_paths) = None"
    by (auto simp: find_None_iff)
  moreover have "fst (stream_files demo_chunk (\<lambda>p. demo_open p recordings) n x False demo_paths []) = ESP_OK" for n x
    by (rule stream_files_accepted) (simp_all add: demo_chunk_def demo_open_def)
  ultimately show ?thesis by (simp add: export_selected_def Let_def case_prod_beta)
qed

lemma export_joins_files_witness:
  "snd (export_selected ram_vfs demo_open demo_chunk recordings demo_paths []) = demo_recording ''13'' ''A'' @ ''B''"
proof -
  let ?file = "\<lambda>p. the (demo_open p recordings)"
  have run: "export_selected ram_vfs demo_open demo_chunk recordings demo_paths [] =
      (Streamed ESP_OK, snd (export_selected ram_vfs demo_open demo_chunk recordings demo_paths []))"
    using demo_export by (metis prod.collapse)
  have laws: "chunk_laws demo_chunk (\<lambda>w. w)" by (simp add: chunk_laws_def demo_chunk_def)
  have files: "\<forall>p \<in> set demo_paths. demo_open (c_str p) recordings = Some (?file p) \<and> CHR 0x00 \<notin> set (tf_text (?file p))"
    using demo_opened by (simp add: demo_paths_def)
  have "demo_paths \<noteq> []" by (simp add: demo_paths_def)
  moreover have "map (\<lambda>p. tf_text (?file p)) demo_paths = [demo_recording ''12'' ''A'', demo_recording ''13'' ''B'']"
    by (simp add: demo_paths_def demo_opened)
  ultimately show ?thesis using export_joins_files [OF laws _ files run] by (simp add: demo_joined)
qed

end
