(* ===== verification/WebOta.thy ===== *)
theory WebOta
  imports WebAdmin
begin

text \<open>
  The firmware upload (\<open>update_upload_handler\<close>) and the gateway without TLS
  (\<open>http_gateway_handler\<close>) of \<open>src/main/web_server.cpp\<close>. The lemmas show that the station boots from
  a new image only when it was received and written whole, and what a request without TLS can do.

  \<^item> The \<open>esp_ota\<close> calls are parameters; \<open>ota_laws\<close> states what the upload relies on.
    \<open>esp_err_to_name\<close> is a parameter. The restart is not modelled.
  \<^item> A receive call returns at most what was asked for: more data is cut to that, as in \<open>read_body\<close>.
\<close>

subsection \<open>The upload\<close>

record 'o ota_ops =
  ota_partition :: "'o \<Rightarrow> nat option"
  ota_begin :: "'o \<Rightarrow> esp_err \<times> 'o"
  ota_write :: "string \<Rightarrow> 'o \<Rightarrow> esp_err \<times> 'o"
  ota_end :: "'o \<Rightarrow> esp_err \<times> 'o"
  ota_abort :: "'o \<Rightarrow> 'o"
  ota_set_boot :: "'o \<Rightarrow> esp_err \<times> 'o"

definition kUploadChunk :: nat where "kUploadChunk = 4096"

text \<open>The loop, with the bytes still missing and the time-outs in a row; a response means that it gave up.\<close>

fun upload_loop ::
  "'o ota_ops \<Rightarrow> (esp_err \<Rightarrow> string) \<Rightarrow> recv_turn list \<Rightarrow> nat \<Rightarrow> nat \<Rightarrow> 'o \<Rightarrow> http_response option \<times> 'o" where
  "upload_loop ops err_name [] missing timeouts o1 =
     (if missing = 0 then (None, o1) else (Some (HttpError 500 ''Upload interrupted''), ota_abort ops o1))"
| "upload_loop ops err_name (r # rs) missing timeouts o1 =
     (if missing = 0 then (None, o1)
      else case r of
        RecvTimeout \<Rightarrow>
          if timeouts < 20 then upload_loop ops err_name rs missing (timeouts + 1) o1
          else (Some (HttpError 500 ''Upload interrupted''), ota_abort ops o1)
      | RecvError \<Rightarrow> (Some (HttpError 500 ''Upload interrupted''), ota_abort ops o1)
      | RecvData d \<Rightarrow>
          let d = take (min kUploadChunk missing) d in
          if d = [] then (Some (HttpError 500 ''Upload interrupted''), ota_abort ops o1)
          else let (e, o1) = ota_write ops d o1 in
            if e \<noteq> ESP_OK then (Some (HttpError 500 (err_name e)), ota_abort ops o1)
            else upload_loop ops err_name rs (missing - length d) 0 o1)"

definition receive_image ::
  "'o ota_ops \<Rightarrow> (esp_err \<Rightarrow> string) \<Rightarrow> http_request \<Rightarrow> 'o \<Rightarrow> http_response option \<times> 'o" where
  "receive_image ops err_name rq o1 =
     (if rq_content_len rq = 0 then (Some (HttpError 400 ''Empty image''), o1)
      else case ota_partition ops o1 of
        None \<Rightarrow> (Some (HttpError 400 ''Image too large''), o1)
      | Some space \<Rightarrow>
          if space < rq_content_len rq then (Some (HttpError 400 ''Image too large''), o1)
          else
            let (e, o1) = ota_begin ops o1 in
            if e \<noteq> ESP_OK then (Some (HttpError 500 (err_name e)), o1)
            else
              let (given_up, o1) = upload_loop ops err_name (rq_recv rq) (rq_content_len rq) 0 o1 in
              if given_up \<noteq> None then (given_up, o1)
              else
                let (e, o1) = return_on_error (ota_end ops o1) (ota_set_boot ops) in
                (if e \<noteq> ESP_OK then Some (HttpError 500 (err_name e)) else None, o1))"

definition update_upload_handler where
  "update_upload_handler env now later ops err_name rq w o1 =
     (let (ok, s) = authorize (ae_nvs env) (aw_storage w) now rq (aw_session w); w = w\<lparr>aw_session := s\<rparr> in
      if \<not> ok then (send_unauthorized rq, w, o1)
      else
        let w = w\<lparr>aw_station := set_streams_suspended now True (aw_station w)\<rparr>;
            (failure, o1) = receive_image ops err_name rq o1
        in case failure of
             Some r \<Rightarrow> (r, w\<lparr>aw_station := set_streams_suspended later False (aw_station w)\<rparr>, o1)
           | None \<Rightarrow> (HttpText ''Update accepted. Restarting.'', w, o1))"

subsection \<open>What is booted\<close>

text \<open>The image in the update partition, and the partition the next start boots.\<close>

definition ota_laws :: "'o ota_ops \<Rightarrow> ('o \<Rightarrow> string) \<Rightarrow> ('o \<Rightarrow> 'b) \<Rightarrow> bool" where
  "ota_laws ops flash boot \<longleftrightarrow>
     (\<forall>u. boot (snd (ota_begin ops u)) = boot u \<and> (fst (ota_begin ops u) = ESP_OK \<longrightarrow> flash (snd (ota_begin ops u)) = [])) \<and>
     (\<forall>d u. boot (snd (ota_write ops d u)) = boot u \<and>
        (fst (ota_write ops d u) = ESP_OK \<longrightarrow> flash (snd (ota_write ops d u)) = flash u @ d)) \<and>
     (\<forall>u. boot (snd (ota_end ops u)) = boot u \<and> flash (snd (ota_end ops u)) = flash u) \<and>
     (\<forall>u. boot (ota_abort ops u) = boot u) \<and>
     (\<forall>u. flash (snd (ota_set_boot ops u)) = flash u \<and>
        (fst (ota_set_boot ops u) \<noteq> ESP_OK \<longrightarrow> boot (snd (ota_set_boot ops u)) = boot u))"

definition recv_data :: "recv_turn list \<Rightarrow> string" where
  "recv_data rs = concat (map (\<lambda>r. case r of RecvData d \<Rightarrow> d | _ \<Rightarrow> []) rs)"

lemma ota_lawsD:
  assumes "ota_laws ops flash boot"
  shows "boot (snd (ota_begin ops u)) = boot u" "fst (ota_begin ops u) = ESP_OK \<Longrightarrow> flash (snd (ota_begin ops u)) = []"
    "boot (snd (ota_write ops d u)) = boot u"
    "fst (ota_write ops d u) = ESP_OK \<Longrightarrow> flash (snd (ota_write ops d u)) = flash u @ d"
    "boot (snd (ota_end ops u)) = boot u" "flash (snd (ota_end ops u)) = flash u" "boot (ota_abort ops u) = boot u"
    "flash (snd (ota_set_boot ops u)) = flash u"
    "fst (ota_set_boot ops u) \<noteq> ESP_OK \<Longrightarrow> boot (snd (ota_set_boot ops u)) = boot u"
  using assms by (simp_all add: ota_laws_def)

lemma upload_loop_image:
  assumes laws: "ota_laws ops flash boot"
  shows "\<forall>d. RecvData d \<in> set rs \<longrightarrow> length d \<le> kUploadChunk \<Longrightarrow> upload_loop ops err_name rs missing t u = (given_up, u') \<Longrightarrow>
    boot u' = boot u \<and> (given_up = None \<longrightarrow> flash u' = flash u @ take missing (recv_data rs) \<and> missing \<le> length (recv_data rs))"
proof (induction rs arbitrary: missing t u)
  case Nil
  then show ?case using ota_lawsD(7) [OF laws] by (auto split: if_splits)
next
  case (Cons r rs)
  note IH = Cons.IH [OF _ _] and small = Cons.prems(1)
  show ?case
  proof (cases "missing = 0")
    case True
    then show ?thesis using Cons.prems(2) by auto
  next
    case False
    show ?thesis
    proof (cases r)
      case RecvTimeout
      then show ?thesis using Cons.prems False Cons.IH [of missing "t + 1" u] ota_lawsD(7) [OF laws]
        by (auto simp: recv_data_def split: if_splits)
    next
      case RecvError
      then show ?thesis using Cons.prems False ota_lawsD(7) [OF laws] by auto
    next
      case (RecvData d)
      let ?d = "take (min kUploadChunk missing) d"
      have "length d \<le> kUploadChunk" using small RecvData by simp
      then have d: "?d = take missing d" by (simp add: min_def)
      obtain e v where w: "ota_write ops ?d u = (e, v)" by (rule prod.exhaust)
      show ?thesis
      proof (cases "?d = [] \<or> e \<noteq> ESP_OK")
        case True
        then show ?thesis using Cons.prems(2) False RecvData w ota_lawsD(3) [OF laws, of ?d u] ota_lawsD(7) [OF laws]
          by (auto simp: Let_def split: if_splits)
      next
        case ok: False
        then have "upload_loop ops err_name rs (missing - length ?d) 0 v = (given_up, u')"
          using Cons.prems(2) False RecvData w by (auto simp: Let_def split: if_splits)
        from Cons.IH [OF _ this] small have
          "boot u' = boot v \<and> (given_up = None \<longrightarrow> flash u' = flash v @ take (missing - length ?d) (recv_data rs) \<and>
             missing - length ?d \<le> length (recv_data rs))" by simp
        moreover have "boot v = boot u" "flash v = flash u @ ?d"
          using ota_lawsD(3,4) [OF laws, of ?d u] w ok by simp_all
        moreover have "recv_data (r # rs) = d @ recv_data rs" by (simp add: recv_data_def RecvData)
        moreover have "missing - min (length d) missing = missing - length d" by simp
        ultimately show ?thesis unfolding d by auto
      qed
    qed
  qed
qed

lemma receive_image_facts:
  assumes laws: "ota_laws ops flash boot" and "\<forall>d. RecvData d \<in> set (rq_recv rq) \<longrightarrow> length d \<le> kUploadChunk"
    and "receive_image ops err_name rq u = (failure, u')"
  shows "failure \<noteq> None \<and> boot u' = boot u \<or>
    failure = None \<and> rq_content_len rq \<noteq> 0 \<and> (\<exists>space. ota_partition ops u = Some space \<and> rq_content_len rq \<le> space) \<and>
      flash u' = take (rq_content_len rq) (recv_data (rq_recv rq)) \<and> rq_content_len rq \<le> length (recv_data (rq_recv rq))"
proof (cases "rq_content_len rq = 0 \<or> ota_partition ops u = None \<or> the (ota_partition ops u) < rq_content_len rq")
  case True
  then show ?thesis using assms(3) by (cases "ota_partition ops u") (auto simp: receive_image_def split: if_splits)
next
  case False
  then obtain space where space: "ota_partition ops u = Some space" "rq_content_len rq \<le> space" "rq_content_len rq \<noteq> 0" by auto
  obtain e u1 where b: "ota_begin ops u = (e, u1)" by (rule prod.exhaust)
  obtain g u2 where l: "upload_loop ops err_name (rq_recv rq) (rq_content_len rq) 0 u1 = (g, u2)" by (rule prod.exhaust)
  obtain e3 u3 where f: "ota_end ops u2 = (e3, u3)" by (rule prod.exhaust)
  obtain e4 u4 where s: "ota_set_boot ops u3 = (e4, u4)" by (rule prod.exhaust)
  note loop = upload_loop_image [OF laws assms(2) l]
  have 1: "boot u1 = boot u" "e = ESP_OK \<Longrightarrow> flash u1 = []" using ota_lawsD(1,2) [OF laws, of u] b by simp_all
  have 3: "boot u3 = boot u2" "flash u3 = flash u2" using ota_lawsD(5,6) [OF laws, of u2] f by simp_all
  have 4: "flash u4 = flash u3" "e4 \<noteq> ESP_OK \<Longrightarrow> boot u4 = boot u3" using ota_lawsD(8,9) [OF laws, of u3] s by simp_all
  show ?thesis using assms(3) space loop 1 3 4
    by (auto simp: receive_image_def b l f s return_on_error_def split: if_splits)
qed

lemma set_streams_released [simp]: "\<not> bs_transient_suspended (set_streams_suspended now False s)"
  by (simp add: set_streams_suspended_def apply_fields)

text \<open>
  C18. A new firmware is booted only if it arrived whole: when an upload has changed what the next
  start boots, the session was the current one, the answer is that the update was accepted, and
  the update partition holds exactly the announced number of bytes, in the order received and no
  more than it has room for. Every other upload leaves the old firmware in place; a refused one
  changes nothing, a failed one ends with the streams released.
\<close>

theorem only_whole_images_boot:
  assumes "ota_laws ops flash boot" and "\<forall>d. RecvData d \<in> set (rq_recv rq) \<longrightarrow> length d \<le> 4096"
    and "update_upload_handler env now later ops err_name rq w u = (r, w', u')"
  shows "(boot u' \<noteq> boot u \<longrightarrow>
      session_granted (ae_nvs env) (aw_storage w) now rq (aw_session w) \<and> r = HttpText ''Update accepted. Restarting.'' \<and>
      length (flash u') = rq_content_len rq \<and> flash u' = take (rq_content_len rq) (recv_data (rq_recv rq)) \<and>
      (\<exists>space. ota_partition ops u = Some space \<and> length (flash u') \<le> space)) \<and>
    (r \<noteq> HttpText ''Update accepted. Restarting.'' \<longrightarrow>
      r = send_unauthorized rq \<and> aw_station w' = aw_station w \<and> u' = u \<or> \<not> bs_transient_suspended (aw_station w'))"
proof (cases "fst (authorize (ae_nvs env) (aw_storage w) now rq (aw_session w))")
  case False
  then show ?thesis using assms(3) by (auto simp: update_upload_handler_def Let_def case_prod_beta)
next
  case True
  obtain failure v where f: "receive_image ops err_name rq u = (failure, v)" by (rule prod.exhaust)
  have "\<forall>d. RecvData d \<in> set (rq_recv rq) \<longrightarrow> length d \<le> kUploadChunk" using assms(2) by (simp add: kUploadChunk_def)
  note facts = receive_image_facts [OF assms(1) this f]
  show ?thesis using assms(3) True facts authorize_granted [OF True]
    by (cases failure) (auto simp: update_upload_handler_def f Let_def case_prod_beta)
qed

subsection \<open>Pages of the hotspot\<close>

text \<open>The dashboard, the first-time set-up, the services and the status: pages are named by their title.\<close>

definition root_handler where
  "root_handler env now rq w =
     (if \<not> admin_password_set (ae_nvs env) (aw_storage w) then (SeeOther ''/setup'' None, w)
      else authorized env now rq (\<lambda>w. (HttpPage ''Dashboard'', w)) w)"

definition setup_get_handler where
  "setup_get_handler env w =
     (if admin_password_set (ae_nvs env) (aw_storage w) then (SeeOther ''/'' None, w) else (HttpPage ''Setup'', w))"

definition config_get_handler where
  "config_get_handler env now rq = authorized env now rq (\<lambda>w. (HttpPage ''Links'', w))"

definition status_handler where
  "status_handler env now rq = authorized env now rq (\<lambda>w. (HttpPage ''status'', w))"

definition network_json :: "wifi_network \<Rightarrow> string" where
  "network_json n =
     ''{'' @ [kQuote] @ ''ssid'' @ [kQuote] @ '':'' @ [kQuote] @ web_json_escape (wn_ssid n) @ [kQuote] @ '','' @
     [kQuote] @ ''rssi'' @ [kQuote] @ '':'' @ dec_int (wn_rssi n) @ '','' @
     [kQuote] @ ''secured'' @ [kQuote] @ '':'' @ (if wn_secured n then ''true'' else ''false'') @ ''}''"

fun separated :: "string list \<Rightarrow> string list" where
  "separated [] = []"
| "separated (x # xs) = x # map (\<lambda>y. CHR '','' # y) xs"

text \<open>The scan runs on the radio; the events that come in meanwhile are handled.\<close>

definition wifi_scan_handler where
  "wifi_scan_handler env now rq = authorized env now rq (\<lambda>w.
     if \<not> wm_access_point_active (fst (aw_wifi w))
     then (HttpError 409 ''WiFi scanning is available in AP fallback mode'', w)
     else
       let (networks, k) = scan_networks (ae_wifi env) (snd (aw_wifi w))
       in (HttpJson (''['' @ concat (separated (map network_json networks)) @ '']''),
           w\<lparr>aw_wifi := (deliver (ae_wifi env) k (fst (aw_wifi w)), k)\<rparr>))"

subsection \<open>Without TLS\<close>

text \<open>
  What the gateway does with a request: two files anyone may have, the redirect to TLS, one of the
  handlers, or nothing. The Host header is an argument; \<open>None\<close>: absent or too long.
\<close>

datatype gateway_choice =
    CaCertificate | Favicon | ToHttps string | NotThere
  | RunLoginPage | RunLogin | RunLogout | RunRoot | RunSetupPage | RunSetup | RunConfigPage | RunWifiScan | RunStatus | RunWifi

definition gateway_host :: "string option \<Rightarrow> string" where
  "gateway_host host =
     (let h = (case host of Some h \<Rightarrow> if c_str h = [] \<or> 96 \<le> length h then ''gps-base.local'' else c_str h
               | None \<Rightarrow> ''gps-base.local'')
      in takeWhile (\<lambda>c. c \<noteq> CHR '':'') h)"

definition http_gateway :: "bool \<Rightarrow> bool \<Rightarrow> bool \<Rightarrow> string \<Rightarrow> string option \<Rightarrow> gateway_choice" where
  "http_gateway ap_active is_get is_post uri host =
     (if is_get \<and> uri = ''/ca.crt'' then CaCertificate
      else if is_get \<and> uri = ''/favicon.ico'' then Favicon
      else if \<not> ap_active then ToHttps (''https://'' @ gateway_host host @ uri)
      else if is_get then
        (if uri = ''/login'' then RunLoginPage
         else if uri = ''/logout'' then RunLogout
         else if uri = ''/'' then RunRoot
         else if uri = ''/setup'' then RunSetupPage
         else if uri = ''/config'' then RunConfigPage
         else if uri = ''/wifi/scan'' then RunWifiScan
         else if uri = ''/status'' then RunStatus
         else NotThere)
      else if is_post then
        (if uri = ''/login'' then RunLogin
         else if uri = ''/logout'' then RunLogout
         else if uri = ''/setup'' then RunSetup
         else if uri = ''/config/wifi'' then RunWifi
         else NotThere)
      else NotThere)"

text \<open>What the gateway answers with, and everything it acts on afterwards.\<close>

datatype gateway_answer = Certificate | NoIcon | Redirect string | Answered http_response

definition answer_session where
  "answer_session w a = (case a of (r, s) \<Rightarrow> (Answered r, w\<lparr>aw_session := s\<rparr>))"

definition gateway_step where
  "gateway_step env now rnd rq is_post host w =
     (case http_gateway (wm_access_point_active (fst (aw_wifi w))) (rq_get rq) is_post (rq_uri rq) host of
        CaCertificate \<Rightarrow> (Certificate, w)
      | Favicon \<Rightarrow> (NoIcon, w)
      | ToHttps location \<Rightarrow> (Redirect location, w)
      | NotThere \<Rightarrow> (Answered (HttpError 404 ''Only WiFi provisioning is available over HTTP''), w)
      | RunLoginPage \<Rightarrow> answer_session w (login_get_handler (ae_nvs env) (aw_storage w) now rq (aw_session w))
      | RunLogin \<Rightarrow> answer_session w (login_post_handler (ae_nvs env) (aw_storage w) now rnd rq (aw_session w))
      | RunLogout \<Rightarrow> answer_session w (logout_handler (aw_session w))
      | RunRoot \<Rightarrow> apfst Answered (root_handler env now rq w)
      | RunSetupPage \<Rightarrow> apfst Answered (setup_get_handler env w)
      | RunSetup \<Rightarrow> (case setup_post_handler (ae_nvs env) now rnd rq (aw_storage w, aw_session w) of
          (r, st, s) \<Rightarrow> (Answered r, (put_storage st w)\<lparr>aw_session := s\<rparr>))
      | RunConfigPage \<Rightarrow> apfst Answered (config_get_handler env now rq w)
      | RunWifiScan \<Rightarrow> apfst Answered (wifi_scan_handler env now rq w)
      | RunStatus \<Rightarrow> apfst Answered (status_handler env now rq w)
      | RunWifi \<Rightarrow> apfst Answered (wifi_handler env now rq w))"

text \<open>
  What looking at a request's session does to it: nothing, the end of one that its holder left idle
  for an hour, or a new time of last use.
\<close>

definition session_used :: "'n nvs \<Rightarrow> 'n storage \<Rightarrow> time_us \<Rightarrow> http_request \<Rightarrow> web_session \<Rightarrow> web_session \<Rightarrow> bool" where
  "session_used ops st now rq s s' \<longleftrightarrow> s' = s \<or>
     cookie_value (rq_cookie rq) kSessionCookieName = ws_token s \<and>
       (ws_seen_us s \<le> 0 \<or> 3600000000 < now - ws_seen_us s) \<and> s' = s\<lparr>ws_token := [], ws_seen_us := 0\<rparr> \<or>
     session_granted ops st now rq s \<and> s' = s\<lparr>ws_seen_us := now\<rparr>"

lemma authorize_used: "session_used ops st now rq s (snd (authorize ops st now rq s))"
proof (cases "fst (authorize ops st now rq s)")
  case True
  then have "snd (authorize ops st now rq s) = s\<lparr>ws_seen_us := now\<rparr>"
    by (auto simp: authorize_def Let_def split: if_splits)
  then show ?thesis using authorize_granted [OF True] by (simp add: session_used_def)
next
  case False
  then show ?thesis
    by (auto simp: authorize_def session_used_def Let_def kSessionIdleTimeoutUs_def split: if_splits)
qed

definition hands_out_cookie :: "gateway_answer \<Rightarrow> bool" where
  "hands_out_cookie a = (case a of Answered (SeeOther _ (Some _)) \<Rightarrow> True | _ \<Rightarrow> False)"

lemma unauthorized_no_cookie [simp]: "\<not> hands_out_cookie (Answered (send_unauthorized rq))"
  by (simp add: hands_out_cookie_def send_unauthorized_def)

lemma same_station [simp]: "\<exists>st. s = s\<lparr>bs_storage := st\<rparr>"
  by (rule exI [of _ "bs_storage s"]) simp

text \<open>What a request may do over plain HTTP in the hotspot.\<close>

definition opens_session where
  "opens_session env now is_post rq w \<longleftrightarrow> is_post \<and>
     (rq_uri rq = ''/login'' \<and> \<not> now < ws_block_us (aw_session w) \<and> right_password (ae_nvs env) (aw_storage w) rq \<or>
      rq_uri rq = ''/setup'' \<and> \<not> admin_password_set (ae_nvs env) (aw_storage w))"

definition plain_session_ok where
  "plain_session_ok env now is_post rq w s' \<longleftrightarrow>
     session_used (ae_nvs env) (aw_storage w) now rq (aw_session w) s' \<or>
     rq_uri rq = ''/logout'' \<and> s' = (aw_session w)\<lparr>ws_token := [], ws_seen_us := 0\<rparr> \<or>
     rq_uri rq = ''/login'' \<and> is_post \<and> s' = login_failed now (aw_session w) \<or>
     opens_session env now is_post rq w \<and> (\<exists>token. s' = \<lparr>ws_token = token, ws_seen_us = now, ws_failed = 0, ws_block_us = 0\<rparr>)"

definition plain_settings_ok where
  "plain_settings_ok env now is_post rq w w' \<longleftrightarrow> aw_station w' = aw_station w \<or>
     is_post \<and> (\<exists>st. aw_station w' = (aw_station w)\<lparr>bs_storage := st\<rparr>) \<and>
     (rq_uri rq = ''/setup'' \<and> \<not> admin_password_set (ae_nvs env) (aw_storage w) \<or>
      rq_uri rq = ''/config/wifi'' \<and> session_granted (ae_nvs env) (aw_storage w) now rq (aw_session w))"

definition plain_radio_ok where
  "plain_radio_ok env now rq w w' \<longleftrightarrow> aw_wifi w' = aw_wifi w \<or>
     rq_uri rq = ''/wifi/scan'' \<and> rq_get rq \<and>
     session_granted (ae_nvs env) (aw_storage w) now rq (aw_session w) \<and>
     (let k = snd (scan_networks (ae_wifi env) (snd (aw_wifi w))) in
      aw_wifi w' = (deliver (ae_wifi env) k (fst (aw_wifi w)), k))"

text \<open>All of it, for the answer and the world after a request in the hotspot.\<close>

definition provisioning where
  "provisioning env now is_post rq w r \<longleftrightarrow> (case r of (answer, w') \<Rightarrow>
     aw_card w' = aw_card w \<and> aw_mounted w' = aw_mounted w \<and> aw_job w' = aw_job w \<and>
     plain_session_ok env now is_post rq w (aw_session w') \<and> plain_settings_ok env now is_post rq w w' \<and>
     plain_radio_ok env now rq w w' \<and>
     (if hands_out_cookie answer then rq_uri rq = ''/logout'' \<or> opens_session env now is_post rq w else True))"

lemma provisioning_used:
  assumes "session_used (ae_nvs env) (aw_storage w) now rq (aw_session w) s'" "\<not> hands_out_cookie answer"
  shows "provisioning env now is_post rq w (answer, w\<lparr>aw_session := s'\<rparr>)"
  using assms by (simp add: provisioning_def plain_session_ok_def plain_settings_ok_def plain_radio_ok_def)

lemma provisioning_page:
  assumes "\<And>s'. \<not> hands_out_cookie (Answered (fst (handler (w\<lparr>aw_session := s'\<rparr>)))) \<and>
      snd (handler (w\<lparr>aw_session := s'\<rparr>)) = w\<lparr>aw_session := s'\<rparr>"
  shows "provisioning env now is_post rq w (apfst Answered (authorized env now rq handler w))"
  using assms
  by (cases "fst (authorize (ae_nvs env) (aw_storage w) now rq (aw_session w))")
    (simp_all add: authorized_refuses authorized_runs apfst_def map_prod_def case_prod_beta
      provisioning_used [OF authorize_used])

lemma page_facts [simp]:
  "\<not> hands_out_cookie (Answered (HttpPage t))" "\<not> hands_out_cookie (Answered (HttpJson t))"
  "\<not> hands_out_cookie (Answered (HttpText t))" "\<not> hands_out_cookie (Answered (HttpError n t))"
  "\<not> hands_out_cookie (Answered (LoginPage t u))" "\<not> hands_out_cookie (Answered (SeeOther t None))"
  "\<not> hands_out_cookie (Answered (HandlerFailed e))"
  by (simp_all add: hands_out_cookie_def)

lemma new_session [simp]:
  "s\<lparr>ws_token := a, ws_seen_us := b, ws_failed := c, ws_block_us := d\<rparr> =
   \<lparr>ws_token = a, ws_seen_us = b, ws_failed = c, ws_block_us = d\<rparr>"
  by simp

lemma session_used_same [simp]: "session_used ops st now rq s s"
  by (simp add: session_used_def)

lemma provisioning_still:
  "\<not> hands_out_cookie answer \<Longrightarrow> provisioning env now is_post rq w (answer, w)"
  using provisioning_used [of env w now rq "aw_session w" answer is_post] by simp

lemma provisioning_scan:
  assumes "rq_uri rq = ''/wifi/scan''" "rq_get rq"
  shows "provisioning env now is_post rq w (apfst Answered (wifi_scan_handler env now rq w))"
proof (cases "fst (authorize (ae_nvs env) (aw_storage w) now rq (aw_session w))")
  case True
  then show ?thesis using authorize_granted [OF True] authorize_used [of "ae_nvs env" "aw_storage w" now rq "aw_session w"] assms
    by (simp add: wifi_scan_handler_def authorized_runs provisioning_def plain_session_ok_def plain_settings_ok_def
        plain_radio_ok_def Let_def case_prod_beta)
next
  case False
  then show ?thesis
    by (simp add: wifi_scan_handler_def authorized_refuses provisioning_used [OF authorize_used])
qed

lemma provisioning_wifi:
  assumes "rq_uri rq = ''/config/wifi''" "is_post"
  shows "provisioning env now is_post rq w (apfst Answered (wifi_handler env now rq w))"
proof (cases "fst (authorize (ae_nvs env) (aw_storage w) now rq (aw_session w))")
  case True
  show ?thesis using True authorize_granted [OF True] authorize_used [of "ae_nvs env" "aw_storage w" now rq "aw_session w"] assms
    by (simp add: wifi_handler_def authorized_runs provisioning_def plain_session_ok_def plain_settings_ok_def
        plain_radio_ok_def or_fail_def put_storage_def Let_def case_prod_beta)
      auto
next
  case False
  then show ?thesis by (simp add: wifi_handler_def authorized_refuses provisioning_used [OF authorize_used])
qed

lemma provisioning_login:
  assumes "rq_uri rq = ''/login''" "is_post"
  shows "provisioning env now is_post rq w
    (answer_session w (login_post_handler (ae_nvs env) (aw_storage w) now rnd rq (aw_session w)))"
  using assms
  by (auto simp: login_post_handler_def answer_session_def provisioning_def plain_session_ok_def plain_settings_ok_def
      plain_radio_ok_def opens_session_def right_password_def start_session_cookie_def Let_def split: prod.splits)

lemma provisioning_setup:
  assumes "rq_uri rq = ''/setup''" "is_post"
  shows "provisioning env now is_post rq w
    (case setup_post_handler (ae_nvs env) now rnd rq (aw_storage w, aw_session w) of
       (r, st, s) \<Rightarrow> (Answered r, (put_storage st w)\<lparr>aw_session := s\<rparr>))"
proof (cases "admin_password_set (ae_nvs env) (aw_storage w)")
  case True
  then have "setup_post_handler (ae_nvs env) now rnd rq (aw_storage w, aw_session w) =
      (HttpError 403 ''Already set'', aw_storage w, aw_session w)" by (simp add: setup_post_handler_def)
  moreover have "put_storage (aw_storage w) w = w" by (simp add: put_storage_def aw_storage_def)
  ultimately show ?thesis by (simp add: provisioning_still)
next
  case False
  then show ?thesis using assms
    by (auto simp: setup_post_handler_def provisioning_def plain_session_ok_def plain_settings_ok_def put_storage_def
        plain_radio_ok_def opens_session_def start_session_cookie_def Let_def split: prod.splits)
qed

lemma provisioning_logout:
  "rq_uri rq = ''/logout'' \<Longrightarrow> provisioning env now is_post rq w (answer_session w (logout_handler (aw_session w)))"
  by (simp add: logout_handler_def clear_session_cookie_def answer_session_def provisioning_def plain_session_ok_def
      plain_settings_ok_def plain_radio_ok_def)

lemma provisioning_login_page:
  "provisioning env now is_post rq w
    (answer_session w (login_get_handler (ae_nvs env) (aw_storage w) now rq (aw_session w)))"
  by (simp add: login_get_handler_def answer_session_def provisioning_still provisioning_used [OF authorize_used]
      Let_def case_prod_beta)

lemma provisioning_pages:
  "provisioning env now is_post rq w (apfst Answered (root_handler env now rq w))"
  "provisioning env now is_post rq w (apfst Answered (setup_get_handler env w))"
  "provisioning env now is_post rq w (apfst Answered (config_get_handler env now rq w))"
  "provisioning env now is_post rq w (apfst Answered (status_handler env now rq w))"
  by (simp_all add: root_handler_def setup_get_handler_def config_get_handler_def status_handler_def
      provisioning_still provisioning_page)


subsection \<open>A concrete upload\<close>

text \<open>The state: the update partition's content, and whether the next start boots it.\<close>

definition ram_ota :: "(string \<times> bool) ota_ops" where
  "ram_ota = \<lparr>ota_partition = (\<lambda>_. Some 4096), ota_begin = (\<lambda>(_, b). (ESP_OK, [], b)),
     ota_write = (\<lambda>d (f, b). (ESP_OK, f @ d, b)), ota_end = Pair ESP_OK, ota_abort = (\<lambda>u. u),
     ota_set_boot = (\<lambda>(f, _). (ESP_OK, f, True))\<rparr>"

lemma ram_ota_laws: "ota_laws ram_ota fst snd"
  by (simp add: ota_laws_def ram_ota_def case_prod_beta)

lemma only_whole_images_boot_witness:
  "fst (snd (snd (update_upload_handler demo_admin 5 6 ram_ota (\<lambda>_. [])
     (demo_request ''firmware'' (Some ''gps_admin=tok'')) demo_world ([], False)))) = ''firmware''"
proof -
  let ?rq = "demo_request ''firmware'' (Some ''gps_admin=tok'')"
  have img: "receive_image ram_ota (\<lambda>_. []) ?rq ([], False) = (None, ''firmware'', True)"
    by (simp add: receive_image_def demo_request_def ram_ota_def kUploadChunk_def)
  obtain w' where run: "update_upload_handler demo_admin 5 6 ram_ota (\<lambda>_. []) ?rq demo_world ([], False) =
      (HttpText ''Update accepted. Restarting.'', w', ''firmware'', True)"
    by (simp add: update_upload_handler_def demo_granted img Let_def case_prod_beta)
  have small: "\<forall>d. RecvData d \<in> set (rq_recv ?rq) \<longrightarrow> length d \<le> 4096" by (simp add: demo_request_def)
  show ?thesis using only_whole_images_boot [OF ram_ota_laws small run]
    unfolding run by (simp add: recv_data_def demo_request_def)
qed

text \<open>
  In the hotspot, without TLS, a page without a session leads to the login with the page as its
  query - which the gateway, comparing the whole address, does not know.
\<close>

lemma login_redirect_not_found:
  "send_unauthorized \<lparr>rq_get = True, rq_uri = ''/config'', rq_query = None, rq_cookie = None, rq_accept = Some ''text/html'',
     rq_content_len = 0, rq_recv = []\<rparr> = SeeOther ''/login?next=/config'' None \<and>
   http_gateway True True False ''/login?next=/config'' host = NotThere"
  by (simp add: send_unauthorized_def accepts_html_def header_value_def c_str_def find_after.simps starts_with_def
      safe_local_path_def slash_def kBackslash_def http_gateway_def)

end
