(* ===== verification/Spec2Isabelle.thy ===== *)
theory Spec2Isabelle
  imports Corrections LogBuffer Survey Storage Um980 LocalCaster NtripPush Wifi SdDelete RinexLogger BaseFlow WebExport WebOta
begin

text \<open>
  Verification of the GPS RTK base-station firmware. (skeleton)
\<close>

end
